(* ===== verification/Prelude.thy ===== *)
theory Prelude
  imports Main "HOL-Library.Word"
begin

text \<open>
  Shared vocabulary of the development: the C integer types as words, the ways in which kernel
  code can fail to return, the result combinators with which the operations are written, and the
  word lemmas on bits, pages and addresses that several components use.
\<close>

unbundle bit_operations_syntax

section \<open>Machine integers and addresses\<close>

type_synonym u8 = "8 word"
type_synonym u16 = "16 word"
type_synonym u32 = "32 word"
type_synonym u64 = "64 word"
type_synonym addr = "32 word"

abbreviation NULL :: addr where
  "NULL \<equiv> 0"

text \<open>
  Collections used by the component proofs: \<open>heap_simps\<close> for reads after writes on the typed
  stores, \<open>frame_simps\<close> for the parts of the state an operation leaves alone.
\<close>

named_theorems heap_simps
named_theorems frame_simps

section \<open>Results\<close>

text \<open>
  An operation of the kernel returns \<open>Inr\<close>, or it does not return and the model says why:
  \<^item> \<open>Panic file line func condition\<close>: a failed \<open>ASSERT\<close> or a \<open>PANIC\<close>
    (kernel/debug.h), which ends in the endless loop of \<open>panic_spin\<close>;
  \<^item> \<open>Hang\<close>: a loop of the source that never ends;
  \<^item> \<open>Page_Fault v\<close>: an access through the page tables to an unmapped address;
  \<^item> \<open>Out_Of_Bounds what\<close>: an access outside the object it is meant for;
  \<^item> \<open>Segment_Fault sel\<close>: a segment register loaded with a selector that the processor rejects;
  \<^item> \<open>Suspended f\<close>: a call of \<open>f\<close> that gives the processor away, in a caller that the model follows only
    as long as it runs.
\<close>

datatype err =
    Panic string nat string string
  | Hang
  | Page_Fault u32
  | Out_Of_Bounds string
  | Segment_Fault u16
  | Suspended string

definition bindE :: "'e + 'a \<Rightarrow> ('a \<Rightarrow> 'e + 'b) \<Rightarrow> 'e + 'b" where
  "bindE m f = (case m of Inl e \<Rightarrow> Inl e | Inr x \<Rightarrow> f x)"

text \<open>
  The macro \<open>ASSERT\<close> of kernel/debug.h: with the condition true the code goes on (here the
  last argument), otherwise \<open>PANIC\<close> is called with the place and the text of the condition.
\<close>

definition PANIC :: "string \<Rightarrow> nat \<Rightarrow> string \<Rightarrow> string \<Rightarrow> err + 'a" where
  "PANIC file line func cond = Inl (Panic file line func cond)"

definition ASSERT :: "bool \<Rightarrow> string \<Rightarrow> nat \<Rightarrow> string \<Rightarrow> string \<Rightarrow> err + 'a \<Rightarrow> err + 'a" where
  "ASSERT c file line func cond k = (if c then k else PANIC file line func cond)"

text \<open>A loop modelled by an optional result, as a result: \<open>None\<close> is a loop that never ends.\<close>

definition returns :: "'a option \<Rightarrow> err + 'a" where
  "returns r = (case r of None \<Rightarrow> Inl Hang | Some x \<Rightarrow> Inr x)"

lemma bindE_Inl [simp]: "bindE (Inl e) f = Inl e"
  and bindE_Inr [simp]: "bindE (Inr x) f = f x"
  by (simp_all add: bindE_def)

lemma bindE_assoc: "bindE (bindE m f) g = bindE m (\<lambda>x. bindE (f x) g)"
  by (simp add: bindE_def split: sum.split)

lemma bindE_eq_Inr: "bindE m f = Inr y \<longleftrightarrow> (\<exists>x. m = Inr x \<and> f x = Inr y)"
  by (cases m) auto

lemma bindE_eq_Inl: "bindE m f = Inl e \<longleftrightarrow> m = Inl e \<or> (\<exists>x. m = Inr x \<and> f x = Inl e)"
  by (cases m) auto

lemma ASSERT_True [simp]: "c \<Longrightarrow> ASSERT c file line func cond k = k"
  by (simp add: ASSERT_def)

lemma ASSERT_False [simp]: "\<not> c \<Longrightarrow> ASSERT c file line func cond k = Inl (Panic file line func cond)"
  by (simp add: ASSERT_def PANIC_def)

lemma ASSERT_eq_Inr: "ASSERT c file line func cond k = Inr y \<longleftrightarrow> c \<and> k = Inr y"
  by (cases c) auto

lemma returns_simps [simp]: "returns None = Inl Hang" "returns (Some x) = Inr x"
  by (simp_all add: returns_def)

section \<open>Words\<close>

lemma unat_less_2p32: "unat (a :: u32) < 4294967296"
  using unsigned_less [of a, where ?'a = nat] by simp

lemma u32_add_eq_self [simp]: "(a :: u32) + k = a \<longleftrightarrow> k = 0"
  by simp

lemma u32_eq_bits: "(a :: u32) = b \<longleftrightarrow> (\<forall>n < 32. bit a n = bit b n)"
  by (auto intro: bit_word_eqI)

text \<open>The upper twenty bits of an address: the page it lies in.\<close>

lemma page_mask_push_drop: "(a :: u32) AND 0xfffff000 = push_bit 12 (drop_bit 12 a)"
proof -
  have "(0xfffff000 :: u32) = NOT (mask 12)"
    by (simp add: mask_eq_decr_exp)
  then show ?thesis
    by (auto simp: bit_eq_iff bit_simps)
qed

lemma offset_mask_take: "(a :: u32) AND 0xfff = take_bit 12 a"
  by (simp add: take_bit_eq_mask mask_eq_decr_exp)

lemma unat_page_mask: "unat ((a :: u32) AND 0xfffff000) = unat a div 4096 * 4096"
proof -
  have "unat a div 4096 * 4096 \<le> unat a"
    by simp
  then have "unat a div 4096 * 4096 < 2 ^ 32"
    using unat_less_2p32 [of a] by simp
  then show ?thesis
    by (simp add: page_mask_push_drop push_bit_eq_mult drop_bit_eq_div unat_word_ariths)
qed

lemma unat_offset_mask: "unat ((a :: u32) AND 0xfff) = unat a mod 4096"
  by (simp add: offset_mask_take take_bit_eq_mod unat_word_ariths)

lemma unat_add_u32: "unat ((a :: u32) + b) = (unat a + unat b) mod 4294967296"
  by (simp add: unat_word_ariths)

lemma unat_diff_u32: "unat (b :: u32) \<le> unat a \<Longrightarrow> unat (a - b) = unat a - unat b"
  by (simp add: unat_sub_if_size)

lemma unat_Suc_u32:
  assumes "(a :: u32) + 1 \<noteq> 0"
  shows "unat (a + 1) = unat a + 1"
proof -
  have "unat (a + 1) \<noteq> 0"
    using assms by (simp only: unat_eq_0) simp
  then have "unat a + 1 \<noteq> 4294967296"
    using unat_add_u32 [of a 1] by auto
  then show ?thesis
    using unat_less_2p32 [of a] unat_add_u32 [of a 1] by simp
qed

lemma unat_Suc_below:
  assumes "unat (i :: u32) < unat (n :: u32)"
  shows "unat (i + 1) = unat i + 1"
proof -
  have "unat i + 1 < 4294967296"
    using assms unat_less_2p32 [of n] by simp
  then show ?thesis
    by (simp add: unat_add_u32)
qed

lemma u32_succ_nonzero:
  assumes "(x :: u32) \<noteq> 0xffffffff"
  shows "x + 1 \<noteq> 0"
proof
  assume "x + 1 = 0"
  then have "x = - 1" by (simp only: eq_neg_iff_add_eq_0)
  with assms show False by simp
qed

lemma u32_eq_1I:
  assumes "(x :: u32) \<noteq> 0" "\<not> 1 < x"
  shows "x = 1"
proof -
  have "unat x \<noteq> 0" "\<not> 1 < unat x"
    using assms by (simp_all add: unat_eq_0 word_less_nat_alt)
  then have "unat x = unat (1 :: u32)" by simp
  then show ?thesis by (simp only: word_unat_eq_iff)
qed

lemma unat_measure_step:
  "unat (i :: u32) < unat (n :: u32) \<Longrightarrow> unat n - unat (i + 1) < unat n - unat i"
  by (subst unat_Suc_below [of i n]) auto

lemma unat_Suc_u8: "unat (i :: u8) < 255 \<Longrightarrow> unat (i + 1) = unat i + 1"
  by (simp add: unat_word_ariths)

lemma unat_of_nat_u32: "n < 4294967296 \<Longrightarrow> unat (of_nat n :: u32) = n"
  by (simp add: unsigned_of_nat take_bit_nat_eq_self)

lemma of_nat_eq_iff_u32:
  "m < 4294967296 \<Longrightarrow> n < 4294967296 \<Longrightarrow> (of_nat m :: u32) = of_nat n \<longleftrightarrow> m = n"
  by (metis unat_of_nat_u32)

lemma of_nat_u32_eq_iff:
  assumes "n < 4294967296"
  shows "(of_nat n :: u32) = w \<longleftrightarrow> n = unat w"
proof
  assume "(of_nat n :: u32) = w"
  then show "n = unat w"
    using unat_of_nat_u32 [OF assms] by auto
qed simp

text \<open>Page alignment, and addresses inside an aligned page.\<close>

definition page_aligned :: "u32 \<Rightarrow> bool" where
  "page_aligned p \<longleftrightarrow> p AND 0xfff = 0"

lemma page_aligned_dvd: "page_aligned p \<longleftrightarrow> 4096 dvd unat p"
  by (metis page_aligned_def unat_offset_mask dvd_eq_mod_eq_0 unat_eq_0)

lemma page_aligned_room:
  assumes "page_aligned p"
  shows "unat p + 4096 \<le> 4294967296"
proof -
  from assms obtain k where k: "unat p = 4096 * k"
    by (auto simp: page_aligned_dvd dvd_def)
  with unat_less_2p32 [of p] have "k < 1048576" by simp
  with k show ?thesis by simp
qed

lemma page_mask_in_page:
  assumes "page_aligned p" and "unat k < 4096"
  shows "(p + k) AND 0xfffff000 = p"
proof -
  have "unat (p + k) = unat p + unat k"
    using page_aligned_room [OF assms(1)] assms(2) by (simp add: unat_add_u32)
  moreover obtain m where "unat p = 4096 * m"
    using assms(1) by (auto simp: page_aligned_dvd dvd_def)
  ultimately have "unat ((p + k) AND 0xfffff000) = unat p"
    using assms(2) by (simp add: unat_page_mask)
  then show ?thesis by (simp only: word_unat_eq_iff)
qed

end
