(* ===== verification/Print.thy ===== *)
theory Print
  imports Prelude
begin

text \<open>
  The text console of lib/kernel/print.S: the VGA cursor and the 64 KB window addressed by
  \<open>gs:bx\<close>, and the routines \<open>set_cursor\<close>, \<open>put_char\<close>, \<open>put_str\<close> and
  \<open>put_int\<close> over them. Registers are 16 bits wide as in the assembly, and \<open>jl\<close> is the
  signed comparison. The lemmas show that the cursor stays on the 80 by 25 screen, what each
  character does, that scrolling moves the screen up by one line, and that \<open>put_int\<close> prints
  the eight hexadecimal digits of its argument.
\<close>

section \<open>State\<close>

record vga =
  cursor :: u16
  vmem :: "u16 \<Rightarrow> u8"

section \<open>Operations\<close>

definition set_cursor_vga :: "u32 \<Rightarrow> vga \<Rightarrow> vga" where
  "set_cursor_vga place v = v\<lparr>cursor := ucast place\<rparr>"

text \<open>The pair of stores \<open>mov [gs:bx], c; inc bx; mov byte [gs:bx], 0x07\<close>.\<close>

definition put_cell :: "u16 \<Rightarrow> u8 \<Rightarrow> vga \<Rightarrow> vga" where
  "put_cell bx c v = v\<lparr>vmem := (vmem v)(bx := c, bx + 1 := 0x07)\<rparr>"

text \<open>
  \<open>.roll_screen\<close>: \<open>rep movsd\<close> copies 960 double words upwards from the second line to the
  first, \<open>.cls\<close> fills the last line with blanks.
\<close>

fun movsb_up :: "nat \<Rightarrow> u16 \<Rightarrow> u16 \<Rightarrow> (u16 \<Rightarrow> u8) \<Rightarrow> (u16 \<Rightarrow> u8)" where
  "movsb_up 0 si di m = m"
| "movsb_up (Suc n) si di m = movsb_up n (si + 1) (di + 1) (m(di := m si))"

fun cls :: "nat \<Rightarrow> u16 \<Rightarrow> (u16 \<Rightarrow> u8) \<Rightarrow> (u16 \<Rightarrow> u8)" where
  "cls 0 bx m = m"
| "cls (Suc n) bx m = cls n (bx + 2) (m(bx := 0x20, bx + 1 := 0x07))"

definition roll_screen :: "vga \<Rightarrow> vga" where
  "roll_screen v = v\<lparr>vmem := cls 80 3840 (movsb_up (960 * 4) 160 0 (vmem v)), cursor := 1920\<rparr>"

text \<open>\<open>.is_line_feed\<close> and \<open>.is_carriage_return\<close>: to the start of the next line.\<close>

definition next_line :: "u16 \<Rightarrow> vga \<Rightarrow> vga" where
  "next_line bx v =
     (let bx = bx - bx mod 80 + 80
      in if sint bx < 2000 then v\<lparr>cursor := bx\<rparr> else roll_screen v)"

definition put_char_vga :: "u8 \<Rightarrow> vga \<Rightarrow> vga" where
  "put_char_vga cl v =
     (let bx = cursor v
      in if cl = 0x0d \<or> cl = 0x0a then next_line bx v
         else if cl = 0x08 then
           (let bx = push_bit 1 (bx - 1);
                v = put_cell bx 0x20 v
            in v\<lparr>cursor := drop_bit 1 (bx + 1)\<rparr>)
         else
           (let bx = push_bit 1 bx;
                v = put_cell bx cl v;
                bx = drop_bit 1 (bx + 1) + 1
            in if sint bx < 2000 then v\<lparr>cursor := bx\<rparr> else next_line bx v))"

fun put_str_vga :: "u8 list \<Rightarrow> vga \<Rightarrow> vga" where
  "put_str_vga [] v = v"
| "put_str_vga (c # cs) v = (if c = 0 then v else put_str_vga cs (put_char_vga c v))"

definition print_a_number :: "u32 \<Rightarrow> vga \<Rightarrow> vga" where
  "print_a_number edx v =
     put_char_vga (ucast (if sint edx > 9 then edx + 0x61 - 10 else edx + 0x30)) v"

text \<open>
  The loop of \<open>put_int\<close>: for \<open>ecx = 4, 3, 2, 1\<close> the byte \<open>ecx - 1\<close> of the argument, its upper
  half first.
\<close>

fun put_int_loop :: "nat \<Rightarrow> u32 \<Rightarrow> vga \<Rightarrow> vga" where
  "put_int_loop 0 n v = v"
| "put_int_loop (Suc ecx) n v =
     (let eax = drop_bit (8 * ecx) n
      in put_int_loop ecx n
           (print_a_number (eax AND 0xf) (print_a_number (drop_bit 4 eax AND 0xf) v)))"

definition put_int_vga :: "u32 \<Rightarrow> vga \<Rightarrow> vga" where
  "put_int_vga n v = put_int_loop 4 n v"

section \<open>The cursor stays on the screen\<close>

definition on_screen :: "vga \<Rightarrow> bool" where
  "on_screen v \<longleftrightarrow> unat (cursor v) < 2000"

lemma sint_u16_small:
  assumes "unat (x :: u16) < 32768"
  shows "sint x = int (unat x)"
proof -
  have "uint x < 32768"
    using assms of_nat_less_iff [of "unat x" 32768, where ?'a = int] by simp
  moreover have "- 32768 \<le> uint x"
    using unsigned_greater_eq [of x, where ?'a = int] by linarith
  ultimately show ?thesis
    by (simp add: sint_uint signed_take_bit_int_eq_self)
qed

lemma cell_round_trip: "unat (c :: u16) \<le> 2000 \<Longrightarrow> drop_bit 1 (push_bit 1 c + 1) = c"
  by (simp add: push_bit_eq_mult drop_bit_eq_div word_unat_eq_iff unat_word_ariths)

lemma unat_pred_u16: "(c :: u16) \<noteq> 0 \<Longrightarrow> unat (c - 1) = unat c - 1"
  by (simp add: unat_minus_one)

lemma unat_Suc_u16: "unat (c :: u16) \<le> 2000 \<Longrightarrow> unat (c + 1) = unat c + 1"
  by (simp add: unat_word_ariths)

lemma unat_line_start:
  assumes "unat (bx :: u16) \<le> 2000"
  shows "unat (bx - bx mod 80 + 80) = (unat bx div 80 + 1) * 80"
proof -
  have m: "unat (bx mod 80) = unat bx mod 80"
    by (simp add: unat_word_ariths)
  have "bx mod 80 \<le> bx"
    by (simp add: word_le_nat_alt m)
  then have "unat (bx - bx mod 80) = unat bx - unat bx mod 80"
    by (simp only: unat_sub m)
  then have s: "unat (bx - bx mod 80) = unat bx div 80 * 80"
    by (simp only: minus_mod_eq_div_mult)
  have "unat bx div 80 \<le> 25"
    using assms by simp
  then show ?thesis
    by (simp add: unat_word_ariths(1) s)
qed

lemma next_line_cursor:
  assumes "unat bx \<le> 2000"
  shows "next_line bx v = (if unat bx < 1920
           then v\<lparr>cursor := bx - bx mod 80 + 80\<rparr> else roll_screen v)"
proof -
  have l: "unat (bx - bx mod 80 + 80) = (unat bx div 80 + 1) * 80"
    using assms by (rule unat_line_start)
  have d: "unat bx div 80 \<le> 25"
    using assms by simp
  then have "sint (bx - bx mod 80 + 80) = int ((unat bx div 80 + 1) * 80)"
    by (subst sint_u16_small) (simp_all add: l)
  moreover have "(unat bx div 80 + 1) * 80 < 2000 \<longleftrightarrow> unat bx < 1920"
    by auto
  ultimately show ?thesis
    unfolding next_line_def Let_def
    by (metis of_nat_less_iff of_nat_numeral)
qed

lemma next_line_on_screen: "unat bx \<le> 2000 \<Longrightarrow> on_screen (next_line bx v)"
  by (auto simp: next_line_cursor on_screen_def unat_line_start roll_screen_def)

text \<open>What a character that is neither CR, LF nor backspace does.\<close>

lemma put_char_other:
  assumes "on_screen v" and "cl \<notin> {0x0d, 0x0a, 0x08}"
  shows "put_char_vga cl v =
    (let v' = put_cell (push_bit 1 (cursor v)) cl v
     in if unat (cursor v) < 1999 then v'\<lparr>cursor := cursor v + 1\<rparr> else roll_screen v')"
proof -
  have c: "unat (cursor v) < 2000"
    using assms(1) by (simp add: on_screen_def)
  have r: "drop_bit 1 (push_bit 1 (cursor v) + 1) = cursor v"
    using c by (intro cell_round_trip) simp
  have u: "unat (cursor v + 1) = unat (cursor v) + 1"
    using c by (simp add: unat_Suc_u16)
  have "unat (cursor v + 1) < 32768"
    using c u by simp
  then have "sint (cursor v + 1) = int (unat (cursor v) + 1)"
    by (simp only: sint_u16_small u)
  then have s: "sint (cursor v + 1) < 2000 \<longleftrightarrow> unat (cursor v) < 1999"
    by linarith
  show ?thesis
    unfolding put_char_vga_def Let_def r s
    using assms(2) c by (auto simp: next_line_cursor u)
qed

lemma put_char_backspace:
  assumes "on_screen v" and "cursor v \<noteq> 0"
  shows "put_char_vga 0x08 v =
    (put_cell (push_bit 1 (cursor v - 1)) 0x20 v)\<lparr>cursor := cursor v - 1\<rparr>"
proof -
  have "drop_bit 1 (push_bit 1 (cursor v - 1) + 1) = cursor v - 1"
    using assms by (intro cell_round_trip) (simp add: unat_pred_u16 on_screen_def)
  then show ?thesis
    by (simp only: put_char_vga_def Let_def) simp
qed

lemma put_char_on_screen:
  assumes "on_screen v" and "cl = 0x08 \<longrightarrow> cursor v \<noteq> 0"
  shows "on_screen (put_char_vga cl v)"
proof (cases "cl \<in> {0x0d, 0x0a}")
  case True
  with assms(1) show ?thesis
    by (auto simp: put_char_vga_def Let_def on_screen_def next_line_on_screen [unfolded on_screen_def])
next
  case False
  show ?thesis
  proof (cases "cl = 0x08")
    case True
    then show ?thesis
      using assms put_char_backspace [of v] unat_pred_u16 [of "cursor v"]
      by (simp add: on_screen_def)
  next
    case cl: False
    with False have "cl \<notin> {0x0d, 0x0a, 0x08}" by simp
    with assms(1) show ?thesis
      by (subst put_char_other) (auto simp: Let_def on_screen_def roll_screen_def unat_Suc_u16)
  qed
qed

section \<open>Scrolling\<close>

lemma unat_add_u16: "unat ((a :: u16) + b) = (unat a + unat b) mod 65536"
  by (simp add: unat_word_ariths)

lemma movsb_up_apply:
  "unat di + 160 + n \<le> 65536 \<Longrightarrow>
   movsb_up n (di + 160) di m a = (if unat di \<le> unat a \<and> unat a < unat di + n then m (a + 160) else m a)"
proof (induction n arbitrary: di m)
  case 0
  then show ?case by auto
next
  case (Suc n)
  have di1: "unat (di + 1) = unat di + 1"
    using Suc.prems by (simp add: unat_add_u16)
  have IH: "movsb_up n (di + 1 + 160) (di + 1) m' a =
      (if unat di + 1 \<le> unat a \<and> unat a < unat di + 1 + n then m' (a + 160) else m' a)" for m'
    using Suc.IH [of "di + 1" m'] Suc.prems by (simp only: di1)
  have step: "movsb_up (Suc n) (di + 160) di m a = movsb_up n (di + 1 + 160) (di + 1) (m(di := m (di + 160))) a"
    by (simp add: add.commute add.left_commute)
  have far: "a + 160 \<noteq> di" if "unat di + 1 \<le> unat a" "unat a < unat di + 1 + n"
  proof
    assume "a + 160 = di"
    then have "unat (a + 160) = unat di" by simp
    with that Suc.prems show False by (simp add: unat_add_u16)
  qed
  show ?case
    unfolding step IH using far word_unat_eq_iff [of a di]
    by (cases "a = di") auto
qed

lemma cls_apply:
  "unat bx + 2 * n \<le> 65536 \<Longrightarrow>
   cls n bx m a = (if unat bx \<le> unat a \<and> unat a < unat bx + 2 * n
     then (if even (unat a - unat bx) then 0x20 else 0x07) else m a)"
proof (induction n arbitrary: bx m)
  case 0
  then show ?case by auto
next
  case (Suc n)
  have b1: "unat (bx + 1) = unat bx + 1"
    using Suc.prems by (simp add: unat_add_u16)
  show ?case
  proof (cases "n = 0")
    case True
    then show ?thesis using b1 by (auto simp: word_unat_eq_iff)
  next
    case False
    then have b2: "unat (bx + 2) = unat bx + 2"
      using Suc.prems by (simp add: unat_add_u16)
    show ?thesis
      using Suc.IH [of "bx + 2"] Suc.prems by (auto simp: b1 b2 word_unat_eq_iff)
  qed
qed

theorem roll_screen_vmem:
  "vmem (roll_screen v) a =
     (if unat a < 3840 then vmem v (a + 160)
      else if unat a < 4000 then (if even (unat a) then 0x20 else 0x07)
      else vmem v a)"
  using movsb_up_apply [of 0 3840 "vmem v" a]
  by (auto simp: roll_screen_def cls_apply)

section \<open>Hexadecimal output\<close>

definition hex_digit :: "u32 \<Rightarrow> u8" where
  "hex_digit d = (if unat d < 10 then ucast d + 0x30 else 0x57 + ucast d)"

definition hex8 :: "u32 \<Rightarrow> u8 list" where
  "hex8 n = map (\<lambda>i. hex_digit (drop_bit (4 * i) n AND 0xf)) [7, 6, 5, 4, 3, 2, 1, 0]"

lemma nibble_cases: "unat ((x :: u32) AND 0xf) < 16"
proof -
  have "(x AND 0xf) = take_bit 4 x"
    by (simp add: take_bit_eq_mask mask_eq_decr_exp)
  then show ?thesis
    by (simp add: take_bit_eq_mod unat_word_ariths)
qed

lemma sint_u32_small:
  assumes "unat (x :: u32) < 2147483648"
  shows "sint x = int (unat x)"
proof -
  have "uint x < 2147483648"
    using assms of_nat_less_iff [of "unat x" 2147483648, where ?'a = int] by simp
  moreover have "- 2147483648 \<le> uint x"
    using unsigned_greater_eq [of x, where ?'a = int] by linarith
  ultimately show ?thesis
    by (simp add: sint_uint signed_take_bit_int_eq_self)
qed

lemma print_a_number_hex:
  assumes "unat d < 16"
  shows "print_a_number d v = put_char_vga (hex_digit d) v"
proof -
  have "sint d = int (unat d)"
    using assms by (intro sint_u32_small) simp
  then have s: "sint d > 9 \<longleftrightarrow> \<not> unat d < 10"
    by linarith
  have "(ucast (d + 0x61 - 10) :: u8) = 0x57 + ucast d" "(ucast (d + 0x30) :: u8) = ucast d + 0x30"
    by (simp_all add: word_unat_eq_iff unsigned_ucast_eq take_bit_eq_mod unat_word_ariths
        mod_mod_cancel mod_simps)
  then show ?thesis
    unfolding print_a_number_def hex_digit_def s by auto
qed

lemma hex_digit_nonzero: "unat d < 16 \<Longrightarrow> hex_digit d \<noteq> 0"
  by (auto simp: hex_digit_def word_unat_eq_iff unat_word_ariths unsigned_ucast_eq take_bit_eq_mod)

lemma put_str_hex_Cons:
  "unat d < 16 \<Longrightarrow> put_str_vga (hex_digit d # cs) v = put_str_vga cs (put_char_vga (hex_digit d) v)"
  by (simp add: hex_digit_nonzero)

theorem put_int_hex8: "put_int_vga n v = put_str_vga (hex8 n) v"
proof -
  have four: "(4 :: nat) = Suc (Suc (Suc (Suc 0)))"
    by simp
  show ?thesis
    unfolding put_int_vga_def four
    by (simp add: hex8_def Let_def print_a_number_hex nibble_cases put_str_hex_Cons
        del: put_str_vga.simps(2))
qed

lemma put_str_on_screen: "on_screen v \<Longrightarrow> 0x08 \<notin> set cs \<Longrightarrow> on_screen (put_str_vga cs v)"
proof (induction cs arbitrary: v)
  case (Cons c cs)
  then have "on_screen (put_char_vga c v)"
    by (intro put_char_on_screen) auto
  with Cons show ?case by simp
qed simp

lemma hex_digit_no_backspace: "unat d < 16 \<Longrightarrow> hex_digit d \<noteq> 0x08"
  by (auto simp: hex_digit_def word_unat_eq_iff unat_word_ariths unsigned_ucast_eq take_bit_eq_mod)

lemma put_int_on_screen:
  assumes "on_screen v"
  shows "on_screen (put_int_vga n v)"
proof -
  have "0x08 \<notin> set (hex8 n)"
    using hex_digit_no_backspace [OF nibble_cases] by (auto simp: hex8_def dest: sym)
  with assms show ?thesis by (simp add: put_int_hex8 put_str_on_screen)
qed

text \<open>Reading hexadecimal digits back.\<close>

definition hex_digit_value :: "u8 \<Rightarrow> nat" where
  "hex_digit_value c = (if unat c < 0x61 then unat c - 0x30 else unat c - 0x57)"

definition hex_value :: "u8 list \<Rightarrow> nat" where
  "hex_value cs = foldl (\<lambda>n c. 16 * n + hex_digit_value c) 0 cs"

lemma hex_digit_round_trip: "unat d < 16 \<Longrightarrow> hex_digit_value (hex_digit d) = unat d"
  by (auto simp: hex_digit_value_def hex_digit_def unat_word_ariths unsigned_ucast_eq take_bit_eq_mod)

lemma unat_nibble: "unat (drop_bit k (n :: u32) AND 0xf) = unat n div 2 ^ k mod 16"
proof -
  have "(drop_bit k n AND 0xf) = take_bit 4 (drop_bit k n)"
    by (simp add: take_bit_eq_mask mask_eq_decr_exp)
  then show ?thesis
    by (simp only: unsigned_take_bit_eq unsigned_drop_bit_eq)
       (simp add: take_bit_eq_mod drop_bit_eq_div unat_less_2p32)
qed

lemma hex_value_hex8: "hex_value (hex8 n) = unat n"
proof -
  let ?q = "\<lambda>k. unat n div 2 ^ k"
  have step: "16 * ?q (k + 4) + ?q k mod 16 = ?q k" for k
  proof -
    have "?q (k + 4) = ?q k div 16"
      by (simp add: power_add div_mult2_eq)
    then show ?thesis by simp
  qed
  have "?q 32 = 0"
    using unat_less_2p32 [of n] by simp
  then have top: "?q 28 mod 16 = ?q 28"
    using step [of 28] by simp
  have "hex_value (hex8 n) = 16 * (16 * (16 * (16 * (16 * (16 * (16 * (?q 28 mod 16) + ?q 24 mod 16) +
      ?q 20 mod 16) + ?q 16 mod 16) + ?q 12 mod 16) + ?q 8 mod 16) + ?q 4 mod 16) + ?q 0 mod 16"
    by (simp only: hex_value_def hex8_def list.map foldl.simps hex_digit_round_trip nibble_cases unat_nibble) simp
  also have "\<dots> = ?q 0"
    unfolding top using step [of 24] step [of 20] step [of 16] step [of 12] step [of 8] step [of 4] step [of 0]
    by simp
  finally show ?thesis by simp
qed

section \<open>Properties\<close>

text \<open>
  C37: Printing a string without backspaces, or a number, on a screen whose cursor is in range
  leaves the cursor in range, whatever lines it breaks and however often it scrolls.
\<close>

theorem put_str_stays_on_screen:
  "on_screen v \<Longrightarrow> 0x08 \<notin> set cs \<Longrightarrow> on_screen (put_str_vga cs v) \<and> on_screen (put_int_vga n v)"
  by (simp add: put_str_on_screen put_int_on_screen)

theorem put_str_stays_on_screen_witness:
  "on_screen \<lparr>cursor = 1999, vmem = \<lambda>_. 0\<rparr> \<and>
   on_screen (put_str_vga [0x68, 0x69, 0x0a] \<lparr>cursor = 1999, vmem = \<lambda>_. 0\<rparr>)"
  using put_str_stays_on_screen [of "\<lparr>cursor = 1999, vmem = \<lambda>_. 0\<rparr>" "[0x68, 0x69, 0x0a]"]
  by (simp add: on_screen_def)

text \<open>
  A line feed on the last line scrolls: every byte of the first 24 lines is the one that was a
  line below, the last line is blank, the cursor is at its start and the memory behind the screen is
  unchanged.
\<close>

theorem line_feed_scrolls:
  assumes "on_screen v" "1920 \<le> unat (cursor v)"
  shows "put_char_vga 0x0a v = v\<lparr>cursor := 1920, vmem := \<lambda>a.
    if unat a < 3840 then vmem v (a + 160)
    else if unat a < 4000 then (if even (unat a) then 0x20 else 0x07)
    else vmem v a\<rparr>"
proof -
  have "put_char_vga 0x0a v = roll_screen v"
    using assms by (simp add: put_char_vga_def next_line_cursor on_screen_def)
  moreover have "roll_screen v = v\<lparr>cursor := 1920, vmem := vmem (roll_screen v)\<rparr>"
    by (simp add: roll_screen_def)
  ultimately show ?thesis
    by (simp add: roll_screen_vmem [abs_def])
qed

theorem line_feed_scrolls_witness:
  "let v = \<lparr>cursor = 1950, vmem = \<lambda>a. ucast (drop_bit 4 a)\<rparr>
   in on_screen v \<and> vmem (put_char_vga 0x0a v) 0 = 10 \<and> vmem (put_char_vga 0x0a v) 3841 = 7"
  using line_feed_scrolls [of "\<lparr>cursor = 1950, vmem = \<lambda>a. ucast (drop_bit 4 a)\<rparr>"]
  by (simp add: on_screen_def Let_def)

text \<open>
  C36: \<open>put_int\<close> prints exactly eight lower-case hexadecimal digits, and reading these digits
  back gives the number.
\<close>

theorem put_int_prints_hex:
  "put_int_vga n v = put_str_vga (hex8 n) v \<and> length (hex8 n) = 8 \<and> hex_value (hex8 n) = unat n"
  by (simp add: put_int_hex8 hex_value_hex8) (simp add: hex8_def)

end
