(* ===== verification/Machine.thy ===== *)
theory Machine
  imports Print
begin

text \<open>
  The processor state the kernel code touches, port input and output (lib/kernel/io.h), the
  interrupt flag operations of kernel/interrupt.c, the console calls on the machine state and
  \<open>panic_spin\<close> of kernel/debug.c. The record is the root of the kernel state: every later
  component extends it, and every operation is polymorphic in the extension.

  \<open>link_kernel_thread\<close> and \<open>link_schedule_ret\<close> stand for two addresses that the linker fixes:
  the entry of \<open>kernel_thread\<close> and the instruction after the call of \<open>switch_to\<close> in
  \<open>schedule\<close>.
\<close>

section \<open>State\<close>

record machine =
  eflags :: u32
  esp :: u32
  ebp :: u32
  ebx :: u32
  edi :: u32
  esi :: u32
  eip :: u32
  cr3 :: u32
  gdtr :: u64
  idtr :: u64
  tr :: u16
  port_in :: "u16 \<Rightarrow> u8"
  port_out :: "(u16 \<times> u8) list"
  screen :: vga
  link_kernel_thread :: u32
  link_schedule_ret :: u32

datatype intr_status = INTR_ON | INTR_OFF

section \<open>Port input and output, console\<close>

definition outb :: "u16 \<Rightarrow> u8 \<Rightarrow> 'a machine_scheme \<Rightarrow> 'a machine_scheme" where
  "outb port data s = s\<lparr>port_out := port_out s @ [(port, data)]\<rparr>"

definition inb :: "u16 \<Rightarrow> 'a machine_scheme \<Rightarrow> u8" where
  "inb port s = port_in s port"

definition cstr :: "string \<Rightarrow> u8 list" where
  "cstr = map of_char"

definition put_str :: "string \<Rightarrow> 'a machine_scheme \<Rightarrow> 'a machine_scheme" where
  "put_str str s = s\<lparr>screen := put_str_vga (cstr str) (screen s)\<rparr>"

definition put_char :: "u8 \<Rightarrow> 'a machine_scheme \<Rightarrow> 'a machine_scheme" where
  "put_char c s = s\<lparr>screen := put_char_vga c (screen s)\<rparr>"

definition put_int :: "u32 \<Rightarrow> 'a machine_scheme \<Rightarrow> 'a machine_scheme" where
  "put_int n s = s\<lparr>screen := put_int_vga n (screen s)\<rparr>"

definition set_cursor :: "u32 \<Rightarrow> 'a machine_scheme \<Rightarrow> 'a machine_scheme" where
  "set_cursor place s = s\<lparr>screen := set_cursor_vga place (screen s)\<rparr>"

section \<open>The interrupt flag\<close>

definition EFLAGS_IF :: u32 where
  "EFLAGS_IF = 0x00000200"

definition intr_get_status :: "'a machine_scheme \<Rightarrow> intr_status" where
  "intr_get_status s = (if EFLAGS_IF AND eflags s \<noteq> 0 then INTR_ON else INTR_OFF)"

definition sti :: "'a machine_scheme \<Rightarrow> 'a machine_scheme" where
  "sti s = s\<lparr>eflags := eflags s OR EFLAGS_IF\<rparr>"

definition cli :: "'a machine_scheme \<Rightarrow> 'a machine_scheme" where
  "cli s = s\<lparr>eflags := eflags s AND NOT EFLAGS_IF\<rparr>"

definition intr_enable :: "'a machine_scheme \<Rightarrow> intr_status \<times> 'a machine_scheme" where
  "intr_enable s =
     (if INTR_ON = intr_get_status s then (INTR_ON, s) else (INTR_OFF, sti s))"

definition intr_disable :: "'a machine_scheme \<Rightarrow> intr_status \<times> 'a machine_scheme" where
  "intr_disable s =
     (if INTR_ON = intr_get_status s then (INTR_ON, cli s) else (INTR_OFF, s))"

definition intr_set_status :: "intr_status \<Rightarrow> 'a machine_scheme \<Rightarrow> intr_status \<times> 'a machine_scheme" where
  "intr_set_status status s = (if status = INTR_ON then intr_enable s else intr_disable s)"

section \<open>Panic\<close>

text \<open>
  The state in which \<open>panic_spin\<close> loops for ever, with interrupts off and the message on the
  screen. An operation that panics is \<open>Inl (Panic file line func condition)\<close> in this
  development.
\<close>

definition panic_spin ::
    "string \<Rightarrow> nat \<Rightarrow> string \<Rightarrow> string \<Rightarrow> 'a machine_scheme \<Rightarrow> 'a machine_scheme" where
  "panic_spin filename line func condition s =
     (let s = snd (intr_disable s);
          s = put_str (CHR 0x0a # CHR 0x0a # CHR 0x0a # ''!!!!!!!error!!!!!!!!!!'' @ [CHR 0x0a]) s;
          s = put_str [CHR 0x0a] (put_str filename (put_str ''filename: '' s));
          s = put_str [CHR 0x0a] (put_int (of_nat line) (put_str ''line: '' s));
          s = put_str [CHR 0x0a] (put_str func (put_str ''func: '' s))
      in put_str [CHR 0x0a] (put_str condition (put_str ''condition: '' s)))"

section \<open>Lemmas on the interrupt flag\<close>

lemma bit_EFLAGS_IF: "bit EFLAGS_IF n \<longleftrightarrow> n = 9"
  using bit_exp_iff [of 9 n, where ?'a = "32 word"]
  by (auto simp: EFLAGS_IF_def)

lemma intr_get_status_bit: "intr_get_status s = (if bit (eflags s) 9 then INTR_ON else INTR_OFF)"
proof -
  have "EFLAGS_IF AND eflags s \<noteq> 0 \<longleftrightarrow> bit (eflags s) 9"
    by (auto simp: u32_eq_bits bit_EFLAGS_IF bit_simps)
  then show ?thesis
    by (simp add: intr_get_status_def)
qed

lemma intr_disable_eq:
  "intr_disable s = (intr_get_status s, s\<lparr>eflags := eflags s AND NOT EFLAGS_IF\<rparr>)"
proof -
  have "eflags s AND NOT EFLAGS_IF = eflags s" if "\<not> bit (eflags s) 9"
    using that by (auto simp: u32_eq_bits bit_EFLAGS_IF bit_simps)
  then show ?thesis
    by (auto simp: intr_disable_def intr_get_status_bit cli_def)
qed

lemma intr_enable_eq:
  "intr_enable s = (intr_get_status s, s\<lparr>eflags := eflags s OR EFLAGS_IF\<rparr>)"
proof -
  have "eflags s OR EFLAGS_IF = eflags s" if "bit (eflags s) 9"
    using that by (auto simp: u32_eq_bits bit_EFLAGS_IF bit_simps)
  then show ?thesis
    by (auto simp: intr_enable_def intr_get_status_bit sti_def)
qed

lemma intr_get_status_cli [simp]:
  "intr_get_status (s\<lparr>eflags := f AND NOT EFLAGS_IF\<rparr>) = INTR_OFF"
  by (simp add: intr_get_status_bit bit_simps bit_EFLAGS_IF)

lemma snd_intr_set_status:
  "snd (intr_set_status st s) =
     s\<lparr>eflags := (if st = INTR_ON then eflags s OR EFLAGS_IF else eflags s AND NOT EFLAGS_IF)\<rparr>"
  by (simp add: intr_set_status_def intr_enable_eq intr_disable_eq)

text \<open>
  The pattern \<open>old = intr_disable(); \<dots>; intr_set_status(old)\<close>: whatever the section in
  between does to the rest of the state, the flags are restored exactly.
\<close>

lemma intr_restore:
  assumes "eflags t = eflags s AND NOT EFLAGS_IF"
  shows "snd (intr_set_status (intr_get_status s) t) = t\<lparr>eflags := eflags s\<rparr>"
proof -
  have "(if bit (eflags s) 9 then (eflags s AND NOT EFLAGS_IF) OR EFLAGS_IF
         else (eflags s AND NOT EFLAGS_IF) AND NOT EFLAGS_IF) = eflags s"
    by (auto simp: u32_eq_bits bit_simps bit_EFLAGS_IF)
  then show ?thesis
    using assms by (auto simp: snd_intr_set_status intr_get_status_bit split: if_splits)
qed

lemma panic_spin_interrupts_off: "intr_get_status (panic_spin file line func cond s) = INTR_OFF"
  by (simp add: panic_spin_def Let_def put_str_def put_int_def intr_disable_eq intr_get_status_bit
      bit_simps bit_EFLAGS_IF)

section \<open>The console calls keep the cursor on the screen\<close>

lemma of_char_u8_8: "(of_char c :: u8) = 8 \<longleftrightarrow> c = CHR 0x08"
proof -
  have "(of_char c :: u8) = of_nat (of_char c)"
    by (simp only: of_nat_of_char)
  moreover have "of_char c < (256 :: nat)"
    by (metis of_char_mod_256 mod_less_divisor zero_less_numeral)
  ultimately have "(of_char c :: u8) = 8 \<longleftrightarrow> of_char c = (8 :: nat)"
    by (simp add: word_unat_eq_iff unsigned_of_nat take_bit_nat_eq_self)
  also have "\<dots> \<longleftrightarrow> of_char c = (of_char (CHR 0x08) :: nat)" by simp
  also have "\<dots> \<longleftrightarrow> c = CHR 0x08" by (simp only: of_char_eq_iff)
  finally show ?thesis .
qed

lemma put_str_screen: "on_screen (screen s) \<Longrightarrow> CHR 0x08 \<notin> set x \<Longrightarrow> on_screen (screen (put_str x s))"
  using put_str_on_screen [of "screen s" "cstr x"]
  by (auto simp: put_str_def cstr_def image_iff of_char_u8_8 eq_commute)

lemma put_int_screen: "on_screen (screen s) \<Longrightarrow> on_screen (screen (put_int n s))"
  by (simp add: put_int_def put_int_on_screen)

lemma put_char_screen: "on_screen (screen s) \<Longrightarrow> c \<noteq> 8 \<Longrightarrow> on_screen (screen (put_char c s))"
  by (simp add: put_char_def put_char_on_screen)

lemma set_cursor_screen: "unat p < 2000 \<Longrightarrow> on_screen (screen (set_cursor p s))"
  by (simp add: set_cursor_def set_cursor_vga_def on_screen_def unsigned_ucast_eq take_bit_nat_eq_self)

lemmas console_screen = put_str_screen put_int_screen put_char_screen set_cursor_screen

section \<open>Properties\<close>

definition machine0 :: machine where
  "machine0 = \<lparr>eflags = 0x202, esp = 0xc009ef00, ebp = 0, ebx = 0, edi = 0, esi = 0, eip = 0, cr3 = 0x100000,
     gdtr = 0, idtr = 0, tr = 0, port_in = \<lambda>_. 0, port_out = [], screen = \<lparr>cursor = 0, vmem = \<lambda>_. 0\<rparr>,
     link_kernel_thread = 0xc0003000, link_schedule_ret = 0xc0003200\<rparr>"

text \<open>
  Critical sections nest: with interrupts disabled, any section that leaves the flags as
  \<open>intr_disable\<close> set them, and \<open>intr_set_status\<close> of the saved status, the flags are what they were
  before, and in between the interrupt status is off.
\<close>

theorem critical_section_restores:
  assumes "intr_disable s = (old, s1)" "eflags s2 = eflags s1"
  shows "intr_get_status s1 = INTR_OFF \<and> old = intr_get_status s \<and>
    snd (intr_set_status old s2) = s2\<lparr>eflags := eflags s\<rparr>"
  using assms intr_restore [of s2 s] by (auto simp: intr_disable_eq)

theorem critical_section_restores_witness:
  "let (old, s1) = intr_disable machine0; s2 = outb 0x20 0x20 s1
   in intr_get_status machine0 = INTR_ON \<and> old = INTR_ON \<and> intr_get_status s1 = INTR_OFF \<and>
      intr_get_status (snd (intr_set_status old s2)) = INTR_ON"
proof -
  let ?s1 = "snd (intr_disable machine0)" and ?old = "fst (intr_disable machine0)"
  have "intr_disable machine0 = (?old, ?s1)" "eflags (outb 0x20 0x20 ?s1) = eflags ?s1"
    by (simp_all add: outb_def)
  note * = critical_section_restores [OF this]
  have on: "intr_get_status machine0 = INTR_ON"
    by (simp add: intr_get_status_def machine0_def EFLAGS_IF_def)
  have "intr_get_status ((outb 0x20 0x20 ?s1)\<lparr>eflags := eflags machine0\<rparr>) = intr_get_status machine0"
    by (simp add: intr_get_status_def)
  with * on show ?thesis by (auto simp: case_prod_beta Let_def)
qed

end
