(* ===== verification/Cstring.thy ===== *)
theory Cstring
  imports Machine
begin

text \<open>
  lib/string.c over a byte memory. A loop that ends after a counted number of rounds recurses on
  that number; a loop that looks for a terminator is a \<open>partial_function (option)\<close>, so that a
  string without terminator is a loop that never ends. The lemmas give the contents after
  \<open>memset\<close> and \<open>memcpy\<close>, and the results of the string functions on terminated strings.
\<close>

section \<open>State\<close>

record bytemem = machine +
  mem :: "addr \<Rightarrow> u8"

section \<open>Operations\<close>

fun memset_loop :: "nat \<Rightarrow> addr \<Rightarrow> u8 \<Rightarrow> (addr \<Rightarrow> u8) \<Rightarrow> (addr \<Rightarrow> u8)" where
  "memset_loop 0 dst val m = m"
| "memset_loop (Suc sz) dst val m = memset_loop sz (dst + 1) val (m(dst := val))"

definition memset :: "addr \<Rightarrow> u8 \<Rightarrow> u32 \<Rightarrow> 'a bytemem_scheme \<Rightarrow> err + 'a bytemem_scheme" where
  "memset dst val sz s =
     ASSERT (dst \<noteq> NULL) ''lib/string.c'' 7 ''memset'' ''dst_ != NULL''
       (Inr (s\<lparr>mem := memset_loop (unat sz) dst val (mem s)\<rparr>))"

fun memcpy_loop :: "nat \<Rightarrow> addr \<Rightarrow> addr \<Rightarrow> (addr \<Rightarrow> u8) \<Rightarrow> (addr \<Rightarrow> u8)" where
  "memcpy_loop 0 dst src m = m"
| "memcpy_loop (Suc sz) dst src m = memcpy_loop sz (dst + 1) (src + 1) (m(dst := m src))"

definition memcpy :: "addr \<Rightarrow> addr \<Rightarrow> u32 \<Rightarrow> 'a bytemem_scheme \<Rightarrow> err + 'a bytemem_scheme" where
  "memcpy dst src sz s =
     ASSERT (dst \<noteq> NULL \<and> src \<noteq> NULL) ''lib/string.c'' 15 ''memcpy'' ''dst_ != NULL && src_ != NULL''
       (Inr (s\<lparr>mem := memcpy_loop (unat sz) dst src (mem s)\<rparr>))"

text \<open>The characters compared are of type \<open>char\<close>, which is signed.\<close>

fun memcmp_loop :: "nat \<Rightarrow> addr \<Rightarrow> addr \<Rightarrow> (addr \<Rightarrow> u8) \<Rightarrow> int" where
  "memcmp_loop 0 a b m = 0"
| "memcmp_loop (Suc sz) a b m =
     (if sint (m a) > sint (m b) then 1
      else if sint (m a) < sint (m b) then -1
      else memcmp_loop sz (a + 1) (b + 1) m)"

definition memcmp :: "addr \<Rightarrow> addr \<Rightarrow> u32 \<Rightarrow> 'a bytemem_scheme \<Rightarrow> err + int" where
  "memcmp a b sz s =
     ASSERT (a \<noteq> NULL \<and> b \<noteq> NULL) ''lib/string.c'' 25 ''memcmp'' ''a_ != NULL && b_ != NULL''
       (Inr (memcmp_loop (unat sz) a b (mem s)))"

partial_function (option) strcpy_loop ::
    "addr \<Rightarrow> addr \<Rightarrow> (addr \<Rightarrow> u8) \<Rightarrow> (addr \<Rightarrow> u8) option" where
  "strcpy_loop dst src m =
     (if m src \<noteq> 0 then strcpy_loop (dst + 1) (src + 1) (m(dst := m src)) else Some m)"

definition strcpy :: "addr \<Rightarrow> addr \<Rightarrow> 'a bytemem_scheme \<Rightarrow> err + addr \<times> 'a bytemem_scheme" where
  "strcpy dst src s =
     ASSERT (dst \<noteq> NULL \<and> src \<noteq> NULL) ''lib/string.c'' 40 ''strcpy'' ''dst_ != NULL && src_ != NULL''
       (bindE (returns (strcpy_loop dst src (mem s))) (\<lambda>m. Inr (dst, s\<lparr>mem := m\<rparr>)))"

text \<open>\<open>while(*p++);\<close>: the pointer after the terminator.\<close>

partial_function (option) strlen_loop :: "addr \<Rightarrow> (addr \<Rightarrow> u8) \<Rightarrow> addr option" where
  "strlen_loop p m = (if m p \<noteq> 0 then strlen_loop (p + 1) m else Some (p + 1))"

definition strlen :: "addr \<Rightarrow> 'a bytemem_scheme \<Rightarrow> err + u32" where
  "strlen str s =
     ASSERT (str \<noteq> NULL) ''lib/string.c'' 49 ''strlen'' ''str != NULL''
       (bindE (returns (strlen_loop str (mem s))) (\<lambda>p. Inr (p - str - 1)))"

partial_function (option) strcmp_loop :: "addr \<Rightarrow> addr \<Rightarrow> (addr \<Rightarrow> u8) \<Rightarrow> (addr \<times> addr) option" where
  "strcmp_loop a b m =
     (if m a \<noteq> 0 \<and> m a = m b then strcmp_loop (a + 1) (b + 1) m else Some (a, b))"

definition strcmp :: "addr \<Rightarrow> addr \<Rightarrow> 'a bytemem_scheme \<Rightarrow> err + int" where
  "strcmp a b s =
     ASSERT (a \<noteq> NULL \<and> b \<noteq> NULL) ''lib/string.c'' 57 ''strcmp'' ''a != NULL && b != NULL''
       (bindE (returns (strcmp_loop a b (mem s)))
         (\<lambda>(a, b). Inr (if sint (mem s a) < sint (mem s b) then -1
                        else if sint (mem s a) > sint (mem s b) then 1 else 0)))"

partial_function (option) strchr_loop :: "addr \<Rightarrow> u8 \<Rightarrow> (addr \<Rightarrow> u8) \<Rightarrow> addr option" where
  "strchr_loop str ch m =
     (if m str \<noteq> 0 then (if m str = ch then Some str else strchr_loop (str + 1) ch m)
      else Some NULL)"

definition strchr :: "addr \<Rightarrow> u8 \<Rightarrow> 'a bytemem_scheme \<Rightarrow> err + addr" where
  "strchr str ch s =
     ASSERT (str \<noteq> NULL) ''lib/string.c'' 69 ''strchr'' ''str != NULL''
       (returns (strchr_loop str ch (mem s)))"

text \<open>
  The loop condition of \<open>strrchr\<close> is \<open>str != '\0'\<close>, on the pointer and not on the character:
  the loop ends when the pointer has wrapped around to address 0.
\<close>

function strrchr_loop :: "addr \<Rightarrow> u8 \<Rightarrow> addr \<Rightarrow> (addr \<Rightarrow> u8) \<Rightarrow> addr" where
  "strrchr_loop str ch last_char m =
     (if str \<noteq> 0 then strrchr_loop (str + 1) ch (if m str = ch then str else last_char) m
      else last_char)"
  by pat_completeness auto
termination
proof (relation "measure (\<lambda>(str, ch, last_char, m). if str = 0 then 0 else 2 ^ 32 - unat str)")
  show "((str + 1, ch, if m str = ch then str else last_char, m), str, ch, last_char, m)
    \<in> measure (\<lambda>(str, ch, last_char, m). if str = 0 then 0 else 2 ^ 32 - unat str)"
    if "str \<noteq> 0" for str :: addr and ch :: u8 and last_char :: addr and m
    using that unat_less_2p32 [of str] unat_Suc_u32 [of str]
    by (cases "str + 1 = 0") auto
qed simp

definition strrchr :: "addr \<Rightarrow> u8 \<Rightarrow> 'a bytemem_scheme \<Rightarrow> err + addr" where
  "strrchr str ch s =
     ASSERT (str \<noteq> NULL) ''lib/string.c'' 82 ''strrchr'' ''str != NULL''
       (Inr (strrchr_loop str ch NULL (mem s)))"

text \<open>\<open>strcat\<close>: to the terminator of the destination, then copy with the terminator.\<close>

partial_function (option) strcat_copy ::
    "addr \<Rightarrow> addr \<Rightarrow> (addr \<Rightarrow> u8) \<Rightarrow> (addr \<Rightarrow> u8) option" where
  "strcat_copy dst src m =
     (let m' = m(dst := m src) in if m src \<noteq> 0 then strcat_copy (dst + 1) (src + 1) m' else Some m')"

definition strcat :: "addr \<Rightarrow> addr \<Rightarrow> 'a bytemem_scheme \<Rightarrow> err + addr \<times> 'a bytemem_scheme" where
  "strcat dst src s =
     ASSERT (dst \<noteq> NULL \<and> src \<noteq> NULL) ''lib/string.c'' 96 ''strcat'' ''dst_ != NULL && src != NULL''
       (bindE (returns (strlen_loop dst (mem s)))
         (\<lambda>d. bindE (returns (strcat_copy (d - 1) src (mem s)))
           (\<lambda>m. Inr (dst, s\<lparr>mem := m\<rparr>))))"

partial_function (option) strchrs_loop :: "addr \<Rightarrow> u8 \<Rightarrow> u32 \<Rightarrow> (addr \<Rightarrow> u8) \<Rightarrow> u32 option" where
  "strchrs_loop str ch cnt m =
     (if m str \<noteq> 0 then strchrs_loop (str + 1) ch (if m str = ch then cnt + 1 else cnt) m
      else Some cnt)"

definition strchrs :: "addr \<Rightarrow> u8 \<Rightarrow> 'a bytemem_scheme \<Rightarrow> err + u32" where
  "strchrs str ch s =
     ASSERT (str \<noteq> NULL) ''lib/string.c'' 107 ''strchrs'' ''str != NULL''
       (returns (strchrs_loop str ch 0 (mem s)))"

declare strrchr_loop.simps [simp del]

section \<open>Memory blocks\<close>

lemma sint_u8_eq_iff: "sint (a :: u8) = sint b \<longleftrightarrow> a = b"
  by (auto intro: signed_word_eqI)

lemma sint_u8_eq_0_iff: "sint (a :: u8) = 0 \<longleftrightarrow> a = 0"
  using sint_u8_eq_iff [of a 0] by simp

text \<open>
  An address \<open>a\<close> is in the block of \<open>n\<close> bytes at \<open>p\<close> when \<open>unat (a - p) < n\<close>; this is
  right across the wrap-around too.
\<close>

lemma offset_step: "(a :: u32) \<noteq> p \<Longrightarrow> unat (a - (p + 1)) = unat (a - p) - 1"
proof -
  assume "a \<noteq> p"
  then have "a - p \<noteq> 0" by simp
  then have "unat (a - p - 1) = unat (a - p) - 1" by (rule unat_minus_one)
  then show ?thesis by (simp add: diff_diff_eq)
qed

lemma offset_pos: "(a :: u32) \<noteq> p \<Longrightarrow> 0 < unat (a - p)"
  by (simp add: unat_gt_0)

lemma memset_loop_apply:
  "n \<le> 2 ^ 32 \<Longrightarrow> memset_loop n p v m a = (if unat (a - p) < n then v else m a)"
proof (induction n arbitrary: p m)
  case 0
  then show ?case by simp
next
  case (Suc n)
  have "unat (p - (p + 1)) = 4294967295"
    by (simp add: unsigned_minus_1_eq_mask mask_eq_exp_minus_1)
  with Suc show ?case
    using offset_step [of a p] offset_pos [of a p] by (cases "a = p") auto
qed

lemma memcpy_loop_apply:
  assumes "n \<le> 2 ^ 32" and "\<forall>i < n. \<forall>j < n. dst + of_nat i \<noteq> src + of_nat j"
  shows "memcpy_loop n dst src m a = (if unat (a - dst) < n then m (src + (a - dst)) else m a)"
  using assms
proof (induction n arbitrary: dst src m)
  case 0
  then show ?case by simp
next
  case (Suc n)
  have "\<forall>i < n. \<forall>j < n. dst + 1 + of_nat i \<noteq> src + 1 + of_nat j"
  proof (intro allI impI)
    fix i j assume "i < n" "j < n"
    with Suc.prems(2) have "dst + of_nat (Suc i) \<noteq> src + of_nat (Suc j)" by blast
    then show "dst + 1 + of_nat i \<noteq> src + 1 + of_nat j" by (simp add: add.assoc)
  qed
  with Suc.prems(1) Suc.IH have IH: "memcpy_loop n (dst + 1) (src + 1) m' a =
      (if unat (a - (dst + 1)) < n then m' (src + 1 + (a - (dst + 1))) else m' a)" for m'
    by simp
  have far: "src + (a - dst) \<noteq> dst" if "unat (a - dst) < Suc n"
  proof -
    have "dst + of_nat 0 \<noteq> src + of_nat (unat (a - dst))"
      using Suc.prems(2) that by blast
    then show ?thesis by auto
  qed
  have "unat (dst - (dst + 1)) = 4294967295"
    by (simp add: unsigned_minus_1_eq_mask mask_eq_exp_minus_1)
  with IH Suc.prems(1) far show ?case
    using offset_step [of a dst] offset_pos [of a dst] by (cases "a = dst") auto
qed

text \<open>Where \<open>memcmp\<close> finds no difference the blocks agree byte by byte.\<close>

lemma memcmp_loop_0_iff:
  "memcmp_loop n a b m = 0 \<longleftrightarrow> (\<forall>i < n. m (a + of_nat i) = m (b + of_nat i))"
proof (induction n arbitrary: a b)
  case 0
  then show ?case by simp
next
  case (Suc n)
  have "(\<forall>i < Suc n. m (a + of_nat i) = m (b + of_nat i)) \<longleftrightarrow>
      m a = m b \<and> (\<forall>i < n. m (a + 1 + of_nat i) = m (b + 1 + of_nat i))"
    by (simp add: All_less_Suc2 add.assoc)
  with Suc show ?case by (auto simp: not_less_iff_gr_or_eq sint_u8_eq_iff)
qed

section \<open>Terminated strings\<close>

fun is_cstr :: "(addr \<Rightarrow> u8) \<Rightarrow> addr \<Rightarrow> u8 list \<Rightarrow> bool" where
  "is_cstr m p [] \<longleftrightarrow> m p = 0"
| "is_cstr m p (c # cs) \<longleftrightarrow> m p = c \<and> c \<noteq> 0 \<and> is_cstr m (p + 1) cs"

lemma is_cstr_unique: "is_cstr m p cs \<Longrightarrow> is_cstr m p ds \<Longrightarrow> cs = ds"
proof (induction cs arbitrary: p ds)
  case Nil
  then show ?case by (cases ds) auto
next
  case (Cons c cs)
  then show ?case by (cases ds) auto
qed

lemma strlen_loop_correct:
  "is_cstr m p cs \<Longrightarrow> strlen_loop p m = Some (p + of_nat (length cs) + 1)"
  by (induction cs arbitrary: p) (simp_all add: strlen_loop.simps add.assoc)

lemma strchrs_loop_correct:
  "is_cstr m p cs \<Longrightarrow> strchrs_loop p ch cnt m = Some (cnt + of_nat (count_list cs ch))"
  by (induction cs arbitrary: p cnt) (auto simp: strchrs_loop.simps)

lemma strchr_loop_correct:
  "is_cstr m p cs \<Longrightarrow> strchr_loop p ch m =
     Some (if ch \<in> set cs then p + of_nat (length (takeWhile (\<lambda>c. c \<noteq> ch) cs)) else NULL)"
  by (induction cs arbitrary: p) (auto simp: strchr_loop.simps add.assoc)

text \<open>The specification of \<open>strcmp\<close>: the first difference decides, as signed characters.\<close>

fun cmp_signed :: "u8 list \<Rightarrow> u8 list \<Rightarrow> int" where
  "cmp_signed [] [] = 0"
| "cmp_signed [] (d # ds) = (if sint d > 0 then -1 else 1)"
| "cmp_signed (c # cs) [] = (if sint c > 0 then 1 else -1)"
| "cmp_signed (c # cs) (d # ds) =
     (if sint c < sint d then -1 else if sint c > sint d then 1 else cmp_signed cs ds)"

lemma cmp_signed_0_iff: "cmp_signed cs ds = 0 \<longleftrightarrow> cs = ds"
  by (induction cs ds rule: cmp_signed.induct) (auto simp: not_less_iff_gr_or_eq sint_u8_eq_iff)

lemma strcmp_loop_correct:
  assumes "is_cstr m a cs" and "is_cstr m b ds"
  shows "\<exists>a' b'. strcmp_loop a b m = Some (a', b') \<and>
    (if sint (m a') < sint (m b') then -1 else if sint (m a') > sint (m b') then 1 else 0)
      = cmp_signed cs ds"
  using assms
proof (induction cs ds arbitrary: a b rule: cmp_signed.induct)
  case (2 d ds)
  then have "sint d \<noteq> 0" by (auto simp: sint_u8_eq_0_iff)
  with 2 show ?case by (auto simp: strcmp_loop.simps)
next
  case (3 c cs)
  then have "sint c \<noteq> 0" by (auto simp: sint_u8_eq_0_iff)
  with 3 show ?case by (auto simp: strcmp_loop.simps)
qed (auto simp: strcmp_loop.simps sint_u8_eq_iff)

lemma is_cstr_nth:
  "is_cstr m p cs \<longleftrightarrow>
     (\<forall>i < length cs. m (p + of_nat i) = cs ! i \<and> cs ! i \<noteq> 0) \<and> m (p + of_nat (length cs)) = 0"
proof (induction cs arbitrary: p)
  case Nil
  then show ?case by simp
next
  case (Cons c cs)
  then show ?case by (auto simp: All_less_Suc2 add.assoc)
qed

lemma is_cstr_upd:
  "\<forall>i \<le> length cs. a \<noteq> p + of_nat i \<Longrightarrow> is_cstr (m(a := v)) p cs = is_cstr m p cs"
proof (induction cs arbitrary: p)
  case (Cons c cs)
  have "\<forall>i \<le> length cs. a \<noteq> p + 1 + of_nat i"
  proof (intro allI impI)
    fix i assume "i \<le> length cs"
    then show "a \<noteq> p + 1 + of_nat i"
      using Cons.prems [rule_format, of "Suc i"] by (simp add: add.assoc)
  qed
  moreover have "a \<noteq> p"
    using Cons.prems [rule_format, of 0] by simp
  ultimately show ?case using Cons.IH by simp
qed simp

lemma disjoint_step:
  assumes "\<forall>i < Suc n. \<forall>j \<le> Suc k. (dst :: u32) + of_nat i \<noteq> src + of_nat j"
  shows "\<forall>i < n. \<forall>j \<le> k. dst + 1 + of_nat i \<noteq> src + 1 + of_nat j"
proof (intro allI impI)
  fix i j assume "i < n" "j \<le> k"
  with assms have "dst + of_nat (Suc i) \<noteq> src + of_nat (Suc j)" by blast
  then show "dst + 1 + of_nat i \<noteq> src + 1 + of_nat j" by (simp add: add.assoc)
qed

lemma cstr_survives_first_store:
  assumes "\<forall>i < Suc n. \<forall>j \<le> Suc (length cs). (dst :: u32) + of_nat i \<noteq> src + of_nat j"
    and "is_cstr m (src + 1) cs"
  shows "is_cstr (m(dst := v)) (src + 1) cs"
proof -
  have "dst \<noteq> src + 1 + of_nat j" if "j \<le> length cs" for j
  proof -
    have "dst + of_nat 0 \<noteq> src + of_nat (Suc j)" using assms(1) that by blast
    then show ?thesis by (simp add: add.assoc)
  qed
  with assms(2) show ?thesis by (simp add: is_cstr_upd)
qed

text \<open>
  \<open>strcpy\<close> copies the characters and not the terminator; \<open>strcat\<close> copies the terminator too.
\<close>

lemma strcpy_loop_correct:
  assumes "is_cstr m src cs"
    and "\<forall>i < length cs. \<forall>j \<le> length cs. dst + of_nat i \<noteq> src + of_nat j"
  shows "strcpy_loop dst src m = Some (memcpy_loop (length cs) dst src m)"
  using assms
proof (induction cs arbitrary: dst src m)
  case Nil
  then show ?case by (simp add: strcpy_loop.simps)
next
  case (Cons c cs)
  have d: "\<forall>i < Suc (length cs). \<forall>j \<le> Suc (length cs). dst + of_nat i \<noteq> src + of_nat j"
    using Cons.prems(2) by simp
  have "is_cstr (m(dst := c)) (src + 1) cs"
    using Cons.prems(1) by (intro cstr_survives_first_store [OF d]) simp
  from this disjoint_step [OF d]
  have "strcpy_loop (dst + 1) (src + 1) (m(dst := c)) =
      Some (memcpy_loop (length cs) (dst + 1) (src + 1) (m(dst := c)))"
    by (rule Cons.IH)
  with Cons.prems(1) show ?case by (simp add: strcpy_loop.simps)
qed

lemma strcat_copy_correct:
  assumes "is_cstr m src cs"
    and "\<forall>i \<le> length cs. \<forall>j \<le> length cs. dst + of_nat i \<noteq> src + of_nat j"
  shows "strcat_copy dst src m = Some (memcpy_loop (Suc (length cs)) dst src m)"
  using assms
proof (induction cs arbitrary: dst src m)
  case Nil
  then show ?case by (simp add: strcat_copy.simps fun_upd_def)
next
  case (Cons c cs)
  have d: "\<forall>i < Suc (Suc (length cs)). \<forall>j \<le> Suc (length cs). dst + of_nat i \<noteq> src + of_nat j"
    using Cons.prems(2) by (simp add: less_Suc_eq_le)
  have "is_cstr (m(dst := c)) (src + 1) cs"
    using Cons.prems(1) by (intro cstr_survives_first_store [OF d]) simp
  from this disjoint_step [OF d, unfolded less_Suc_eq_le]
  have "strcat_copy (dst + 1) (src + 1) (m(dst := c)) =
      Some (memcpy_loop (Suc (length cs)) (dst + 1) (src + 1) (m(dst := c)))"
    by (rule Cons.IH)
  with Cons.prems(1) show ?case by (subst strcat_copy.simps) (simp add: Let_def)
qed

text \<open>
  What \<open>strrchr\<close> computes: the last occurrence of the character in all the memory from \<open>str\<close> to
  the top of the address space, whether or not it belongs to the string.
\<close>

lemma strrchr_loop_0: "strrchr_loop 0 ch last_char m = last_char"
  by (simp add: strrchr_loop.simps)

lemma strrchr_loop_none:
  "\<forall>a. unat str \<le> unat a \<longrightarrow> m a \<noteq> ch \<Longrightarrow> strrchr_loop str ch last_char m = last_char"
proof (induction str ch last_char m rule: strrchr_loop.induct)
  case (1 str ch last_char m)
  have "strrchr_loop (str + 1) ch last_char m = last_char" if "str \<noteq> 0"
  proof (cases "str + 1 = 0")
    case True
    then show ?thesis by (simp add: strrchr_loop_0)
  next
    case False
    then show ?thesis
      using "1.IH" that "1.prems" by (simp add: unat_Suc_u32)
  qed
  then show ?case
    using "1.prems" by (subst strrchr_loop.simps) simp
qed

lemma strrchr_loop_last:
  assumes "str \<noteq> 0" and "unat str \<le> unat p" and "m p = ch" and "\<forall>a. unat p < unat a \<longrightarrow> m a \<noteq> ch"
  shows "strrchr_loop str ch last_char m = p"
  using assms
proof (induction str ch last_char m rule: strrchr_loop.induct)
  case (1 str ch last_char m)
  let ?last = "if m str = ch then str else last_char"
  have "strrchr_loop (str + 1) ch ?last m = p"
  proof (cases "str + 1 = 0")
    case True
    then have "unat (str + 1) = 0" by simp
    then have "unat str = 2 ^ 32 - 1"
      using unat_add_u32 [of str 1] unat_less_2p32 [of str]
      by (cases "unat str + 1 < 4294967296") simp_all
    then have "p = str"
      using "1.prems"(2) unat_less_2p32 [of p] by (simp add: word_unat_eq_iff)
    with True "1.prems" show ?thesis by (simp add: strrchr_loop_0)
  next
    case False
    note u = unat_Suc_u32 [OF False]
    show ?thesis
    proof (cases "p = str")
      case True
      have "strrchr_loop (str + 1) ch ?last m = ?last"
        using "1.prems"(4) True by (intro strrchr_loop_none) (simp add: u)
      with True "1.prems"(3) show ?thesis by simp
    next
      case neq: False
      then have "unat str + 1 \<le> unat p"
        using "1.prems"(2) by (simp add: word_unat_eq_iff)
      then show ?thesis
        using "1.IH" "1.prems" False by (simp add: u)
    qed
  qed
  with "1.prems"(1) show ?case
    by (subst strrchr_loop.simps) simp
qed

section \<open>Properties\<close>

definition bytemem0 :: "(addr \<Rightarrow> u8) \<Rightarrow> bytemem" where
  "bytemem0 m = machine.extend machine0 (bytemem.fields m)"

lemma mem_bytemem0 [simp]: "mem (bytemem0 m) = m"
  by (simp add: bytemem0_def machine.extend_def bytemem.fields_def)

text \<open>
  C35: \<open>strcat\<close> of two terminated strings that do not overlap terminates and leaves the
  concatenation, terminated, at the destination.
\<close>

theorem strcat_concatenates:
  assumes "dst \<noteq> NULL" "src \<noteq> NULL" "is_cstr (mem s) dst ds" "is_cstr (mem s) src cs"
    and "length ds + length cs < 2 ^ 32"
    and disj: "\<forall>i \<le> length ds + length cs. \<forall>j \<le> length cs. dst + of_nat i \<noteq> src + of_nat j"
  shows "\<exists>m. strcat dst src s = Inr (dst, s\<lparr>mem := m\<rparr>) \<and> is_cstr m dst (ds @ cs)"
proof -
  let ?d = "dst + of_nat (length ds)"
  let ?m = "memcpy_loop (Suc (length cs)) ?d src (mem s)"
  have d: "\<forall>i \<le> length cs. \<forall>j \<le> length cs. ?d + of_nat i \<noteq> src + of_nat j"
  proof (intro allI impI)
    fix i j assume "i \<le> length cs" "j \<le> length cs"
    then show "?d + of_nat i \<noteq> src + of_nat j"
      using disj [rule_format, of "length ds + i" j] by (simp add: add.assoc)
  qed
  have m: "?m a = (if unat (a - ?d) < Suc (length cs) then mem s (src + (a - ?d)) else mem s a)" for a
    using d assms(5) by (intro memcpy_loop_apply) (auto simp: less_Suc_eq_le)
  have off: "unat (of_nat k :: u32) = k" if "k \<le> length ds + length cs" for k
    using that assms(5) by (simp add: unsigned_of_nat take_bit_nat_eq_self)
  have old: "?m (dst + of_nat i) = mem s (dst + of_nat i)" if "i < length ds" for i
  proof -
    have "dst + of_nat i - ?d = of_nat i - of_nat (length ds)"
      by simp
    moreover have "unat (of_nat i - of_nat (length ds) :: u32) = 2 ^ 32 - (length ds - i)"
      using that assms(5) off [of i] off [of "length ds"] by (simp add: unat_sub_if')
    ultimately have "\<not> unat (dst + of_nat i - ?d) < Suc (length cs)"
      using that assms(5) by simp
    then show ?thesis
      using m [of "dst + of_nat i"] by (simp only: if_False)
  qed
  have new: "?m (?d + of_nat i) = mem s (src + of_nat i)" if "i \<le> length cs" for i
    using m [of "?d + of_nat i"] that off [of i] by simp
  have "?m (dst + of_nat i) = (ds @ cs) ! i \<and> (ds @ cs) ! i \<noteq> 0" if "i < length (ds @ cs)" for i
  proof (cases "i < length ds")
    case True
    with assms(3) old [of i] show ?thesis by (simp add: is_cstr_nth nth_append)
  next
    case False
    define k where "k = i - length ds"
    have "i = length ds + k" "k < length cs"
      using False that by (simp_all add: k_def)
    with assms(4) new [of k] show ?thesis by (simp add: is_cstr_nth nth_append add.assoc)
  qed
  moreover have "?m (dst + of_nat (length (ds @ cs))) = 0"
    using assms(4) new [of "length cs"] by (simp add: is_cstr_nth add.assoc)
  ultimately have "is_cstr ?m dst (ds @ cs)"
    unfolding is_cstr_nth by blast
  moreover have "strcat dst src s = Inr (dst, s\<lparr>mem := ?m\<rparr>)"
    using assms(1,2,3) strcat_copy_correct [OF assms(4) d]
    by (simp add: strcat_def strlen_loop_correct)
  ultimately show ?thesis by blast
qed

theorem strcat_concatenates_witness:
  "\<exists>m. strcat 100 200 (bytemem0 ((\<lambda>_. 0)(100 := 0x61, 200 := 0x62))) =
      Inr (100, (bytemem0 ((\<lambda>_. 0)(100 := 0x61, 200 := 0x62)))\<lparr>mem := m\<rparr>) \<and> is_cstr m 100 [0x61, 0x62]"
proof -
  have "\<forall>i \<le> length [0x61 :: u8] + length [0x62 :: u8]. \<forall>j \<le> length [0x62 :: u8].
      (100 :: u32) + of_nat i \<noteq> 200 + of_nat j"
    by (auto simp: le_Suc_eq)
  then show ?thesis
    using strcat_concatenates [of 100 200 "bytemem0 ((\<lambda>_. 0)(100 := 0x61, 200 := 0x62))" "[0x61]" "[0x62]"]
    by simp
qed

text \<open>
  \<open>strcmp\<close> on terminated strings terminates; its result is that of the first differing
  characters compared as signed numbers, and it is 0 exactly for equal strings.
\<close>

theorem strcmp_compares:
  assumes "a \<noteq> NULL" "b \<noteq> NULL" "is_cstr (mem s) a cs" "is_cstr (mem s) b ds"
  shows "strcmp a b s = Inr (cmp_signed cs ds) \<and> (strcmp a b s = Inr 0 \<longleftrightarrow> cs = ds)"
proof (intro conjI)
  show "strcmp a b s = Inr (cmp_signed cs ds)"
    using assms(1,2) strcmp_loop_correct [OF assms(3,4)] by (auto simp: strcmp_def)
  then show "strcmp a b s = Inr 0 \<longleftrightarrow> cs = ds"
    by (simp add: cmp_signed_0_iff)
qed

theorem strcmp_compares_witness:
  "strcmp 100 200 (bytemem0 ((\<lambda>_. 0)(100 := 0x61, 200 := 0x80))) = Inr 1"
  using strcmp_compares [of 100 200 "bytemem0 ((\<lambda>_. 0)(100 := 0x61, 200 := 0x80))" "[0x61]" "[0x80]"]
  by simp

text \<open>
  \<open>strcpy\<close> copies the characters of a terminated string but not its terminator: the byte
  after the copy, and every byte outside the copy, keeps its value.
\<close>

theorem strcpy_omits_terminator:
  assumes "dst \<noteq> NULL" "src \<noteq> NULL" "is_cstr (mem s) src cs" "length cs < 2 ^ 32"
    and "\<forall>i < length cs. \<forall>j \<le> length cs. dst + of_nat i \<noteq> src + of_nat j"
  shows "\<exists>m. strcpy dst src s = Inr (dst, s\<lparr>mem := m\<rparr>) \<and>
    (\<forall>i < length cs. m (dst + of_nat i) = cs ! i) \<and>
    (\<forall>a. length cs \<le> unat (a - dst) \<longrightarrow> m a = mem s a)"
proof -
  let ?m = "memcpy_loop (length cs) dst src (mem s)"
  have m: "?m a = (if unat (a - dst) < length cs then mem s (src + (a - dst)) else mem s a)" for a
    using assms(4,5) by (intro memcpy_loop_apply) auto
  have "?m (dst + of_nat i) = cs ! i" if "i < length cs" for i
    using that assms(3,4) m [of "dst + of_nat i"]
    by (simp add: is_cstr_nth unat_of_nat_u32)
  moreover have "strcpy dst src s = Inr (dst, s\<lparr>mem := ?m\<rparr>)"
    using assms(1,2) strcpy_loop_correct [OF assms(3,5)] by (simp add: strcpy_def)
  ultimately show ?thesis
    using m by auto
qed

theorem strcpy_omits_terminator_witness:
  "\<exists>s'. strcpy 100 200 (bytemem0 ((\<lambda>_. 0xff)(200 := 0x61, 201 := 0))) = Inr (100, s') \<and>
     mem s' 100 = 0x61 \<and> mem s' 101 = 0xff"
proof -
  let ?s = "bytemem0 ((\<lambda>_. 0xff)(200 := 0x61, 201 := 0))"
  have "\<exists>m. strcpy 100 200 ?s = Inr (100, ?s\<lparr>mem := m\<rparr>) \<and>
      (\<forall>i < length [0x61 :: u8]. m (100 + of_nat i) = [0x61] ! i) \<and>
      (\<forall>a. length [0x61 :: u8] \<le> unat (a - 100) \<longrightarrow> m a = mem ?s a)"
    by (rule strcpy_omits_terminator) (auto simp: le_Suc_eq)
  then obtain m where m: "strcpy 100 200 ?s = Inr (100, ?s\<lparr>mem := m\<rparr>)" "m 100 = 0x61"
      "\<forall>a. 1 \<le> unat (a - 100) \<longrightarrow> m a = mem ?s a"
    by auto
  from m(3) [rule_format, of 101] have "m 101 = 0xff" by simp
  with m(1,2) show ?thesis by auto
qed

text \<open>
  \<open>strrchr\<close> does not stop at the end of the string: it returns the last occurrence of the
  character between \<open>str\<close> and the top of the address space, also when that lies behind the string.
\<close>

theorem strrchr_ignores_end:
  assumes "str \<noteq> NULL" "unat str \<le> unat p" "mem s p = ch" "\<forall>a. unat p < unat a \<longrightarrow> mem s a \<noteq> ch"
  shows "strrchr str ch s = Inr p"
  using assms strrchr_loop_last [of str p "mem s" ch NULL] by (simp add: strrchr_def)

theorem strrchr_ignores_end_witness:
  "is_cstr (mem (bytemem0 ((\<lambda>_. 0)(100 := 0x62, 300 := 0x61)))) 100 [0x62] \<and>
   strrchr 100 0x61 (bytemem0 ((\<lambda>_. 0)(100 := 0x62, 300 := 0x61))) = Inr 300"
  using strrchr_ignores_end [of 100 300 "bytemem0 ((\<lambda>_. 0)(100 := 0x62, 300 := 0x61))" "0x61"]
  by auto

end
