(* ===== verification/Bitmap.thy ===== *)
theory Bitmap
  imports Cstring
begin

text \<open>
  lib/kernel/bitmap.c: the bitmap over a byte memory, its scan for a run of free bits and the
  setting of one bit. The main lemma says that the byte-wise scan with its shortcut for full bytes
  returns the first fit: the least position at which \<open>cnt\<close> consecutive bits are free.
\<close>

section \<open>State\<close>

record bitmap =
  btmp_bytes_len :: u32
  bits :: addr

section \<open>Operations\<close>

text \<open>A pointer that the code compares with \<open>NULL\<close> is an optional bitmap.\<close>

definition bitmap_init :: "bitmap option \<Rightarrow> 'a bytemem_scheme \<Rightarrow> err + 'a bytemem_scheme" where
  "bitmap_init btmp s =
     (case btmp of
        None \<Rightarrow> PANIC ''lib/kernel/bitmap.c'' 7 ''bitmap_init'' ''btmp != NULL''
      | Some b \<Rightarrow> memset (bits b) 0 (btmp_bytes_len b) s)"

definition bitmap_scan_test :: "bitmap \<Rightarrow> u32 \<Rightarrow> 'a bytemem_scheme \<Rightarrow> u32" where
  "bitmap_scan_test btmp bit_idx s =
     (let byte_idx = bit_idx div 8; bit_offset = bit_idx mod 8
      in ucast (mem s (bits btmp + byte_idx)) AND push_bit (unat bit_offset) 1)"

text \<open>
  The inner loop of \<open>bitmap_scan\<close> over the bits of one byte: \<open>Inl r\<close> is \<open>return r\<close>, \<open>Inr u\<close>
  the value of \<open>unused_cnt\<close> after the loop.
\<close>

function scan_bits :: "u32 \<Rightarrow> u32 \<Rightarrow> u8 \<Rightarrow> u8 \<Rightarrow> u32 \<Rightarrow> u32 + u32" where
  "scan_bits byte_index cnt bits_index byte_temp unused_cnt =
     (if bits_index < 8 then
        if byte_temp AND 0x01 \<noteq> 0 then
          scan_bits byte_index cnt (bits_index + 1) (drop_bit 1 byte_temp) 0
        else if unused_cnt + 1 = cnt then
          Inl (byte_index * 8 + ucast bits_index - cnt + 1)
        else
          scan_bits byte_index cnt (bits_index + 1) (drop_bit 1 byte_temp) (unused_cnt + 1)
      else Inr unused_cnt)"
  by pat_completeness auto

termination
  by (relation "measure (\<lambda>(byte_index, cnt, bits_index, byte_temp, unused_cnt). 8 - unat bits_index)")
     (auto simp: unat_Suc_u8 word_less_nat_alt)

declare scan_bits.simps [simp del]

function scan_bytes :: "(addr \<Rightarrow> u8) \<Rightarrow> bitmap \<Rightarrow> u32 \<Rightarrow> u32 \<Rightarrow> u32 \<Rightarrow> u32" where
  "scan_bytes m btmp cnt byte_index unused_cnt =
     (if byte_index < btmp_bytes_len btmp then
        if m (bits btmp + byte_index) \<noteq> 0xff then
          (case scan_bits byte_index cnt 0 (m (bits btmp + byte_index)) unused_cnt of
             Inl r \<Rightarrow> r
           | Inr unused_cnt \<Rightarrow> scan_bytes m btmp cnt (byte_index + 1) unused_cnt)
        else scan_bytes m btmp cnt (byte_index + 1) 0
      else - 1)"
  by pat_completeness auto
termination
  by (relation "measure (\<lambda>(m, btmp, cnt, byte_index, unused_cnt).
        unat (btmp_bytes_len btmp) - unat byte_index)")
     (auto simp: word_less_nat_alt intro: unat_measure_step)

declare scan_bytes.simps [simp del]

definition bitmap_scan :: "bitmap option \<Rightarrow> u32 \<Rightarrow> 'a bytemem_scheme \<Rightarrow> err + u32" where
  "bitmap_scan btmp cnt s =
     (case btmp of
        None \<Rightarrow> PANIC ''lib/kernel/bitmap.c'' 21 ''bitmap_scan'' ''btmp != NULL''
      | Some b \<Rightarrow> Inr (scan_bytes (mem s) b cnt 0 0))"

definition bitmap_set :: "bitmap \<Rightarrow> u32 \<Rightarrow> u8 \<Rightarrow> 'a bytemem_scheme \<Rightarrow> err + 'a bytemem_scheme" where
  "bitmap_set btmp bit_idx val s =
     ASSERT (val = 0 \<or> val = 1) ''lib/kernel/bitmap.c'' 58 ''bitmap_set'' ''val == 0 || val == 1''
       (let byte_idx = bit_idx div 8
        in ASSERT (byte_idx < btmp_bytes_len btmp) ''lib/kernel/bitmap.c'' 60 ''bitmap_set''
             ''byte_idx < btmp->btmp_bytes_len''
             (let bit_offset = unat (bit_idx mod 8);
                  a = bits btmp + byte_idx
              in Inr (s\<lparr>mem := (mem s)(a :=
                   (if val \<noteq> 0 then mem s a OR push_bit bit_offset 0x01
                    else mem s a AND NOT (push_bit bit_offset 0x01)))\<rparr>)))"

section \<open>The bits of a bitmap\<close>

definition bm_bits :: "bitmap \<Rightarrow> nat" where
  "bm_bits b = 8 * unat (btmp_bytes_len b)"

definition bm_used :: "(addr \<Rightarrow> u8) \<Rightarrow> bitmap \<Rightarrow> nat \<Rightarrow> bool" where
  "bm_used m b i \<longleftrightarrow> bit (m (bits b + of_nat (i div 8))) (i mod 8)"

text \<open>
  \<open>bitmap_scan\<close> returns an index as an \<open>int\<close>, with \<open>-1\<close> for none: the number of bits has to fit.
\<close>

definition bm_wf :: "bitmap \<Rightarrow> bool" where
  "bm_wf b \<longleftrightarrow> bm_bits b < 2 ^ 31"

section \<open>The reference: first fit\<close>

definition fits :: "(nat \<Rightarrow> bool) \<Rightarrow> nat \<Rightarrow> nat \<Rightarrow> bool" where
  "fits free cnt k \<longleftrightarrow> (\<forall>j < cnt. free (k + j))"

definition first_fit :: "(nat \<Rightarrow> bool) \<Rightarrow> nat \<Rightarrow> nat \<Rightarrow> nat option" where
  "first_fit free n cnt = find (fits free cnt) [0..<n + 1 - cnt]"

lemma first_fit_Some:
  "first_fit free n cnt = Some k \<Longrightarrow>
     k + cnt \<le> n \<and> fits free cnt k \<and> (\<forall>k' < k. \<not> fits free cnt k')"
  by (auto simp: first_fit_def find_Some_iff)

lemma first_fit_None:
  "first_fit free n cnt = None \<longleftrightarrow> (\<forall>k. k + cnt \<le> n \<longrightarrow> \<not> fits free cnt k)"
  by (auto simp: first_fit_def find_None_iff)

text \<open>
  The scan bit by bit, with the length \<open>u\<close> of the free run before position \<open>i\<close>: \<open>Inl k\<close> is a
  run found at \<open>k\<close>, \<open>Inr u\<close> the run at the end.
\<close>

function scan_run :: "(nat \<Rightarrow> bool) \<Rightarrow> nat \<Rightarrow> nat \<Rightarrow> nat \<Rightarrow> nat \<Rightarrow> nat + nat" where
  "scan_run free cnt n i u =
     (if i < n then
        if free i then (if u + 1 = cnt then Inl (i + 1 - cnt) else scan_run free cnt n (i + 1) (u + 1))
        else scan_run free cnt n (i + 1) 0
      else Inr u)"
  by pat_completeness auto
termination
  by (relation "measure (\<lambda>(free, cnt, n, i, u). n - i)") auto

declare scan_run.simps [simp del]

lemma scan_run_end: "n \<le> i \<Longrightarrow> scan_run free cnt n i u = Inr u"
  by (simp add: scan_run.simps)

lemma scan_run_split:
  "i \<le> m \<Longrightarrow> m \<le> n \<Longrightarrow> scan_run free cnt n i u =
     (case scan_run free cnt m i u of Inl k \<Rightarrow> Inl k | Inr u' \<Rightarrow> scan_run free cnt n m u')"
proof (induction free cnt m i u rule: scan_run.induct)
  case (1 free cnt m i u)
  show ?case
  proof (cases "i = m")
    case True
    then show ?thesis by (simp add: scan_run_end)
  next
    case False
    with 1 show ?thesis by (simp add: scan_run.simps [of _ _ _ i])
  qed
qed

lemma scan_run_bound: "scan_run free cnt n i u = Inr u' \<Longrightarrow> u' \<le> u + (n - i)"
proof (induction free cnt n i u rule: scan_run.induct)
  case (1 free cnt n i u)
  then show ?case
    by (cases "i < n"; cases "free i"; cases "u + 1 = cnt")
       (auto simp: scan_run.simps [of _ _ _ i])
qed

lemma scan_run_full:
  "(\<And>j. i \<le> j \<Longrightarrow> j < n \<Longrightarrow> \<not> free j) \<Longrightarrow> i < n \<Longrightarrow> scan_run free cnt n i u = Inr 0"
proof (induction free cnt n i u rule: scan_run.induct)
  case (1 free cnt n i u)
  then show ?case
    by (cases "i + 1 < n") (simp_all add: scan_run.simps [of _ _ _ i] scan_run.simps [of _ _ _ "Suc i"])
qed

lemma scan_run_Inr_less:
  "u < cnt \<Longrightarrow> scan_run free cnt n i u = Inr u' \<Longrightarrow> u' < cnt"
proof (induction free cnt n i u rule: scan_run.induct)
  case (1 free cnt n i u)
  then show ?case
    by (cases "i < n"; cases "free i"; cases "u + 1 = cnt")
       (auto simp: scan_run.simps [of _ _ _ i])
qed

lemma find_upt_skip:
  "a \<le> b \<Longrightarrow> (\<And>k. a \<le> k \<Longrightarrow> k < b \<Longrightarrow> \<not> P k) \<Longrightarrow> find P [a..<c] = find P [b..<c]"
proof (induction "b - a" arbitrary: a)
  case 0
  then show ?case by simp
next
  case (Suc d)
  then have "find P [Suc a..<c] = find P [b..<c]" by simp
  moreover have "\<not> P a" using Suc by simp
  ultimately show ?case by (cases "a < c") (simp_all add: upt_rec)
qed

text \<open>The bit-wise scan computes the first fit.\<close>

lemma scan_run_first_fit:
  assumes "u < cnt" "u \<le> i" "i \<le> n" "\<forall>j. i - u \<le> j \<and> j < i \<longrightarrow> free j"
  shows "(case scan_run free cnt n i u of Inl k \<Rightarrow> Some k | Inr _ \<Rightarrow> None) =
    find (fits free cnt) [i - u..<n + 1 - cnt]"
  using assms
proof (induction free cnt n i u rule: scan_run.induct)
  case (1 free cnt n i u)
  consider (stop) "i = n" | (found) "i < n" "free i" "u + 1 = cnt"
    | (longer) "i < n" "free i" "u + 1 \<noteq> cnt" | (used) "i < n" "\<not> free i"
    using "1.prems"(3) by linarith
  then show ?case
  proof cases
    case stop
    with "1.prems" show ?thesis by (simp add: scan_run_end)
  next
    case found
    have "free (i - u + j)" if "j < cnt" for j
    proof (cases "j = u")
      case False
      then have "i - u \<le> i - u + j \<and> i - u + j < i"
        using that found "1.prems"(2) by linarith
      then show ?thesis using "1.prems"(4) by blast
    qed (use found "1.prems" in simp)
    then have "fits free cnt (i - u)"
      by (simp add: fits_def)
    with found "1.prems" show ?thesis
      by (auto simp: scan_run.simps [of _ _ _ i] upt_rec [of "i - u"])
  next
    case longer
    have "\<forall>j. (i + 1) - (u + 1) \<le> j \<and> j < i + 1 \<longrightarrow> free j"
      using longer "1.prems"(4) by (auto simp: less_Suc_eq)
    with longer "1.prems" "1.IH"(1) show ?thesis
      by (simp add: scan_run.simps [of _ _ _ i])
  next
    case used
    have "\<not> fits free cnt k" if "i - u \<le> k" "k < i + 1" for k
    proof -
      have "i = k + (i - k)" "i - k < cnt" using that "1.prems" by auto
      with used(2) show ?thesis unfolding fits_def by metis
    qed
    then have "find (fits free cnt) [i - u..<n + 1 - cnt] = find (fits free cnt) [i + 1..<n + 1 - cnt]"
      by (intro find_upt_skip) auto
    with used "1.prems" "1.IH"(2) show ?thesis
      by (simp add: scan_run.simps [of _ _ _ i])
  qed
qed

section \<open>The byte-wise scan computes the first fit\<close>

lemma low_bit_drop: "(drop_bit j (x :: u8)) AND 1 \<noteq> 0 \<longleftrightarrow> bit x j"
  by (simp add: and_one_eq bit_iff_odd_drop_bit odd_iff_mod_2_eq_one)

lemma run_found_index:
  assumes "u \<le> 8 * B + j" and "u + 1 = unat cnt" and "j < 8"
  shows "of_nat B * 8 + ucast (of_nat j :: u8) - cnt + 1 = (of_nat (8 * B + j + 1 - unat cnt) :: u32)"
proof -
  have "(ucast (of_nat j :: u8) :: u32) = of_nat j"
    using assms(3) by (simp add: word_unat_eq_iff unsigned_ucast_eq unsigned_of_nat take_bit_nat_eq_self)
  moreover have "(of_nat (8 * B + j + 1 - unat cnt) :: u32) = of_nat (8 * B + j + 1) - of_nat (unat cnt)"
    using assms by (intro of_nat_diff) simp
  ultimately show ?thesis by (simp add: algebra_simps)
qed

lemma scan_bits_run:
  assumes "j \<le> 8" "u \<le> 8 * B + j" "8 * B + 8 < 2 ^ 32" "byte = m (bits b + of_nat B)"
  shows "scan_bits (of_nat B) cnt (of_nat j) (drop_bit j byte) (of_nat u) =
    (case scan_run (\<lambda>i. \<not> bm_used m b i) (unat cnt) (8 * B + 8) (8 * B + j) u of
       Inl k \<Rightarrow> Inl (of_nat k) | Inr u' \<Rightarrow> Inr (of_nat u'))"
  using assms
proof (induction "8 - j" arbitrary: j u)
  case 0
  then show ?case
    by (subst scan_bits.simps) (simp add: scan_run_end)
next
  case (Suc d)
  then have j: "j < 8" by simp
  have lt: "(of_nat j :: u8) < 8"
    using j by (simp add: word_less_nat_alt unsigned_of_nat take_bit_nat_eq_self)
  have used: "bm_used m b (8 * B + j) \<longleftrightarrow> bit byte j"
    using j Suc.prems(4) by (simp add: bm_used_def)
  have d: "drop_bit 1 (drop_bit j byte) = drop_bit (j + 1) byte"
    by (simp only: drop_bit_drop_bit add.commute)
  have j1: "(of_nat j :: u8) + 1 = of_nat (j + 1)" "8 * B + j + 1 = 8 * B + (j + 1)"
    by simp_all
  have u1: "(of_nat u :: u32) + 1 = of_nat (u + 1)" by simp
  have eq: "of_nat u + 1 = cnt \<longleftrightarrow> u + 1 = unat cnt"
    unfolding u1 using Suc.prems j by (intro of_nat_u32_eq_iff) simp
  let ?F = "\<lambda>i. \<not> bm_used m b i"
  let ?to = "case_sum (\<lambda>k. Inl (of_nat k)) (\<lambda>u'. Inr (of_nat u')) :: nat + nat \<Rightarrow> u32 + u32"
  have IH: "scan_bits (of_nat B) cnt (of_nat j + 1) (drop_bit 1 (drop_bit j byte)) (of_nat v) =
      ?to (scan_run ?F (unat cnt) (8 * B + 8) (8 * B + j + 1) v)" if "v \<le> 8 * B + j + 1" for v
    unfolding j1 d using that Suc.prems Suc.hyps(2) by (intro Suc.hyps(1)) auto
  have bits_step: "scan_bits (of_nat B) cnt (of_nat j) (drop_bit j byte) (of_nat u) =
      (if bit byte j then scan_bits (of_nat B) cnt (of_nat j + 1) (drop_bit 1 (drop_bit j byte)) 0
       else if u + 1 = unat cnt then Inl (of_nat B * 8 + ucast (of_nat j :: u8) - cnt + 1)
       else scan_bits (of_nat B) cnt (of_nat j + 1) (drop_bit 1 (drop_bit j byte)) (of_nat u + 1))"
    by (subst scan_bits.simps) (simp only: lt low_bit_drop eq if_True)
  have run_step: "scan_run ?F (unat cnt) (8 * B + 8) (8 * B + j) u =
      (if bit byte j then scan_run ?F (unat cnt) (8 * B + 8) (8 * B + j + 1) 0
       else if u + 1 = unat cnt then Inl (8 * B + j + 1 - unat cnt)
       else scan_run ?F (unat cnt) (8 * B + 8) (8 * B + j + 1) (u + 1))"
    using j by (subst scan_run.simps) (simp add: used)
  show ?case
    unfolding bits_step run_step
    using IH [of 0] IH [of "u + 1"] Suc.prems run_found_index [of u B j cnt] j
    by (simp only: if_split u1 [symmetric]) auto
qed

lemma bit_0xff: "i < 8 \<Longrightarrow> bit (0xff :: u8) i"
proof -
  assume "i < 8"
  moreover have "(0xff :: u8) = mask 8" by (simp add: mask_eq_exp_minus_1)
  ultimately show ?thesis by (simp only: bit_mask_iff) simp
qed

lemma scan_run_0xff:
  assumes "m (bits b + of_nat B) = 0xff"
  shows "scan_run (\<lambda>i. \<not> bm_used m b i) cnt (8 * B + 8) (8 * B) u = Inr 0"
proof (rule scan_run_full)
  fix j assume "8 * B \<le> j" "j < 8 * B + 8"
  then have "j div 8 = B" "j mod 8 < 8" by auto
  with assms bit_0xff [of "j mod 8"] show "\<not> \<not> bm_used m b j"
    by (simp only: bm_used_def) simp
qed simp

lemma scan_bytes_run:
  assumes "B \<le> unat (btmp_bytes_len b)" "u \<le> 8 * B" "bm_wf b"
  shows "scan_bytes m b cnt (of_nat B) (of_nat u) =
    (case scan_run (\<lambda>i. \<not> bm_used m b i) (unat cnt) (bm_bits b) (8 * B) u of
       Inl k \<Rightarrow> of_nat k | Inr _ \<Rightarrow> - 1)"
  using assms
proof (induction "unat (btmp_bytes_len b) - B" arbitrary: B u)
  case 0
  then have "\<not> (of_nat B :: u32) < btmp_bytes_len b"
    using unat_less_2p32 [of "btmp_bytes_len b"] by (simp add: word_less_nat_alt unat_of_nat_u32)
  with 0 show ?case
    by (subst scan_bytes.simps) (simp add: scan_run_end bm_bits_def)
next
  case (Suc d)
  let ?F = "\<lambda>i. \<not> bm_used m b i"
  let ?byte = "m (bits b + of_nat B)"
  have B: "B < unat (btmp_bytes_len b)" using Suc.hyps(2) by simp
  then have lt: "(of_nat B :: u32) < btmp_bytes_len b"
    using unat_less_2p32 [of "btmp_bytes_len b"] by (simp add: word_less_nat_alt unat_of_nat_u32)
  have lim: "8 * B + 8 < 2 ^ 32"
    using B Suc.prems(3) by (simp add: bm_wf_def bm_bits_def)
  have B1: "(of_nat B :: u32) + 1 = of_nat (B + 1)" by simp
  have IH: "scan_bytes m b cnt (of_nat B + 1) (of_nat v) =
      (case scan_run ?F (unat cnt) (bm_bits b) (8 * B + 8) v of Inl k \<Rightarrow> of_nat k | Inr _ \<Rightarrow> - 1)"
    if "v \<le> 8 * B + 8" for v
    unfolding B1 using that Suc.prems Suc.hyps(2) Suc.hyps(1) [of "B + 1" v] B by (simp add: add.commute)
  have inner: "scan_bits (of_nat B) cnt 0 ?byte (of_nat u) =
      (case scan_run ?F (unat cnt) (8 * B + 8) (8 * B) u of
         Inl k \<Rightarrow> Inl (of_nat k) | Inr u' \<Rightarrow> Inr (of_nat u'))"
    using scan_bits_run [of 0 u B ?byte m b cnt] Suc.prems(2) lim by simp
  have split: "scan_run ?F (unat cnt) (bm_bits b) (8 * B) u =
      (case scan_run ?F (unat cnt) (8 * B + 8) (8 * B) u of
         Inl k \<Rightarrow> Inl k | Inr u' \<Rightarrow> scan_run ?F (unat cnt) (bm_bits b) (8 * B + 8) u')"
    using B by (intro scan_run_split) (simp_all add: bm_bits_def)
  show ?case
  proof (cases "?byte = 0xff")
    case True
    with lt split IH [of 0] scan_run_0xff [of m b B] show ?thesis
      by (subst scan_bytes.simps) simp
  next
    case False
    show ?thesis
    proof (cases "scan_run ?F (unat cnt) (8 * B + 8) (8 * B) u")
      case (Inl k)
      with False lt split inner show ?thesis by (subst scan_bytes.simps) simp
    next
      case (Inr u')
      with scan_run_bound [OF Inr] Suc.prems(2) have "u' \<le> 8 * B + 8" by simp
      with Inr False lt split inner IH [of u'] show ?thesis by (subst scan_bytes.simps) simp
    qed
  qed
qed

lemma scan_run_zero_count: "\<exists>u'. scan_run free 0 n i u = Inr u'"
proof (induction free "0 :: nat" n i u rule: scan_run.induct)
  case (1 free n i u)
  then show ?case by (auto simp: scan_run.simps [of _ _ _ i])
qed

theorem bitmap_scan_first_fit:
  assumes "bm_wf b" and "cnt \<noteq> 0"
  shows "bitmap_scan (Some b) cnt s =
    Inr (case first_fit (\<lambda>i. \<not> bm_used (mem s) b i) (bm_bits b) (unat cnt) of
           Some k \<Rightarrow> of_nat k | None \<Rightarrow> - 1)"
proof -
  let ?F = "\<lambda>i. \<not> bm_used (mem s) b i"
  have "0 < unat cnt" using assms(2) by (simp add: unat_gt_0)
  then have "(case scan_run ?F (unat cnt) (bm_bits b) 0 0 of Inl k \<Rightarrow> Some k | Inr _ \<Rightarrow> None) =
      first_fit ?F (bm_bits b) (unat cnt)"
    using scan_run_first_fit [of 0 "unat cnt" 0 "bm_bits b" ?F] by (simp add: first_fit_def)
  then have "(case scan_run ?F (unat cnt) (bm_bits b) 0 0 of Inl k \<Rightarrow> of_nat k | Inr _ \<Rightarrow> (- 1 :: u32)) =
      (case first_fit ?F (bm_bits b) (unat cnt) of Some k \<Rightarrow> of_nat k | None \<Rightarrow> - 1)"
    by (auto split: sum.splits option.splits)
  then show ?thesis
    using scan_bytes_run [of 0 b 0 "mem s" cnt] assms(1) by (simp add: bitmap_scan_def)
qed

lemma bitmap_scan_zero: "bm_wf b \<Longrightarrow> bitmap_scan (Some b) 0 s = Inr (- 1)"
  using scan_bytes_run [of 0 b 0 "mem s" 0]
    scan_run_zero_count [of "\<lambda>i. \<not> bm_used (mem s) b i" "bm_bits b" 0 0]
  by (auto simp: bitmap_scan_def)

section \<open>Setting and testing a bit\<close>

definition bm_upd :: "bitmap \<Rightarrow> nat \<Rightarrow> bool \<Rightarrow> (addr \<Rightarrow> u8) \<Rightarrow> (addr \<Rightarrow> u8)" where
  "bm_upd b i v m =
     (let a = bits b + of_nat (i div 8)
      in m(a := (if v then set_bit (i mod 8) (m a) else unset_bit (i mod 8) (m a))))"

lemma bm_index_words:
  assumes "i < 2 ^ 32"
  shows "(of_nat i :: u32) div 8 = of_nat (i div 8)" "unat ((of_nat i :: u32) mod 8) = i mod 8"
  using assms by (simp_all add: word_unat_eq_iff unat_word_ariths unat_of_nat_u32 div_le_dividend
      order.strict_trans1 [OF div_le_dividend])

lemma bitmap_set_eq:
  assumes "bm_wf b" and "i < bm_bits b"
  shows "bitmap_set b (of_nat i) (if v then 1 else 0) s = Inr (s\<lparr>mem := bm_upd b i v (mem s)\<rparr>)"
proof -
  have i: "i < 2 ^ 32"
    using assms by (simp add: bm_wf_def)
  have "i div 8 < unat (btmp_bytes_len b)"
    using assms(2) by (simp add: bm_bits_def)
  then have "(of_nat (i div 8) :: u32) < btmp_bytes_len b"
    using i by (simp add: word_less_nat_alt unat_of_nat_u32)
  then show ?thesis
    by (simp add: bitmap_set_def bm_upd_def Let_def bm_index_words [OF i] set_bit_eq_or
        unset_bit_eq_and_not)
qed

lemma bitmap_set_out_of_range:
  assumes "bm_bits b \<le> i" and "i < 2 ^ 32" and "val = 0 \<or> val = 1"
  shows "bitmap_set b (of_nat i) val s =
    Inl (Panic ''lib/kernel/bitmap.c'' 60 ''bitmap_set'' ''byte_idx < btmp->btmp_bytes_len'')"
proof -
  have "\<not> (of_nat (i div 8) :: u32) < btmp_bytes_len b"
    using assms(1,2) by (simp add: word_less_nat_alt unat_of_nat_u32 bm_bits_def)
  with assms(3) show ?thesis
    by (simp add: bitmap_set_def Let_def bm_index_words [OF assms(2)])
qed

lemma bm_byte_eq_iff:
  assumes "bm_wf b" "i < bm_bits b" "j < bm_bits b"
  shows "bits b + of_nat (i div 8) = bits b + of_nat (j div 8) \<longleftrightarrow> i div 8 = j div 8"
  using assms by (simp add: of_nat_eq_iff_u32 bm_wf_def)

lemma bm_used_upd:
  assumes "bm_wf b" "i < bm_bits b" "j < bm_bits b"
  shows "bm_used (bm_upd b i v m) b j \<longleftrightarrow> (if j = i then v else bm_used m b j)"
proof (cases "j div 8 = i div 8")
  case True
  then have "j mod 8 = i mod 8 \<longleftrightarrow> j = i"
    by (metis div_mult_mod_eq)
  with True show ?thesis
    by (auto simp: bm_used_def bm_upd_def Let_def bit_simps)
next
  case False
  with bm_byte_eq_iff [OF assms(1,3,2)] show ?thesis
    by (auto simp: bm_used_def bm_upd_def Let_def)
qed

text \<open>The bytes of a bitmap, and that an update leaves all others alone.\<close>

definition in_bytes :: "bitmap \<Rightarrow> addr \<Rightarrow> bool" where
  "in_bytes b a \<longleftrightarrow> unat (a - bits b) < unat (btmp_bytes_len b)"

lemma bm_byte_in_bytes:
  assumes "bm_wf b" "i < bm_bits b"
  shows "in_bytes b (bits b + of_nat (i div 8))"
  using assms by (simp add: in_bytes_def bm_wf_def bm_bits_def unat_of_nat_u32)

lemma bm_upd_outside:
  "bm_wf b \<Longrightarrow> i < bm_bits b \<Longrightarrow> \<not> in_bytes b a \<Longrightarrow> bm_upd b i v m a = m a"
  using bm_byte_in_bytes [of b i] by (auto simp: bm_upd_def Let_def)

lemma bm_used_frame:
  "bm_wf b \<Longrightarrow> i < bm_bits b \<Longrightarrow> (\<And>a. in_bytes b a \<Longrightarrow> m a = m' a) \<Longrightarrow>
     bm_used m b i = bm_used m' b i"
  using bm_byte_in_bytes [of b i] by (auto simp: bm_used_def)

lemma bitmap_scan_test_used:
  assumes "i < 2 ^ 32"
  shows "bitmap_scan_test b (of_nat i) s \<noteq> 0 \<longleftrightarrow> bm_used (mem s) b i"
proof -
  have "bit (ucast (x :: u8) AND push_bit k (1 :: u32)) n \<longleftrightarrow> bit x k \<and> n = k" if "k < 8" for x k n
    using that by (auto simp: bit_simps)
  from this [of "i mod 8"] show ?thesis
    unfolding bitmap_scan_test_def Let_def bm_index_words [OF assms] bm_used_def
    by (auto simp: u32_eq_bits)
qed

lemma bitmap_init_clears:
  assumes "bits b \<noteq> NULL" and "bm_wf b"
  shows "\<exists>m. bitmap_init (Some b) s = Inr (s\<lparr>mem := m\<rparr>) \<and>
    (\<forall>i < bm_bits b. \<not> bm_used m b i) \<and> (\<forall>a. \<not> in_bytes b a \<longrightarrow> m a = mem s a)"
proof -
  let ?m = "memset_loop (unat (btmp_bytes_len b)) (bits b) 0 (mem s)"
  have m: "?m a = (if in_bytes b a then 0 else mem s a)" for a
    using memset_loop_apply [of "unat (btmp_bytes_len b)" "bits b" 0 "mem s" a]
      unat_less_2p32 [of "btmp_bytes_len b"] by (simp add: in_bytes_def)
  have "\<not> bm_used ?m b i" if "i < bm_bits b" for i
    using bm_byte_in_bytes [OF assms(2) that] by (simp add: bm_used_def m)
  with assms(1) m show ?thesis
    by (auto simp: bitmap_init_def memset_def)
qed

section \<open>Properties\<close>

lemma fits_two: "fits free 2 k \<longleftrightarrow> free k \<and> free (Suc k)"
  by (auto simp: fits_def less_2_cases_iff)

text \<open>
  C12: \<open>bitmap_scan\<close> for a nonzero count is first fit: it returns the least index at which that
  many consecutive bits are free inside the bitmap, and \<open>-1\<close> exactly if there is none. The byte-wise
  scan with the shortcut for full bytes is the bit-wise one.
\<close>

theorem bitmap_scan_is_first_fit:
  assumes "bm_wf b" "cnt \<noteq> 0"
  shows "\<exists>r. bitmap_scan (Some b) cnt s = Inr r \<and>
    (if \<exists>k. k + unat cnt \<le> bm_bits b \<and> fits (\<lambda>i. \<not> bm_used (mem s) b i) (unat cnt) k
     then unat r + unat cnt \<le> bm_bits b \<and> fits (\<lambda>i. \<not> bm_used (mem s) b i) (unat cnt) (unat r) \<and>
          (\<forall>k < unat r. \<not> fits (\<lambda>i. \<not> bm_used (mem s) b i) (unat cnt) k)
     else r = - 1)"
proof (cases "first_fit (\<lambda>i. \<not> bm_used (mem s) b i) (bm_bits b) (unat cnt)")
  case None
  then show ?thesis
    using bitmap_scan_first_fit [OF assms, of s] iffD1 [OF first_fit_None None] by auto
next
  case (Some k)
  note k = first_fit_Some [OF Some]
  have "unat (of_nat k :: u32) = k"
    using k assms(1) by (intro unat_of_nat_u32) (auto simp: bm_wf_def)
  with k Some show ?thesis
    using bitmap_scan_first_fit [OF assms, of s] by auto
qed

theorem bitmap_scan_is_first_fit_witness:
  "bitmap_scan (Some \<lparr>btmp_bytes_len = 1, bits = 100\<rparr>) 2 (bytemem0 ((\<lambda>_. 0)(100 := 0x05))) = Inr 3"
proof -
  let ?b = "\<lparr>btmp_bytes_len = 1, bits = 100\<rparr>" and ?s = "bytemem0 ((\<lambda>_. 0)(100 := 0x05))"
  let ?fits = "fits (\<lambda>i. \<not> bm_used (mem ?s) ?b i) (unat (2 :: u32))"
  have fits: "?fits k \<longleftrightarrow> k \<notin> {0, 1, 2}" if "k \<le> 6" for k
  proof -
    have "k \<in> {0, 1, 2, 3, 4, 5, 6}" using that by auto
    then show ?thesis
      by (auto simp: fits_two bm_used_def bit_iff_odd)
  qed
  obtain r where r: "bitmap_scan (Some ?b) 2 ?s = Inr r"
    "if \<exists>k. k + unat (2 :: u32) \<le> bm_bits ?b \<and> ?fits k
     then unat r + unat (2 :: u32) \<le> bm_bits ?b \<and> ?fits (unat r) \<and> (\<forall>k < unat r. \<not> ?fits k) else r = - 1"
    using bitmap_scan_is_first_fit [of ?b 2 ?s] by (auto simp: bm_wf_def bm_bits_def)
  have "\<exists>k. k + unat (2 :: u32) \<le> bm_bits ?b \<and> ?fits k"
    using fits [of 3] by (intro exI [of _ 3]) (simp add: bm_bits_def)
  note u = r(2) [unfolded if_P [OF this]]
  then have u6: "unat r \<le> 6"
    by (simp add: bm_bits_def)
  have "\<not> 3 < unat r"
    using u fits [of 3] by auto
  moreover have "unat r \<notin> {0, 1, 2}"
    using u u6 fits [of "unat r"] by blast
  ultimately have "unat r = 3" by auto
  then have "r = 3" by (simp add: word_unat_eq_iff)
  with r(1) show ?thesis by simp
qed

text \<open>
  \<open>bitmap_set\<close> on an index of the bitmap changes that bit only, as \<open>bitmap_scan_test\<close> reads
  it, and writes no byte outside the bitmap.
\<close>

theorem bitmap_set_then_test:
  assumes "bm_wf b" "i < bm_bits b" "j < bm_bits b"
  shows "\<exists>m. bitmap_set b (of_nat i) (if v then 1 else 0) s = Inr (s\<lparr>mem := m\<rparr>) \<and>
    (bitmap_scan_test b (of_nat j) (s\<lparr>mem := m\<rparr>) \<noteq> 0 \<longleftrightarrow>
       (if j = i then v else bitmap_scan_test b (of_nat j) s \<noteq> 0)) \<and>
    (\<forall>a. \<not> in_bytes b a \<longrightarrow> m a = mem s a)"
proof -
  have "j < 2 ^ 32"
    using assms by (simp add: bm_wf_def)
  then show ?thesis
    using assms
    by (intro exI [of _ "bm_upd b i v (mem s)"])
       (simp add: bitmap_set_eq bitmap_scan_test_used bm_used_upd bm_upd_outside)
qed

theorem bitmap_set_then_test_witness:
  "\<exists>m. bitmap_set \<lparr>btmp_bytes_len = 2, bits = 100\<rparr> (of_nat 11) 1 (bytemem0 (\<lambda>_. 0)) = Inr ((bytemem0 (\<lambda>_. 0))\<lparr>mem := m\<rparr>) \<and>
     bitmap_scan_test \<lparr>btmp_bytes_len = 2, bits = 100\<rparr> (of_nat 11) ((bytemem0 (\<lambda>_. 0))\<lparr>mem := m\<rparr>) \<noteq> 0"
  using bitmap_set_then_test [of "\<lparr>btmp_bytes_len = 2, bits = 100\<rparr>" 11 11 True "bytemem0 (\<lambda>_. 0)"]
  by (auto simp: bm_wf_def bm_bits_def)

end
