(* ===== verification/Lists.thy ===== *)
theory Lists
  imports Bitmap
begin

text \<open>
  lib/kernel/list.c: the doubly linked list with sentinel nodes, over a store of list nodes. A
  \<open>struct list\<close> at address \<open>p\<close> has its head node at \<open>p\<close> and its tail node at \<open>p + 8\<close>. The
  predicate \<open>is_list\<close> relates the store to the sequence of the nodes between them, and every
  operation is shown to be the operation on sequences it is meant to be.
\<close>

section \<open>State\<close>

record list_elem =
  le_prev :: addr
  le_next :: addr

record liststore = bytemem +
  elems :: "addr \<Rightarrow> list_elem"

definition set_prev :: "addr \<Rightarrow> addr \<Rightarrow> 'a liststore_scheme \<Rightarrow> 'a liststore_scheme" where
  "set_prev a v s = s\<lparr>elems := (elems s)(a := (elems s a)\<lparr>le_prev := v\<rparr>)\<rparr>"

definition set_next :: "addr \<Rightarrow> addr \<Rightarrow> 'a liststore_scheme \<Rightarrow> 'a liststore_scheme" where
  "set_next a v s = s\<lparr>elems := (elems s)(a := (elems s a)\<lparr>le_next := v\<rparr>)\<rparr>"

abbreviation get_prev :: "'a liststore_scheme \<Rightarrow> addr \<Rightarrow> addr" where
  "get_prev s a \<equiv> le_prev (elems s a)"

abbreviation get_next :: "'a liststore_scheme \<Rightarrow> addr \<Rightarrow> addr" where
  "get_next s a \<equiv> le_next (elems s a)"

definition list_head :: "addr \<Rightarrow> addr" where
  "list_head plist = plist"

definition list_tail :: "addr \<Rightarrow> addr" where
  "list_tail plist = plist + 8"

section \<open>Operations\<close>

definition list_init :: "addr \<Rightarrow> 'a liststore_scheme \<Rightarrow> 'a liststore_scheme" where
  "list_init plist s =
     set_next (list_tail plist) NULL
       (set_prev (list_tail plist) (list_head plist)
         (set_next (list_head plist) (list_tail plist)
           (set_prev (list_head plist) NULL s)))"

definition list_insert_before ::
    "addr \<Rightarrow> addr \<Rightarrow> 'a liststore_scheme \<Rightarrow> err + 'a liststore_scheme" where
  "list_insert_before before elem s =
     ASSERT (before \<noteq> NULL \<and> get_prev s before \<noteq> NULL \<and> elem \<noteq> NULL)
       ''lib/kernel/list.c'' 16 ''list_insert_before''
       ''before != NULL && before->prev != NULL && elem != NULL''
       (let (old_status, s) = intr_disable s;
            s = set_next (get_prev s before) elem s;
            s = set_prev elem (get_prev s before) s;
            s = set_next elem before s;
            s = set_prev before elem s
        in Inr (snd (intr_set_status old_status s)))"

definition list_push :: "addr \<Rightarrow> addr \<Rightarrow> 'a liststore_scheme \<Rightarrow> err + 'a liststore_scheme" where
  "list_push plist elem s = list_insert_before (get_next s (list_head plist)) elem s"

definition list_append :: "addr \<Rightarrow> addr \<Rightarrow> 'a liststore_scheme \<Rightarrow> err + 'a liststore_scheme" where
  "list_append plist elem s = list_insert_before (list_tail plist) elem s"

definition list_remove :: "addr \<Rightarrow> 'a liststore_scheme \<Rightarrow> err + 'a liststore_scheme" where
  "list_remove elem s =
     ASSERT (elem \<noteq> NULL) ''lib/kernel/list.c'' 37 ''list_remove'' ''elem != NULL''
       (let (old_status, s) = intr_disable s;
            s = (if get_prev s elem \<noteq> NULL then set_next (get_prev s elem) (get_next s elem) s else s);
            s = (if get_next s elem \<noteq> NULL then set_prev (get_next s elem) (get_prev s elem) s else s)
        in Inr (snd (intr_set_status old_status s)))"

definition list_pop :: "addr \<Rightarrow> 'a liststore_scheme \<Rightarrow> err + addr \<times> 'a liststore_scheme" where
  "list_pop plist s =
     ASSERT (plist \<noteq> NULL) ''lib/kernel/list.c'' 48 ''list_pop'' ''plist != NULL''
       (let temp = get_next s (list_head plist)
        in bindE (list_remove temp s) (\<lambda>s. Inr (temp, s)))"

partial_function (option) elem_find_loop ::
    "(addr \<Rightarrow> list_elem) \<Rightarrow> addr \<Rightarrow> addr \<Rightarrow> addr \<Rightarrow> bool option" where
  "elem_find_loop h tail elem temp =
     (if temp \<noteq> tail then
        if temp = elem then Some True else elem_find_loop h tail elem (le_next (h temp))
      else Some False)"

definition elem_find :: "addr \<Rightarrow> addr \<Rightarrow> 'a liststore_scheme \<Rightarrow> err + bool" where
  "elem_find plist elem s =
     ASSERT (plist \<noteq> NULL \<and> elem \<noteq> NULL) ''lib/kernel/list.c'' 56 ''elem_find''
       ''plist != NULL && elem != NULL''
       (returns (elem_find_loop (elems s) (list_tail plist) elem (get_next s (list_head plist))))"

definition list_empty :: "addr \<Rightarrow> 'a liststore_scheme \<Rightarrow> err + bool" where
  "list_empty plist s =
     ASSERT (plist \<noteq> NULL) ''lib/kernel/list.c'' 97 ''list_empty'' ''plist != NULL''
       (Inr (get_next s (list_head plist) = list_tail plist))"

text \<open>
  The callback of \<open>list_traversal\<close> may change the state and may itself fail: it is a function from
  the node, the argument and the state to a result.
\<close>

type_synonym 's list_fun = "addr \<Rightarrow> u32 \<Rightarrow> 's \<Rightarrow> err + bool \<times> 's"

partial_function (option) list_traversal_loop ::
    "addr \<Rightarrow> 'a liststore_scheme list_fun \<Rightarrow> u32 \<Rightarrow> addr \<Rightarrow> 'a liststore_scheme \<Rightarrow>
     (err + addr \<times> 'a liststore_scheme) option" where
  "list_traversal_loop tail func arg temp s =
     (if temp \<noteq> tail then
        (case func temp arg s of
           Inl e \<Rightarrow> Some (Inl e)
         | Inr (r, s) \<Rightarrow>
             if r then Some (Inr (temp, s))
             else list_traversal_loop tail func arg (get_next s temp) s)
      else Some (Inr (NULL, s)))"

definition list_traversal ::
    "addr \<Rightarrow> 'a liststore_scheme list_fun \<Rightarrow> u32 \<Rightarrow> 'a liststore_scheme \<Rightarrow>
     err + addr \<times> 'a liststore_scheme" where
  "list_traversal plist func arg s =
     ASSERT (plist \<noteq> NULL) ''lib/kernel/list.c'' 69 ''list_traversal'' ''plist != NULL''
       (bindE (list_empty plist s) (\<lambda>e.
          if e then Inr (NULL, s)
          else bindE (returns (list_traversal_loop (list_tail plist) func arg
                 (get_next s (list_head plist)) s)) id))"

partial_function (option) list_len_loop ::
    "(addr \<Rightarrow> list_elem) \<Rightarrow> addr \<Rightarrow> u32 \<Rightarrow> addr \<Rightarrow> u32 option" where
  "list_len_loop h tail len temp =
     (if temp \<noteq> tail then list_len_loop h tail (len + 1) (le_next (h temp)) else Some len)"

definition list_len :: "addr \<Rightarrow> 'a liststore_scheme \<Rightarrow> err + u32" where
  "list_len plist s =
     ASSERT (plist \<noteq> NULL) ''lib/kernel/list.c'' 84 ''list_len'' ''plist != NULL''
       (returns (list_len_loop (elems s) (list_tail plist) 0 (get_next s (list_head plist))))"

section \<open>The operations on the node store alone\<close>

type_synonym nodes = "addr \<Rightarrow> list_elem"

definition upd_prev :: "addr \<Rightarrow> addr \<Rightarrow> nodes \<Rightarrow> nodes" where
  "upd_prev a v h = h(a := (h a)\<lparr>le_prev := v\<rparr>)"

definition upd_next :: "addr \<Rightarrow> addr \<Rightarrow> nodes \<Rightarrow> nodes" where
  "upd_next a v h = h(a := (h a)\<lparr>le_next := v\<rparr>)"

definition h_insert :: "addr \<Rightarrow> addr \<Rightarrow> nodes \<Rightarrow> nodes" where
  "h_insert b e h =
     upd_prev b e (upd_next e b (upd_prev e (le_prev (h b)) (upd_next (le_prev (h b)) e h)))"

definition h_remove :: "addr \<Rightarrow> nodes \<Rightarrow> nodes" where
  "h_remove e h = upd_prev (le_next (h e)) (le_prev (h e)) (upd_next (le_prev (h e)) (le_next (h e)) h)"

lemma node_reads [simp, heap_simps]:
  "le_prev (upd_prev a v h x) = (if x = a then v else le_prev (h x))"
  "le_next (upd_prev a v h x) = le_next (h x)"
  "le_next (upd_next a v h x) = (if x = a then v else le_next (h x))"
  "le_prev (upd_next a v h x) = le_prev (h x)"
  by (simp_all add: upd_prev_def upd_next_def)

lemma node_other: "x \<noteq> a \<Longrightarrow> upd_prev a v h x = h x" "x \<noteq> a \<Longrightarrow> upd_next a v h x = h x"
  by (simp_all add: upd_prev_def upd_next_def)

lemma set_nodes:
  "set_prev a v s = s\<lparr>elems := upd_prev a v (elems s)\<rparr>"
  "set_next a v s = s\<lparr>elems := upd_next a v (elems s)\<rparr>"
  by (simp_all add: set_prev_def set_next_def upd_prev_def upd_next_def)

lemma list_insert_before_eq:
  assumes "b \<noteq> NULL" "get_prev s b \<noteq> NULL" "e \<noteq> NULL"
  shows "list_insert_before b e s = Inr (s\<lparr>elems := h_insert b e (elems s)\<rparr>)"
proof -
  let ?t = "s\<lparr>eflags := eflags s AND NOT EFLAGS_IF, elems := h_insert b e (elems s)\<rparr>"
  have "list_insert_before b e s = Inr (snd (intr_set_status (intr_get_status s) ?t))"
    using assms by (simp add: list_insert_before_def intr_disable_eq set_nodes h_insert_def Let_def)
  also have "snd (intr_set_status (intr_get_status s) ?t) = ?t\<lparr>eflags := eflags s\<rparr>"
    by (rule intr_restore) simp
  finally show ?thesis by simp
qed

lemma list_remove_eq:
  assumes "e \<noteq> NULL" "get_prev s e \<noteq> NULL" "get_next s e \<noteq> NULL" "get_prev s e \<noteq> e"
  shows "list_remove e s = Inr (s\<lparr>elems := h_remove e (elems s)\<rparr>)"
proof -
  let ?t = "s\<lparr>eflags := eflags s AND NOT EFLAGS_IF, elems := h_remove e (elems s)\<rparr>"
  have "list_remove e s = Inr (snd (intr_set_status (intr_get_status s) ?t))"
    using assms by (simp add: list_remove_def intr_disable_eq set_nodes h_remove_def Let_def)
  also have "snd (intr_set_status (intr_get_status s) ?t) = ?t\<lparr>eflags := eflags s\<rparr>"
    by (rule intr_restore) simp
  finally show ?thesis by simp
qed

lemma h_insert_outside: "a \<notin> {b, e, le_prev (h b)} \<Longrightarrow> h_insert b e h a = h a"
  by (simp add: h_insert_def node_other)

lemma h_remove_outside: "a \<notin> {le_prev (h e), le_next (h e)} \<Longrightarrow> h_remove e h a = h a"
  by (simp add: h_remove_def node_other)

section \<open>Sequences of nodes\<close>

text \<open>\<open>linked h a xs b\<close>: from \<open>a\<close> through the nodes \<open>xs\<close> to \<open>b\<close>, in both directions.\<close>

fun linked :: "nodes \<Rightarrow> addr \<Rightarrow> addr list \<Rightarrow> addr \<Rightarrow> bool" where
  "linked h a [] b \<longleftrightarrow> le_next (h a) = b \<and> le_prev (h b) = a"
| "linked h a (x # xs) b \<longleftrightarrow> le_next (h a) = x \<and> le_prev (h x) = a \<and> linked h x xs b"

definition list_nodes :: "addr \<Rightarrow> addr list \<Rightarrow> addr list" where
  "list_nodes p xs = list_head p # xs @ [list_tail p]"

definition is_list :: "nodes \<Rightarrow> addr \<Rightarrow> addr list \<Rightarrow> bool" where
  "is_list h p xs \<longleftrightarrow>
     distinct (list_nodes p xs) \<and> NULL \<notin> set (list_nodes p xs) \<and>
     le_prev (h (list_head p)) = NULL \<and> le_next (h (list_tail p)) = NULL \<and>
     linked h (list_head p) xs (list_tail p)"

lemma set_list_nodes: "set (list_nodes p xs) = insert (list_head p) (insert (list_tail p) (set xs))"
  by (auto simp: list_nodes_def)

lemma linked_append: "linked h a (xs @ y # ys) b \<longleftrightarrow> linked h a xs y \<and> linked h y ys b"
  by (induction xs arbitrary: a) auto

lemma linked_prev_last: "linked h a xs b \<Longrightarrow> le_prev (h b) = last (a # xs)"
  by (induction xs arbitrary: a) auto

lemma linked_next_hd: "linked h a xs b \<Longrightarrow> le_next (h a) = hd (xs @ [b])"
  by (cases xs) auto

lemma linked_cong:
  "(\<And>x. x \<in> set (a # xs) \<Longrightarrow> le_next (h' x) = le_next (h x)) \<Longrightarrow>
   (\<And>x. x \<in> set (xs @ [b]) \<Longrightarrow> le_prev (h' x) = le_prev (h x)) \<Longrightarrow>
   linked h' a xs b = linked h a xs b"
  by (induction xs arbitrary: a) auto

lemma linked_upd_prev: "u \<notin> set (xs @ [b]) \<Longrightarrow> linked (upd_prev u v h) a xs b = linked h a xs b"
  by (rule linked_cong) auto

lemma linked_upd_next: "u \<notin> set (a # xs) \<Longrightarrow> linked (upd_next u v h) a xs b = linked h a xs b"
  by (rule linked_cong) auto

lemma linked_unique:
  "linked h a xs b \<Longrightarrow> linked h a ys b \<Longrightarrow> b \<notin> set xs \<Longrightarrow> b \<notin> set ys \<Longrightarrow> xs = ys"
proof (induction xs arbitrary: a ys)
  case Nil
  then show ?case by (cases ys) auto
next
  case (Cons x xs)
  then show ?case by (cases ys) auto
qed

text \<open>Insertion before the first node of \<open>vs @ [t]\<close>, removal of a node in the middle.\<close>

lemma linked_insert:
  assumes "linked h a (us @ vs) t" "distinct (a # us @ vs @ [t])" "e \<notin> set (a # us @ vs @ [t])"
  shows "linked (h_insert (hd (vs @ [t])) e h) a (us @ e # vs) t"
  using assms
proof (induction us arbitrary: a)
  case Nil
  then show ?case
    by (cases vs) (auto simp: h_insert_def linked_upd_prev linked_upd_next)
next
  case (Cons u us)
  let ?b = "hd (vs @ [t])"
  have b: "?b \<in> set (vs @ [t])" by (cases vs) auto
  have "le_prev (h ?b) = last (u # us)"
  proof (cases vs)
    case Nil
    with Cons.prems(1) show ?thesis using linked_prev_last [of h u us t] by simp
  next
    case (Cons v vs')
    with Cons.prems(1) show ?thesis using linked_prev_last [of h u us v] by (simp add: linked_append)
  qed
  then have "le_prev (h ?b) \<in> set (u # us)" by (metis last_in_set list.distinct(1))
  with b Cons show ?case by (auto simp: h_insert_def)
qed

lemma linked_remove:
  assumes "linked h a (us @ e # vs) t" "distinct (a # us @ e # vs @ [t])"
  shows "linked (h_remove e h) a (us @ vs) t"
  using assms
proof (induction us arbitrary: a)
  case Nil
  then show ?case
    by (cases vs) (auto simp: h_remove_def linked_upd_prev linked_upd_next)
next
  case (Cons u us)
  have "le_prev (h e) = last (u # us)"
    using Cons.prems(1) linked_prev_last [of h u us e] by (simp add: linked_append)
  then have "le_prev (h e) \<in> set (u # us)" by (metis last_in_set list.distinct(1))
  moreover have "le_next (h e) \<in> set (vs @ [t])"
    using Cons.prems(1) linked_next_hd [of h e vs t] by (cases vs) (auto simp: linked_append)
  ultimately show ?case using Cons by (auto simp: h_remove_def)
qed

section \<open>The operations on lists\<close>

lemma is_list_unique: "is_list h p xs \<Longrightarrow> is_list h p ys \<Longrightarrow> xs = ys"
  by (auto simp: is_list_def list_nodes_def intro: linked_unique)

lemma is_list_cong:
  assumes "\<And>x. x \<in> set (list_nodes p xs) \<Longrightarrow> h' x = h x"
  shows "is_list h' p xs = is_list h p xs"
proof -
  have "linked h' (list_head p) xs (list_tail p) = linked h (list_head p) xs (list_tail p)"
    by (rule linked_cong) (auto simp: assms set_list_nodes)
  then show ?thesis
    by (simp add: is_list_def assms set_list_nodes)
qed

lemma is_list_distinct: "is_list h p xs \<Longrightarrow> distinct xs \<and> NULL \<notin> set xs \<and> p \<noteq> NULL \<and> list_tail p \<noteq> NULL"
  by (auto simp: is_list_def list_nodes_def list_head_def)

lemma list_head_tail_neq [simp]: "list_head p \<noteq> list_tail p" "list_tail p \<noteq> list_head p"
  by (simp_all add: list_head_def list_tail_def)

text \<open>What an insertion or a removal writes lies in the list.\<close>

lemma is_list_prev_in:
  assumes "is_list h p (us @ vs)"
  shows "le_prev (h (hd (vs @ [list_tail p]))) \<in> insert (list_head p) (set us)"
proof -
  have "linked h (list_head p) us (hd (vs @ [list_tail p]))"
    using assms by (cases vs) (auto simp: is_list_def linked_append)
  then show ?thesis
    using linked_prev_last by (metis last_in_set list.distinct(1) list.simps(15))
qed

lemma is_list_next_in:
  assumes "is_list h p (us @ e # vs)"
  shows "le_next (h e) \<in> insert (list_tail p) (set vs)"
proof -
  have "linked h e vs (list_tail p)"
    using assms by (simp add: is_list_def linked_append)
  then show ?thesis
    using linked_next_hd [of h e vs "list_tail p"] by (cases vs) auto
qed

lemma insert_is_list:
  assumes "is_list h p (us @ vs)" "e \<notin> set (list_nodes p (us @ vs))" "e \<noteq> NULL"
  shows "is_list (h_insert (hd (vs @ [list_tail p])) e h) p (us @ e # vs)"
proof -
  let ?b = "hd (vs @ [list_tail p])"
  have "linked (h_insert ?b e h) (list_head p) (us @ e # vs) (list_tail p)"
    using assms(1,2) by (intro linked_insert) (auto simp: is_list_def list_nodes_def)
  moreover have "?b \<noteq> list_head p"
    using assms(1) by (cases vs) (auto simp: is_list_def list_nodes_def)
  moreover have "le_prev (h ?b) \<noteq> list_tail p"
    using is_list_prev_in [OF assms(1)] assms(1) by (auto simp: is_list_def list_nodes_def)
  ultimately show ?thesis
    using assms by (auto simp: is_list_def h_insert_def list_nodes_def)
qed

lemma remove_is_list:
  assumes "is_list h p (us @ e # vs)"
  shows "is_list (h_remove e h) p (us @ vs)"
proof -
  have "linked (h_remove e h) (list_head p) (us @ vs) (list_tail p)"
    using assms by (intro linked_remove) (auto simp: is_list_def list_nodes_def)
  moreover have "le_prev (h e) \<noteq> list_tail p"
    using is_list_prev_in [of h p us "e # vs"] assms by (auto simp: is_list_def list_nodes_def)
  moreover have "le_next (h e) \<noteq> list_head p"
    using is_list_next_in [OF assms] assms by (auto simp: is_list_def list_nodes_def)
  ultimately show ?thesis
    using assms by (auto simp: is_list_def h_remove_def list_nodes_def)
qed

lemma is_list_prev_not_null:
  assumes "is_list h p (us @ vs)"
  shows "le_prev (h (hd (vs @ [list_tail p]))) \<noteq> NULL"
  using is_list_prev_in [OF assms] assms by (auto simp: is_list_def list_nodes_def)

lemma list_append_eq:
  assumes "is_list (elems s) p xs" "e \<noteq> NULL"
  shows "list_append p e s = Inr (s\<lparr>elems := h_insert (list_tail p) e (elems s)\<rparr>)"
  unfolding list_append_def
  using assms is_list_prev_not_null [of "elems s" p xs "[]"] is_list_distinct [OF assms(1)]
  by (intro list_insert_before_eq) auto

lemma append_is_list:
  "is_list h p xs \<Longrightarrow> e \<notin> set (list_nodes p xs) \<Longrightarrow> e \<noteq> NULL \<Longrightarrow>
     is_list (h_insert (list_tail p) e h) p (xs @ [e])"
  using insert_is_list [of h p xs "[]" e] by simp

lemma append_frame:
  assumes "is_list h p xs" "a \<notin> set (list_nodes p xs)" "a \<noteq> e"
  shows "h_insert (list_tail p) e h a = h a"
  using is_list_prev_in [of h p xs "[]"] assms
  by (intro h_insert_outside) (auto simp: set_list_nodes)

lemma is_list_first:
  "is_list h p xs \<Longrightarrow> le_next (h (list_head p)) = hd (xs @ [list_tail p])"
  using linked_next_hd by (auto simp: is_list_def)

lemma list_push_eq:
  assumes "is_list (elems s) p xs" "e \<noteq> NULL"
  shows "list_push p e s = Inr (s\<lparr>elems := h_insert (hd (xs @ [list_tail p])) e (elems s)\<rparr>)"
proof -
  have "hd (xs @ [list_tail p]) \<noteq> NULL"
    using assms(1) by (cases xs) (auto simp: is_list_def list_nodes_def)
  then show ?thesis
    unfolding list_push_def is_list_first [OF assms(1)]
    using assms is_list_prev_not_null [of "elems s" p "[]" xs]
    by (intro list_insert_before_eq) auto
qed

lemma push_is_list:
  "is_list h p xs \<Longrightarrow> e \<notin> set (list_nodes p xs) \<Longrightarrow> e \<noteq> NULL \<Longrightarrow>
     is_list (h_insert (hd (xs @ [list_tail p])) e h) p (e # xs)"
  using insert_is_list [of h p "[]" xs e] by simp

lemma push_frame:
  assumes "is_list h p xs" "a \<notin> set (list_nodes p xs)" "a \<noteq> e"
  shows "h_insert (hd (xs @ [list_tail p])) e h a = h a"
  using is_list_prev_in [of h p "[]" xs] assms
  by (intro h_insert_outside) (cases xs; auto simp: set_list_nodes)

lemma list_remove_in_list:
  assumes "is_list (elems s) p (us @ e # vs)"
  shows "list_remove e s = Inr (s\<lparr>elems := h_remove e (elems s)\<rparr>)"
  using is_list_prev_not_null [of "elems s" p us "e # vs"] is_list_prev_in [of "elems s" p us "e # vs"]
    is_list_next_in [OF assms] assms
  by (intro list_remove_eq) (auto simp: is_list_def list_nodes_def)

lemma list_pop_eq:
  assumes "is_list (elems s) p (x # xs)"
  shows "list_pop p s = Inr (x, s\<lparr>elems := h_remove x (elems s)\<rparr>)"
  using assms list_remove_in_list [of s p "[]" x xs] is_list_first [OF assms] is_list_distinct [OF assms]
  by (simp add: list_pop_def Let_def)

lemma pop_is_list: "is_list h p (x # xs) \<Longrightarrow> is_list (h_remove x h) p xs"
  using remove_is_list [of h p "[]" x xs] by simp

lemma remove_frame:
  assumes "is_list h p (us @ e # vs)" "a \<notin> set (list_nodes p (us @ e # vs))"
  shows "h_remove e h a = h a"
  using is_list_prev_in [of h p us "e # vs"] is_list_next_in [OF assms(1)] assms
  by (intro h_remove_outside) (auto simp: set_list_nodes)

lemma list_init_is_list:
  assumes "p \<noteq> NULL" "list_tail p \<noteq> NULL"
  shows "\<exists>h. list_init p s = s\<lparr>elems := h\<rparr> \<and> is_list h p [] \<and>
    (\<forall>a. a \<notin> {list_head p, list_tail p} \<longrightarrow> h a = elems s a)"
  using assms
  by (auto simp: list_init_def set_nodes is_list_def list_nodes_def list_head_def list_tail_def node_other)

lemma elem_find_loop_linked:
  "linked h a xs b \<Longrightarrow> distinct (xs @ [b]) \<Longrightarrow>
     elem_find_loop h b e (hd (xs @ [b])) = Some (e \<in> set xs)"
proof (induction xs arbitrary: a)
  case Nil
  then show ?case by (simp add: elem_find_loop.simps)
next
  case (Cons x xs)
  then have "le_next (h x) = hd (xs @ [b])" "x \<noteq> b"
    using linked_next_hd by auto
  with Cons show ?case by (subst elem_find_loop.simps) auto
qed

lemma elem_find_is_list:
  assumes "is_list (elems s) p xs" "e \<noteq> NULL"
  shows "elem_find p e s = Inr (e \<in> set xs)"
  using assms elem_find_loop_linked [of "elems s" "list_head p" xs "list_tail p" e]
    is_list_first [OF assms(1)] is_list_distinct [OF assms(1)]
  by (simp add: elem_find_def is_list_def list_nodes_def)

lemma list_len_loop_linked:
  "linked h a xs b \<Longrightarrow> distinct (xs @ [b]) \<Longrightarrow>
     list_len_loop h b n (hd (xs @ [b])) = Some (n + of_nat (length xs))"
proof (induction xs arbitrary: a n)
  case Nil
  then show ?case by (simp add: list_len_loop.simps)
next
  case (Cons x xs)
  then have "le_next (h x) = hd (xs @ [b])" "x \<noteq> b"
    using linked_next_hd by auto
  with Cons show ?case by (subst list_len_loop.simps) (auto simp: add.assoc)
qed

lemma list_len_is_list:
  assumes "is_list (elems s) p xs"
  shows "list_len p s = Inr (of_nat (length xs))"
  using assms list_len_loop_linked [of "elems s" "list_head p" xs "list_tail p" 0]
    is_list_first [OF assms] is_list_distinct [OF assms]
  by (simp add: list_len_def is_list_def list_nodes_def)

lemma list_empty_is_list:
  assumes "is_list (elems s) p xs"
  shows "list_empty p s = Inr (xs = [])"
  using assms is_list_first [OF assms] is_list_distinct [OF assms]
  by (cases xs) (auto simp: list_empty_def is_list_def list_nodes_def)

text \<open>A traversal with a callback that only tests the node finds the first node that passes.\<close>

lemma list_traversal_loop_linked:
  assumes "linked (elems s) a xs b" "distinct (xs @ [b])"
    and "\<And>x. func x arg s = Inr (P x, s)"
  shows "list_traversal_loop b func arg (hd (xs @ [b])) s =
    Some (Inr (case find P xs of None \<Rightarrow> NULL | Some x \<Rightarrow> x, s))"
  using assms(1,2)
proof (induction xs arbitrary: a)
  case Nil
  then show ?case by (simp add: list_traversal_loop.simps)
next
  case (Cons x xs)
  then have "le_next (elems s x) = hd (xs @ [b])" "x \<noteq> b"
    using linked_next_hd by auto
  with Cons show ?case by (subst list_traversal_loop.simps) (auto simp: assms(3))
qed

lemma list_traversal_is_list:
  assumes "is_list (elems s) p xs" "\<And>x. func x arg s = Inr (P x, s)"
  shows "list_traversal p func arg s = Inr (case find P xs of None \<Rightarrow> NULL | Some x \<Rightarrow> x, s)"
proof (cases xs)
  case Nil
  with assms(1) show ?thesis
    using is_list_distinct [OF assms(1)]
    by (simp add: list_traversal_def list_empty_is_list)
next
  case (Cons x ys)
  have "list_traversal_loop (list_tail p) func arg (hd (xs @ [list_tail p])) s =
      Some (Inr (case find P xs of None \<Rightarrow> NULL | Some x \<Rightarrow> x, s))"
    using assms by (intro list_traversal_loop_linked [where a = "list_head p"])
      (auto simp: is_list_def list_nodes_def)
  with Cons assms(1) show ?thesis
    using is_list_distinct [OF assms(1)] is_list_first [OF assms(1)]
    by (simp add: list_traversal_def list_empty_is_list [OF assms(1)])
qed

section \<open>The interface the scheduler and the semaphores use\<close>

text \<open>
  Queues of nodes in one store: a queue is named by its address, holds a sequence of nodes and
  occupies the nodes of its footprint. The laws say what enqueueing at either end and dequeueing
  do to the sequence and that they write inside the footprint only. The lemmas of the locale are
  the moves its clients make: a rotation (a time slice that ends), a move from one queue to another
  (a wake-up), and a step on one queue beside another.
\<close>

locale node_queues =
  fixes footprint :: "addr \<Rightarrow> addr list \<Rightarrow> addr set"
    and holds :: "(addr \<Rightarrow> 'n) \<Rightarrow> addr \<Rightarrow> addr list \<Rightarrow> bool"
    and enq_last :: "addr \<Rightarrow> addr \<Rightarrow> (addr \<Rightarrow> 'n) \<Rightarrow> (addr \<Rightarrow> 'n)"
    and enq_first :: "addr \<Rightarrow> addr \<Rightarrow> (addr \<Rightarrow> 'n) \<Rightarrow> (addr \<Rightarrow> 'n)"
    and deq :: "addr \<Rightarrow> (addr \<Rightarrow> 'n) \<Rightarrow> (addr \<Rightarrow> 'n)"
  assumes footprint_set: "set xs = set ys \<Longrightarrow> footprint p xs = footprint p ys"
    and footprint_Cons: "footprint p (x # xs) = insert x (footprint p xs)"
    and holds_distinct: "holds h p xs \<Longrightarrow> distinct xs \<and> NULL \<notin> footprint p xs \<and> footprint p [] \<inter> set xs = {}"
    and holds_frame: "holds h p xs \<Longrightarrow> (\<And>a. a \<in> footprint p xs \<Longrightarrow> h' a = h a) \<Longrightarrow> holds h' p xs"
    and enq_last_holds: "holds h p xs \<Longrightarrow> e \<notin> footprint p xs \<Longrightarrow> e \<noteq> NULL \<Longrightarrow> holds (enq_last p e h) p (xs @ [e])"
    and enq_last_writes: "holds h p xs \<Longrightarrow> a \<notin> footprint p xs \<Longrightarrow> a \<noteq> e \<Longrightarrow> enq_last p e h a = h a"
    and enq_first_holds: "holds h p xs \<Longrightarrow> e \<notin> footprint p xs \<Longrightarrow> e \<noteq> NULL \<Longrightarrow> holds (enq_first p e h) p (e # xs)"
    and enq_first_writes: "holds h p xs \<Longrightarrow> a \<notin> footprint p xs \<Longrightarrow> a \<noteq> e \<Longrightarrow> enq_first p e h a = h a"
    and deq_holds: "holds h p (x # xs) \<Longrightarrow> holds (deq p h) p xs"
    and deq_writes: "holds h p (x # xs) \<Longrightarrow> a \<notin> footprint p (x # xs) \<Longrightarrow> deq p h a = h a"
begin

lemma footprint_snoc: "footprint p (xs @ [x]) = insert x (footprint p xs)"
  using footprint_set [of "xs @ [x]" "x # xs" p] footprint_Cons [of p x xs] by simp

lemma footprint_eq: "footprint p xs = set xs \<union> footprint p []"
  by (induction xs) (auto simp: footprint_Cons)

lemma enq_last_other:
  assumes "holds h p xs" "holds h q ys" "footprint q ys \<inter> insert e (footprint p xs) = {}"
  shows "holds (enq_last p e h) q ys"
proof (rule holds_frame [OF assms(2)])
  fix a assume "a \<in> footprint q ys"
  with assms(3) show "enq_last p e h a = h a"
    by (intro enq_last_writes [OF assms(1)]) auto
qed

lemma enq_first_other:
  assumes "holds h p xs" "holds h q ys" "footprint q ys \<inter> insert e (footprint p xs) = {}"
  shows "holds (enq_first p e h) q ys"
proof (rule holds_frame [OF assms(2)])
  fix a assume "a \<in> footprint q ys"
  with assms(3) show "enq_first p e h a = h a"
    by (intro enq_first_writes [OF assms(1)]) auto
qed

lemma deq_other:
  assumes "holds h p (x # xs)" "holds h q ys" "footprint q ys \<inter> footprint p (x # xs) = {}"
  shows "holds (deq p h) q ys"
proof (rule holds_frame [OF assms(2)])
  fix a assume "a \<in> footprint q ys"
  with assms(3) show "deq p h a = h a"
    by (intro deq_writes [OF assms(1)]) auto
qed

lemma rotate_holds:
  assumes "holds h p xs" "e \<notin> footprint p xs" "e \<noteq> NULL"
  shows "holds (deq p (enq_last p e h)) p (tl (xs @ [e]))"
proof -
  have "holds (enq_last p e h) p (xs @ [e])"
    using assms by (rule enq_last_holds)
  then show ?thesis
    by (cases xs) (auto dest: deq_holds)
qed

lemma rotate_other:
  assumes "holds h p xs" "e \<notin> footprint p xs" "e \<noteq> NULL" "holds h q ys"
    "footprint q ys \<inter> insert e (footprint p xs) = {}"
  shows "holds (deq p (enq_last p e h)) q ys"
proof -
  have "holds (enq_last p e h) p (hd (xs @ [e]) # tl (xs @ [e]))"
    using enq_last_holds [OF assms(1-3)] by (cases xs) auto
  moreover have "holds (enq_last p e h) q ys"
    using assms(1,4,5) by (rule enq_last_other)
  moreover have "footprint q ys \<inter> footprint p (hd (xs @ [e]) # tl (xs @ [e])) = {}"
    using assms(5) footprint_snoc [of p xs e] by (cases xs) auto
  ultimately show ?thesis by (rule deq_other)
qed

lemma wake_moves:
  assumes "holds h w (x # ws)" "holds h r rs" "footprint w (x # ws) \<inter> footprint r rs = {}"
  shows "holds (enq_first r x (deq w h)) w ws \<and> holds (enq_first r x (deq w h)) r (x # rs)"
proof -
  have x: "x \<noteq> NULL" "x \<notin> footprint r rs" "x \<notin> footprint w ws"
    using holds_distinct [OF assms(1)] assms(3) footprint_Cons [of w x ws] footprint_eq [of w ws] by auto
  have w: "holds (deq w h) w ws"
    using assms(1) by (rule deq_holds)
  have r: "holds (deq w h) r rs"
    using assms by (intro deq_other) auto
  have "footprint w ws \<inter> insert x (footprint r rs) = {}"
    using assms(3) x(3) footprint_Cons [of w x ws] by auto
  with w r x show ?thesis
    by (auto intro: enq_first_other enq_first_holds)
qed

end

definition h_append :: "addr \<Rightarrow> addr \<Rightarrow> nodes \<Rightarrow> nodes" where
  "h_append p e h = h_insert (list_tail p) e h"

definition h_push :: "addr \<Rightarrow> addr \<Rightarrow> nodes \<Rightarrow> nodes" where
  "h_push p e h = h_insert (le_next (h (list_head p))) e h"

definition h_pop :: "addr \<Rightarrow> nodes \<Rightarrow> nodes" where
  "h_pop p h = h_remove (le_next (h (list_head p))) h"

interpretation lq: node_queues "\<lambda>p xs. set (list_nodes p xs)" is_list h_append h_push h_pop
proof (unfold_locales, goal_cases)
  case (1 xs ys p)
  then show ?case by (simp add: set_list_nodes)
next
  case (2 p x xs)
  then show ?case by (auto simp: set_list_nodes)
next
  case (3 h p xs)
  then show ?case by (auto simp: is_list_def list_nodes_def)
next
  case (4 h p xs h')
  then show ?case using is_list_cong [of p xs h' h] by simp
next
  case (5 h p xs e)
  then show ?case by (simp add: h_append_def append_is_list)
next
  case (6 h p xs a e)
  then show ?case by (simp add: h_append_def append_frame)
next
  case (7 h p xs e)
  then show ?case by (simp add: h_push_def is_list_first push_is_list)
next
  case (8 h p xs a e)
  then show ?case by (simp add: h_push_def is_list_first push_frame)
next
  case (9 h p x xs)
  then show ?case by (simp add: h_pop_def is_list_first pop_is_list)
next
  case (10 h p x xs a)
  then show ?case using remove_frame [of h p "[]" x xs a] by (simp add: h_pop_def is_list_first)
qed

text \<open>The calls of list.c on a well-formed list, as steps on the node store.\<close>

lemma list_append_run:
  "is_list (elems s) p xs \<Longrightarrow> e \<noteq> NULL \<Longrightarrow> list_append p e s = Inr (s\<lparr>elems := h_append p e (elems s)\<rparr>)"
  by (simp add: list_append_eq h_append_def)

lemma list_push_run:
  "is_list (elems s) p xs \<Longrightarrow> e \<noteq> NULL \<Longrightarrow> list_push p e s = Inr (s\<lparr>elems := h_push p e (elems s)\<rparr>)"
  by (simp add: list_push_eq h_push_def is_list_first)

lemma list_pop_run:
  "is_list (elems s) p (x # xs) \<Longrightarrow> list_pop p s = Inr (x, s\<lparr>elems := h_pop p (elems s)\<rparr>)"
  by (simp add: list_pop_eq h_pop_def is_list_first)

lemmas list_runs = list_append_run list_push_run list_pop_run elem_find_is_list list_empty_is_list

section \<open>Properties\<close>

text \<open>A store with the empty list at 1000, and one with the nodes 2000 and 3000 in it.\<close>

definition liststore0 :: "nodes \<Rightarrow> liststore" where
  "liststore0 h = bytemem.extend (bytemem0 (\<lambda>_. 0)) (liststore.fields h)"

definition nodes_empty :: nodes where
  "nodes_empty = (\<lambda>_. \<lparr>le_prev = 0, le_next = 0\<rparr>)
     (1000 := \<lparr>le_prev = 0, le_next = 1008\<rparr>, 1008 := \<lparr>le_prev = 1000, le_next = 0\<rparr>)"

definition nodes_two :: nodes where
  "nodes_two = (\<lambda>_. \<lparr>le_prev = 0, le_next = 0\<rparr>)
     (1000 := \<lparr>le_prev = 0, le_next = 2000\<rparr>, 2000 := \<lparr>le_prev = 1000, le_next = 3000\<rparr>,
      3000 := \<lparr>le_prev = 2000, le_next = 1008\<rparr>, 1008 := \<lparr>le_prev = 3000, le_next = 0\<rparr>)"

lemma elems_liststore0 [simp]: "elems (liststore0 h) = h"
  by (simp add: liststore0_def bytemem.extend_def liststore.fields_def)

lemma nodes_lists: "is_list nodes_empty 1000 []" "is_list nodes_two 1000 [2000, 3000]"
  by (simp_all add: is_list_def list_nodes_def list_head_def list_tail_def nodes_empty_def nodes_two_def)

text \<open>
  C26: Inserting a node that is not in the list: \<open>list_append\<close> puts it at the end of the sequence,
  \<open>list_push\<close> at its front; both return with the interrupt flag as it was, change nothing but list
  nodes, and change no node outside the list and the new node.
\<close>

theorem list_insert_refines:
  assumes "is_list (elems s) p xs" "e \<notin> set (list_nodes p xs)" "e \<noteq> NULL"
  shows "(\<exists>h. list_append p e s = Inr (s\<lparr>elems := h\<rparr>) \<and> is_list h p (xs @ [e]) \<and>
      (\<forall>a. a \<notin> set (list_nodes p xs) \<and> a \<noteq> e \<longrightarrow> h a = elems s a)) \<and>
    (\<exists>h. list_push p e s = Inr (s\<lparr>elems := h\<rparr>) \<and> is_list h p (e # xs) \<and>
      (\<forall>a. a \<notin> set (list_nodes p xs) \<and> a \<noteq> e \<longrightarrow> h a = elems s a))"
  using assms lq.enq_last_holds [OF assms] lq.enq_last_writes [OF assms(1)]
    lq.enq_first_holds [OF assms] lq.enq_first_writes [OF assms(1)]
    list_append_run [OF assms(1,3)] list_push_run [OF assms(1,3)] by blast

theorem list_insert_refines_witness:
  "\<exists>s. list_append 1000 4000 (liststore0 nodes_two) = Inr s \<and> is_list (elems s) 1000 [2000, 3000, 4000]"
proof -
  have "is_list (elems (liststore0 nodes_two)) 1000 [2000, 3000]"
    "4000 \<notin> set (list_nodes 1000 [2000, 3000])" "(4000 :: addr) \<noteq> NULL"
    by (simp_all add: nodes_lists list_nodes_def list_head_def list_tail_def)
  from list_insert_refines [OF this] show ?thesis by fastforce
qed

text \<open>
  C27: \<open>list_remove\<close> unlinks exactly the node given, wherever it stands in the list, and
  \<open>list_pop\<close> of a nonempty list returns its first node and removes it; both leave every node outside
  the list alone.
\<close>

theorem list_remove_refines:
  assumes "is_list (elems s) p (us @ e # vs)"
  shows "(\<exists>h. list_remove e s = Inr (s\<lparr>elems := h\<rparr>) \<and> is_list h p (us @ vs) \<and>
      (\<forall>a. a \<notin> set (list_nodes p (us @ e # vs)) \<longrightarrow> h a = elems s a)) \<and>
    (us = [] \<longrightarrow> list_pop p s = bindE (list_remove e s) (\<lambda>s'. Inr (e, s')))"
  using list_remove_in_list [OF assms] remove_is_list [OF assms] remove_frame [OF assms] list_pop_eq [of s p e vs] assms
  by auto

theorem list_remove_refines_witness:
  "\<exists>s. list_remove 3000 (liststore0 nodes_two) = Inr s \<and> is_list (elems s) 1000 [2000]"
  using list_remove_refines [of "liststore0 nodes_two" 1000 "[2000]" 3000 "[]"] nodes_lists(2) by auto

text \<open>
  The queries terminate on every well-formed list and answer about its sequence: membership,
  length (as a 32-bit number), emptiness, and for a traversal with a test the first node that
  passes, or \<open>NULL\<close>.
\<close>

theorem list_queries:
  assumes "is_list (elems s) p xs"
  shows "(e \<noteq> NULL \<longrightarrow> elem_find p e s = Inr (e \<in> set xs)) \<and>
    list_len p s = Inr (of_nat (length xs)) \<and> list_empty p s = Inr (xs = []) \<and>
    list_traversal p (\<lambda>x arg s. Inr (P x arg, s)) arg s =
       Inr (case find (\<lambda>x. P x arg) xs of None \<Rightarrow> NULL | Some x \<Rightarrow> x, s)"
  using assms by (simp add: elem_find_is_list list_len_is_list list_empty_is_list list_traversal_is_list)

theorem list_queries_witness:
  "elem_find 1000 3000 (liststore0 nodes_two) = Inr True \<and> list_len 1000 (liststore0 nodes_two) = Inr 2 \<and>
   list_traversal 1000 (\<lambda>x arg s. Inr (arg < x, s)) 2500 (liststore0 nodes_two) = Inr (3000, liststore0 nodes_two)"
  using list_queries [of "liststore0 nodes_two" 1000 "[2000, 3000]" 3000 "\<lambda>x arg. arg < x" 2500] nodes_lists(2) by simp

text \<open>
  \<open>list_pop\<close> does not check that the list is nonempty: on an empty list it unlinks the tail
  sentinel, and the head is left with a null successor.
\<close>

theorem list_pop_empty_breaks:
  assumes "is_list (elems s) p []"
  shows "\<exists>s'. list_pop p s = Inr (list_tail p, s') \<and> get_next s' (list_head p) = NULL \<and>
    (\<forall>xs. \<not> is_list (elems s') p xs)"
proof -
  let ?t = "list_tail p"
  let ?h = "upd_next (list_head p) NULL (elems s)"
  have f: "get_next s (list_head p) = ?t" "get_prev s ?t = list_head p" "get_next s ?t = NULL"
    "?t \<noteq> NULL" "list_head p \<noteq> NULL" "p \<noteq> NULL"
    using assms by (auto simp: is_list_def list_nodes_def list_head_def)
  have "list_remove ?t s = Inr (s\<lparr>elems := ?h\<rparr>)"
    using f intr_restore [of "s\<lparr>eflags := eflags s AND NOT EFLAGS_IF, elems := ?h\<rparr>" s]
    by (simp add: list_remove_def intr_disable_eq set_nodes Let_def)
  then have "list_pop p s = Inr (?t, s\<lparr>elems := ?h\<rparr>)"
    using f by (simp add: list_pop_def Let_def)
  moreover have "\<not> is_list ?h p xs" for xs
  proof
    assume l: "is_list ?h p xs"
    have "hd (xs @ [list_tail p]) = NULL"
      using is_list_first [OF l] by simp
    with l show False by (cases xs) (auto simp: is_list_def list_nodes_def)
  qed
  ultimately show ?thesis by simp
qed

theorem list_pop_empty_breaks_witness:
  "\<exists>s. list_pop 1000 (liststore0 nodes_empty) = Inr (1008, s) \<and> get_next s 1000 = NULL"
  using list_pop_empty_breaks [of "liststore0 nodes_empty" 1000] nodes_lists(1)
  by (auto simp: list_head_def list_tail_def)

end
