(* ===== verification/Thread.thy ===== *)
theory Thread
  imports Lists
begin

text \<open>
  thread/thread.c and thread/switch.S: the thread control blocks, the initialisation of a thread
  and of its kernel stack, the context switch, the scheduler, blocking and unblocking. Creation of
  threads, which allocates memory, is in \<open>Thread_Start\<close>.

  A \<open>task_struct\<close> at address \<open>t\<close> is an entry of the store \<open>tasks\<close>; its two list tags are the nodes at
  \<open>t + 32\<close> and \<open>t + 40\<close> of the node store, which are their offsets in the structure. Kernel stacks
  are words of the store \<open>stk\<close>. The context switch is modelled instruction by instruction: what
  a thread finds in its registers when it is switched in is what its stack holds.
\<close>

section \<open>State\<close>

record virtual_addr =
  vaddr_bitmap :: bitmap
  vaddr_start :: u32

datatype task_status =
  TASK_RUNNING | TASK_READY | TASK_BLOCKED | TASK_WAITING | TASK_HANGING | TASK_DIDE

record task_struct =
  self_kstack :: u32
  status :: task_status
  priority :: u8
  task_name :: "u8 list"
  task_ticks :: u8
  elapsed_ticks :: u32
  pgdir :: u32
  userprog_vaddr :: virtual_addr
  stack_magic :: u32

record threads = liststore +
  tasks :: "addr \<Rightarrow> task_struct"
  stk :: "addr \<Rightarrow> u32"
  main_thread :: addr
  thread_tag :: addr

text \<open>The two queues are global variables; their addresses are those of build/kernel.map.\<close>

definition thread_ready_list :: addr where
  "thread_ready_list = 0xc00065cc"

definition thread_all_list :: addr where
  "thread_all_list = 0xc00065dc"

definition PG_SIZE :: u32 where
  "PG_SIZE = 4096"

text \<open>Offsets of the tags in \<open>struct task_struct\<close>, and the macro \<open>elem2entry\<close> of list.h.\<close>

definition general_tag :: "addr \<Rightarrow> addr" where
  "general_tag t = t + 32"

definition all_list_tag :: "addr \<Rightarrow> addr" where
  "all_list_tag t = t + 40"

definition elem2entry :: "u32 \<Rightarrow> addr \<Rightarrow> addr" where
  "elem2entry offset elem_ptr = elem_ptr - offset"

definition upd_task ::
    "addr \<Rightarrow> (task_struct \<Rightarrow> task_struct) \<Rightarrow> 'a threads_scheme \<Rightarrow> 'a threads_scheme" where
  "upd_task t f s = s\<lparr>tasks := (tasks s)(t := f (tasks s t))\<rparr>"

section \<open>The context switch\<close>

definition running_thread :: "'a machine_scheme \<Rightarrow> addr" where
  "running_thread s = esp s AND 0xfffff000"

definition push32 :: "u32 \<Rightarrow> 'a threads_scheme \<Rightarrow> 'a threads_scheme" where
  "push32 v s = s\<lparr>esp := esp s - 4, stk := (stk s)(esp s - 4 := v)\<rparr>"

definition pop32 :: "'a threads_scheme \<Rightarrow> u32 \<times> 'a threads_scheme" where
  "pop32 s = (stk s (esp s), s\<lparr>esp := esp s + 4\<rparr>)"

definition switch_to :: "'a threads_scheme \<Rightarrow> 'a threads_scheme" where
  "switch_to s =
     (let s = push32 (esi s) s;
          s = push32 (edi s) s;
          s = push32 (ebx s) s;
          s = push32 (ebp s) s;
          cur = stk s (esp s + 20);
          s = upd_task cur (\<lambda>t. t\<lparr>self_kstack := esp s\<rparr>) s;
          nxt = stk s (esp s + 24);
          s = s\<lparr>esp := self_kstack (tasks s nxt)\<rparr>;
          (v, s) = pop32 s; s = s\<lparr>ebp := v\<rparr>;
          (v, s) = pop32 s; s = s\<lparr>ebx := v\<rparr>;
          (v, s) = pop32 s; s = s\<lparr>edi := v\<rparr>;
          (v, s) = pop32 s; s = s\<lparr>esi := v\<rparr>;
          (v, s) = pop32 s
      in s\<lparr>eip := v\<rparr>)"

text \<open>The C call \<open>switch_to(cur, next)\<close>: both arguments and the return address are pushed.\<close>

definition call_switch_to :: "addr \<Rightarrow> addr \<Rightarrow> 'a threads_scheme \<Rightarrow> 'a threads_scheme" where
  "call_switch_to cur nxt s = switch_to (push32 (link_schedule_ret s) (push32 cur (push32 nxt s)))"

section \<open>Initialisation of a thread\<close>

text \<open>
  \<open>kernel_thread\<close> is entered by the \<open>ret\<close> of \<open>switch_to\<close>: its two arguments lie above the unused
  return address on the stack. The result is the function called with its argument.
\<close>

definition kernel_thread :: "'a threads_scheme \<Rightarrow> u32 \<times> u32 \<times> 'a threads_scheme" where
  "kernel_thread s =
     (let function = stk s (esp s + 4);
          func_arg = stk s (esp s + 8)
      in (function, func_arg, snd (intr_enable s)))"

text \<open>
  \<open>self_kstack\<close> has type \<open>uint32_t*\<close>: subtracting \<open>sizeof(struct intr_stack)\<close>, which is 76, and
  \<open>sizeof(struct thread_stack)\<close>, which is 32, moves it by four times as many bytes.
\<close>

definition sizeof_intr_stack :: u32 where
  "sizeof_intr_stack = 76"

definition sizeof_thread_stack :: u32 where
  "sizeof_thread_stack = 32"

definition thread_create :: "addr \<Rightarrow> u32 \<Rightarrow> u32 \<Rightarrow> 'a threads_scheme \<Rightarrow> 'a threads_scheme" where
  "thread_create pthread function func_arg s =
     (let s = upd_task pthread (\<lambda>t. t\<lparr>self_kstack := self_kstack t - 4 * sizeof_intr_stack\<rparr>) s;
          s = upd_task pthread (\<lambda>t. t\<lparr>self_kstack := self_kstack t - 4 * sizeof_thread_stack\<rparr>) s;
          k = self_kstack (tasks s pthread)
      in s\<lparr>stk := (stk s)(k + 16 := link_kernel_thread s, k + 24 := function, k + 28 := func_arg,
                k + 12 := 0, k + 8 := 0, k + 4 := 0, k := 0)\<rparr>)"

definition zero_task :: task_struct where
  "zero_task = \<lparr>self_kstack = 0, status = TASK_RUNNING, priority = 0, task_name = replicate 16 0,
     task_ticks = 0, elapsed_ticks = 0, pgdir = 0,
     userprog_vaddr = \<lparr>vaddr_bitmap = \<lparr>btmp_bytes_len = 0, bits = 0\<rparr>, vaddr_start = 0\<rparr>,
     stack_magic = 0\<rparr>"

text \<open>
  \<open>memset(pthread, 0, sizeof(*pthread))\<close> clears the entry and both tags. \<open>strcpy\<close> copies the
  characters of the name without the terminator into the array of 16 bytes; a longer name runs over
  the end of the array.
\<close>

definition init_thread :: "addr \<Rightarrow> u8 list \<Rightarrow> u32 \<Rightarrow> 'a threads_scheme \<Rightarrow> err + 'a threads_scheme" where
  "init_thread pthread nm prio s =
     ASSERT (pthread \<noteq> NULL) ''lib/string.c'' 7 ''memset'' ''dst_ != NULL''
       (let zero = \<lparr>le_prev = NULL, le_next = NULL\<rparr>;
            s = s\<lparr>tasks := (tasks s)(pthread := zero_task),
                  elems := (elems s)(general_tag pthread := zero, all_list_tag pthread := zero)\<rparr>
        in if length nm > 16 then Inl (Out_Of_Bounds ''pthread->name'')
           else
             let s = upd_task pthread (\<lambda>t. t\<lparr>task_name := nm @ drop (length nm) (task_name t)\<rparr>) s;
                 s = (if pthread = main_thread s
                      then upd_task pthread (\<lambda>t. t\<lparr>status := TASK_RUNNING\<rparr>) s
                      else upd_task pthread (\<lambda>t. t\<lparr>status := TASK_READY\<rparr>) s)
             in Inr (upd_task pthread (\<lambda>t. t\<lparr>priority := ucast prio, self_kstack := pthread + PG_SIZE,
                       task_ticks := 0, elapsed_ticks := 0, pgdir := NULL, stack_magic := 0x12345678\<rparr>) s))"

definition make_main_thread :: "'a threads_scheme \<Rightarrow> err + 'a threads_scheme" where
  "make_main_thread s =
     (let s = s\<lparr>main_thread := running_thread s\<rparr>
      in bindE (init_thread (main_thread s) (cstr ''main'') 8 s) (\<lambda>s.
         bindE (elem_find thread_all_list (all_list_tag (main_thread s)) s) (\<lambda>found.
         ASSERT (\<not> found) ''thread/thread.c'' 96 ''make_main_thread''
           ''!elem_find(&thread_all_list, &main_thread->all_list_tag)''
           (list_append thread_all_list (all_list_tag (main_thread s)) s))))"

definition thread_init :: "'a threads_scheme \<Rightarrow> err + 'a threads_scheme" where
  "thread_init s =
     (let s = put_str (''thread_init start'' @ [CHR 0x0a]) s;
          s = list_init thread_ready_list s;
          s = list_init thread_all_list s
      in bindE (make_main_thread s) (\<lambda>s. Inr (put_str (''thread_init end'' @ [CHR 0x0a]) s)))"

section \<open>The scheduler\<close>

definition schedule :: "'a threads_scheme \<Rightarrow> err + 'a threads_scheme" where
  "schedule s =
     ASSERT (intr_get_status s = INTR_OFF) ''thread/thread.c'' 102 ''schedule''
       ''intr_get_status() == INTR_OFF''
       (let cur = running_thread s
        in bindE
          (if status (tasks s cur) = TASK_RUNNING then
             bindE (elem_find thread_ready_list (general_tag cur) s) (\<lambda>found.
             ASSERT (\<not> found) ''thread/thread.c'' 107 ''schedule''
               ''!elem_find(&thread_ready_list, &cur->general_tag)''
               (bindE (list_append thread_ready_list (general_tag cur) s) (\<lambda>s.
                  let s = upd_task cur (\<lambda>t. t\<lparr>task_ticks := priority t\<rparr>) s
                  in Inr (upd_task cur (\<lambda>t. t\<lparr>status := TASK_READY\<rparr>) s))))
           else Inr s) (\<lambda>s.
          bindE (list_empty thread_ready_list s) (\<lambda>empty.
          ASSERT (\<not> empty) ''thread/thread.c'' 117 ''schedule'' ''!list_empty(&thread_ready_list)''
            (let s = s\<lparr>thread_tag := NULL\<rparr>
             in bindE (list_pop thread_ready_list s) (\<lambda>(tag, s).
                let s = s\<lparr>thread_tag := tag\<rparr>;
                    nxt = elem2entry 32 (thread_tag s);
                    s = upd_task nxt (\<lambda>t. t\<lparr>status := TASK_RUNNING\<rparr>) s
                in Inr (call_switch_to cur nxt s))))))"

text \<open>
  \<open>thread_block\<close> up to the context switch, with the saved interrupt status; the rest of the function
  runs when the thread is switched in again.
\<close>

definition blocking_status :: "task_status \<Rightarrow> bool" where
  "blocking_status stat \<longleftrightarrow> stat = TASK_BLOCKED \<or> stat = TASK_WAITING \<or> stat = TASK_HANGING"

definition thread_block :: "task_status \<Rightarrow> 'a threads_scheme \<Rightarrow> err + intr_status \<times> 'a threads_scheme" where
  "thread_block stat s =
     ASSERT (blocking_status stat) ''thread/thread.c'' 130 ''thread_block''
       ''(stat == TASK_BLOCKED) || (stat == TASK_WAITING) || (stat == TASK_HANGING)''
       (let (old_status, s) = intr_disable s;
            cur_thread = running_thread s;
            s = upd_task cur_thread (\<lambda>t. t\<lparr>status := stat\<rparr>) s
        in bindE (schedule s) (\<lambda>s. Inr (old_status, s)))"

definition thread_block_resume :: "intr_status \<Rightarrow> 'a threads_scheme \<Rightarrow> 'a threads_scheme" where
  "thread_block_resume old_status s = snd (intr_set_status old_status s)"

definition thread_unblock :: "addr \<Rightarrow> 'a threads_scheme \<Rightarrow> err + 'a threads_scheme" where
  "thread_unblock pthread s =
     (let (old_status, s) = intr_disable s
      in ASSERT (blocking_status (status (tasks s pthread))) ''thread/thread.c'' 141 ''thread_unblock''
           ''(pthread->status == TASK_BLOCKED) || (pthread->status == TASK_WAITING) || (pthread->status == TASK_HANGING)''
           (bindE
             (if status (tasks s pthread) \<noteq> TASK_READY then
                bindE (elem_find thread_ready_list (general_tag pthread) s) (\<lambda>found.
                ASSERT (\<not> found) ''thread/thread.c'' 144 ''thread_unblock''
                  ''!elem_find(&thread_ready_list, &pthread->general_tag)''
                  (bindE (list_push thread_ready_list (general_tag pthread) s) (\<lambda>s.
                     Inr (upd_task pthread (\<lambda>t. t\<lparr>status := TASK_READY\<rparr>) s))))
              else Inr s) (\<lambda>s.
             Inr (snd (intr_set_status old_status s)))))"

section \<open>Pages and stacks of threads\<close>

text \<open>
  A thread is the page that holds its control block at the bottom and its kernel stack above. A
  saved stack pointer is good when the frame that \<open>switch_to\<close> pops lies in that page above the
  control block, which is 68 bytes long; a running thread has room when the frame that the call
  pushes does.
\<close>

definition kstack_ok :: "'a threads_scheme \<Rightarrow> addr \<Rightarrow> bool" where
  "kstack_ok s t \<longleftrightarrow> 68 \<le> unat (self_kstack (tasks s t) - t) \<and> unat (self_kstack (tasks s t) - t) + 20 < 4096"

definition stack_room :: "'a machine_scheme \<Rightarrow> bool" where
  "stack_room s \<longleftrightarrow> 68 + 28 \<le> unat (esp s - running_thread s)"

lemma running_thread_frame [simp]:
  "running_thread (s\<lparr>elems := h\<rparr>) = running_thread s" "running_thread (s\<lparr>tasks := ts\<rparr>) = running_thread s"
  "running_thread (s\<lparr>main_thread := m\<rparr>) = running_thread s" "running_thread (s\<lparr>thread_tag := m\<rparr>) = running_thread s"
  "running_thread (s\<lparr>screen := v\<rparr>) = running_thread s" "running_thread (s\<lparr>eflags := f\<rparr>) = running_thread s"
  by (simp_all add: running_thread_def)

lemma page_aligned_running [simp]: "page_aligned (running_thread s)"
proof -
  have "(esp s AND 0xfffff000) AND (0xfff :: u32) = 0"
    by (simp only: and.assoc) simp
  then show ?thesis
    by (simp only: page_aligned_def running_thread_def)
qed

lemma esp_offset: "esp s = running_thread s + (esp s AND 0xfff)"
proof -
  have "unat (esp s) = unat (running_thread s) + unat (esp s AND 0xfff)"
    by (simp add: running_thread_def unat_page_mask unat_offset_mask)
  then show ?thesis
    using unat_less_2p32 [of "esp s"] by (simp add: word_unat_eq_iff unat_add_u32)
qed

lemma esp_minus_running: "unat (esp s - running_thread s) < 4096"
proof -
  have "esp s - running_thread s = esp s AND 0xfff"
    using esp_offset [of s] by (metis add_diff_cancel_left')
  then show ?thesis by (simp add: unat_offset_mask)
qed

lemma in_page:
  assumes "page_aligned t" "unat (a - t) < 4096"
  shows "a AND 0xfffff000 = t"
  using page_mask_in_page [OF assms] by simp

lemma tag_offset:
  assumes "page_aligned t"
  shows "general_tag t AND 0xfff = 32" "all_list_tag t AND 0xfff = 40"
proof -
  obtain k where k: "unat t = 4096 * k"
    using assms by (auto simp: page_aligned_dvd dvd_def)
  have "unat (t + 32) = unat t + 32" "unat (t + 40) = unat t + 40"
    using page_aligned_room [OF assms] by (simp_all add: unat_add_u32)
  then have "unat (general_tag t AND 0xfff) = unat (32 :: u32)" "unat (all_list_tag t AND 0xfff) = unat (40 :: u32)"
    by (simp_all add: general_tag_def all_list_tag_def unat_offset_mask k)
  then show "general_tag t AND 0xfff = 32" "all_list_tag t AND 0xfff = 40"
    by (simp_all only: word_unat_eq_iff)
qed

lemma tag_not_sentinel:
  assumes "page_aligned t"
  shows "general_tag t \<notin> set (list_nodes thread_ready_list [])" "general_tag t \<noteq> NULL"
    "general_tag t \<notin> set (list_nodes thread_all_list [])"
    "all_list_tag t \<notin> set (list_nodes thread_all_list [])" "all_list_tag t \<noteq> NULL"
    "all_list_tag t \<notin> set (list_nodes thread_ready_list [])"
  using tag_offset [OF assms]
  by (auto simp: list_nodes_def list_head_def list_tail_def thread_ready_list_def thread_all_list_def)

lemma general_tag_inj [simp]: "general_tag t = general_tag u \<longleftrightarrow> t = u"
  by (simp add: general_tag_def)

lemma elem2entry_general_tag [simp]: "elem2entry 32 (general_tag t) = t"
  by (simp add: elem2entry_def general_tag_def)

lemma general_tag_in_image [simp]: "general_tag t \<in> general_tag ` ts \<longleftrightarrow> t \<in> ts"
  by auto

section \<open>What the context switch does\<close>

definition saved_ctx :: "'a threads_scheme \<Rightarrow> addr \<Rightarrow> u32 \<times> u32 \<times> u32 \<times> u32 \<times> u32" where
  "saved_ctx s t = (let k = self_kstack (tasks s t)
     in (stk s k, stk s (k + 4), stk s (k + 8), stk s (k + 12), stk s (k + 16)))"

definition cpu_ctx :: "'a machine_scheme \<Rightarrow> u32 \<times> u32 \<times> u32 \<times> u32 \<times> u32" where
  "cpu_ctx s = (ebp s, ebx s, edi s, esi s, eip s)"

definition switch_stack :: "addr \<Rightarrow> addr \<Rightarrow> 'a threads_scheme \<Rightarrow> addr \<Rightarrow> u32" where
  "switch_stack cur nxt s = (stk s)(esp s - 4 := nxt, esp s - 8 := cur, esp s - 12 := link_schedule_ret s,
     esp s - 16 := esi s, esp s - 20 := edi s, esp s - 24 := ebx s, esp s - 28 := ebp s)"

lemma push32_at: "push32 v (s\<lparr>esp := a - k, stk := m\<rparr>) = s\<lparr>esp := a - (k + 4), stk := m(a - (k + 4) := v)\<rparr>"
  by (simp add: push32_def diff_diff_eq)

lemma push32_first: "push32 v s = s\<lparr>esp := esp s - 4, stk := (stk s)(esp s - 4 := v)\<rparr>"
  by (simp add: push32_def)

lemma switch_args:
  "push32 (link_schedule_ret s) (push32 cur (push32 nxt s)) =
     s\<lparr>esp := esp s - 12, stk := (stk s)(esp s - 4 := nxt, esp s - 8 := cur, esp s - 12 := link_schedule_ret s)\<rparr>"
  by (simp add: push32_first [of nxt] push32_at)

lemma switch_to_pops:
  "(let (v, s) = pop32 s; s = s\<lparr>ebp := v\<rparr>;
        (v, s) = pop32 s; s = s\<lparr>ebx := v\<rparr>;
        (v, s) = pop32 s; s = s\<lparr>edi := v\<rparr>;
        (v, s) = pop32 s; s = s\<lparr>esi := v\<rparr>;
        (v, s) = pop32 s in s\<lparr>eip := v\<rparr>) =
    s\<lparr>ebp := stk s (esp s), ebx := stk s (esp s + 4), edi := stk s (esp s + 8), esi := stk s (esp s + 12),
      eip := stk s (esp s + 16), esp := esp s + 20\<rparr>"
  by (simp add: pop32_def Let_def add.assoc)

lemma switch_to_pushes:
  assumes "s = t\<lparr>esp := a - 12, stk := m\<rparr>"
  shows "push32 (ebp s) (push32 (ebx s) (push32 (edi s) (push32 (esi s) s))) =
     t\<lparr>esp := a - 28, stk := m(a - 16 := esi t, a - 20 := edi t, a - 24 := ebx t, a - 28 := ebp t)\<rparr>"
  by (simp add: assms push32_at)
lemma push32_regs [simp]:
  "esi (push32 v s) = esi s" "edi (push32 v s) = edi s" "ebx (push32 v s) = ebx s" "ebp (push32 v s) = ebp s"
  by (simp_all add: push32_def)

lemma esp_frame_reads:
  "(a :: u32) - 28 + 20 = a - 8" "a - 28 + 24 = a - 4"
  by simp_all

lemma switch_stack_args:
  "switch_stack cur nxt s (esp s - 8) = cur" "switch_stack cur nxt s (esp s - 4) = nxt"
  by (simp_all add: switch_stack_def)

lemma call_switch_to_eq:
  "call_switch_to cur nxt s =
     (let t = s\<lparr>stk := switch_stack cur nxt s,
                tasks := (tasks s)(cur := (tasks s cur)\<lparr>self_kstack := esp s - 28\<rparr>)\<rparr>;
          k = self_kstack (tasks t nxt)
      in t\<lparr>ebp := stk t k, ebx := stk t (k + 4), edi := stk t (k + 8), esi := stk t (k + 12),
           eip := stk t (k + 16), esp := k + 20\<rparr>)"
proof -
  let ?m = "(stk s)(esp s - 4 := nxt, esp s - 8 := cur, esp s - 12 := link_schedule_ret s)"
  let ?s = "s\<lparr>esp := esp s - 12, stk := ?m\<rparr>"
  have "push32 (ebp ?s) (push32 (ebx ?s) (push32 (edi ?s) (push32 (esi ?s) ?s))) =
      s\<lparr>esp := esp s - 28, stk := switch_stack cur nxt s\<rparr>"
    by (subst switch_to_pushes [OF refl]) (simp add: switch_stack_def)
  then have "switch_to ?s =
      (let p = s\<lparr>esp := esp s - 28, stk := switch_stack cur nxt s\<rparr>;
           t = upd_task cur (\<lambda>t. t\<lparr>self_kstack := esp s - 28\<rparr>) p;
           t = t\<lparr>esp := self_kstack (tasks t nxt)\<rparr>
       in t\<lparr>ebp := stk t (esp t), ebx := stk t (esp t + 4), edi := stk t (esp t + 8), esi := stk t (esp t + 12),
          eip := stk t (esp t + 16), esp := esp t + 20\<rparr>)"
    unfolding switch_to_def Let_def push32_regs
    unfolding switch_to_pops [unfolded Let_def]
    by (simp add: upd_task_def esp_frame_reads switch_stack_args)
  then show ?thesis
    unfolding call_switch_to_def switch_args
    by (simp add: Let_def upd_task_def)
qed

lemma below_esp_in_page:
  assumes "stack_room s" "unat k \<le> 28"
  shows "(esp s - k) AND 0xfffff000 = running_thread s" "unat (esp s - k - running_thread s) < 4096"
proof -
  let ?d = "esp s - running_thread s"
  have "unat k \<le> unat ?d"
    using assms by (simp add: stack_room_def)
  then have "unat (?d - k) = unat ?d - unat k"
    by (rule unat_diff_u32)
  then have "unat (?d - k) < 4096"
    using esp_minus_running [of s] by linarith
  then show b: "unat (esp s - k - running_thread s) < 4096"
    by (simp add: diff_right_commute)
  then show "(esp s - k) AND 0xfffff000 = running_thread s"
    by (intro in_page) simp_all
qed

lemma switch_stack_other:
  assumes "stack_room s" "page_aligned u" "u \<noteq> running_thread s" "unat (a - u) < 4096"
  shows "switch_stack cur nxt s a = stk s a"
proof -
  have "a AND 0xfffff000 = u"
    using assms(2,4) by (rule in_page)
  then have "a \<noteq> esp s - k" if "unat k \<le> 28" for k
    using below_esp_in_page(1) [OF assms(1) that] assms(3) by auto
  then show ?thesis
    by (simp add: switch_stack_def)
qed

lemma frame_in_page:
  assumes "kstack_ok s t" "unat k \<le> 20"
  shows "unat (self_kstack (tasks s t) + k - t) < 4096"
proof -
  have "self_kstack (tasks s t) + k - t = (self_kstack (tasks s t) - t) + k"
    by simp
  moreover have "unat ((self_kstack (tasks s t) - t) + k) < 4096"
    using assms by (subst unat_add_u32) (simp add: kstack_ok_def)
  ultimately show ?thesis by metis
qed

text \<open>The three halves of a switch: who runs, what is restored, what is saved.\<close>

lemma tasks_switch:
  "tasks (call_switch_to cur nxt s) = (tasks s)(cur := (tasks s cur)\<lparr>self_kstack := esp s - 28\<rparr>)"
  and stk_switch: "stk (call_switch_to cur nxt s) = switch_stack cur nxt s"
  and elems_switch [simp]: "elems (call_switch_to cur nxt s) = elems s"
  and eflags_switch [simp]: "eflags (call_switch_to cur nxt s) = eflags s"
  and intr_switch [simp]: "intr_get_status (call_switch_to cur nxt s) = intr_get_status s"
  by (simp_all add: call_switch_to_eq Let_def intr_get_status_def)

lemma esp_switch: "nxt \<noteq> cur \<Longrightarrow> esp (call_switch_to cur nxt s) = self_kstack (tasks s nxt) + 20"
  and esp_switch_self: "esp (call_switch_to cur cur s) = esp s - 8"
  by (simp_all add: call_switch_to_eq Let_def)

lemma running_after_switch:
  assumes "cur = running_thread s" "stack_room s" "page_aligned nxt" "nxt \<noteq> cur \<Longrightarrow> kstack_ok s nxt"
  shows "running_thread (call_switch_to cur nxt s) = nxt"
proof (cases "nxt = cur")
  case True
  then show ?thesis
    using below_esp_in_page(1) [OF assms(2), of 8] assms(1)
    by (simp add: running_thread_def esp_switch_self)
next
  case False
  then have "unat (self_kstack (tasks s nxt) + 20 - nxt) < 4096"
    using assms(4) by (intro frame_in_page) simp_all
  with assms(3) have "(self_kstack (tasks s nxt) + 20) AND 0xfffff000 = nxt"
    by (rule in_page)
  with False show ?thesis
    by (simp add: running_thread_def esp_switch)
qed

lemma switch_restores:
  assumes "cur = running_thread s" "stack_room s" "page_aligned nxt" "nxt \<noteq> cur" "kstack_ok s nxt"
  shows "cpu_ctx (call_switch_to cur nxt s) = saved_ctx s nxt"
proof -
  let ?k = "self_kstack (tasks s nxt)"
  have *: "switch_stack cur nxt s (?k + j) = stk s (?k + j)" if "unat j \<le> 20" for j
    using assms that by (intro switch_stack_other [where u = nxt] frame_in_page) auto
  show ?thesis
    using * [of 0] assms(4)
    by (simp add: cpu_ctx_def saved_ctx_def call_switch_to_eq Let_def *)
qed

lemma saved_offsets:
  "(a :: u32) - 28 + 4 = a - 24" "a - 28 + 8 = a - 20" "a - 28 + 12 = a - 16" "a - 28 + 16 = a - 12"
  by simp_all

lemma switch_saves:
  "saved_ctx (call_switch_to cur nxt s) cur = (ebp s, ebx s, edi s, esi s, link_schedule_ret s)"
  by (simp add: saved_ctx_def tasks_switch stk_switch saved_offsets Let_def)
     (simp add: switch_stack_def)

lemma switch_kstack_cur:
  assumes "cur = running_thread s" "stack_room s"
  shows "kstack_ok (call_switch_to cur nxt s) cur"
proof -
  have "unat (esp s - cur - 28) = unat (esp s - cur) - 28"
    using assms by (subst unat_diff_u32) (auto simp: stack_room_def)
  then show ?thesis
    using esp_minus_running [of s] assms
    by (auto simp: kstack_ok_def tasks_switch diff_right_commute stack_room_def)
qed

lemma switch_other:
  assumes "cur = running_thread s" "stack_room s" "page_aligned u" "u \<noteq> cur" "kstack_ok s u"
  shows "saved_ctx (call_switch_to cur nxt s) u = saved_ctx s u" "kstack_ok (call_switch_to cur nxt s) u"
proof -
  let ?k = "self_kstack (tasks s u)"
  have *: "switch_stack cur nxt s (?k + j) = stk s (?k + j)" if "unat j \<le> 20" for j
    using assms that by (intro switch_stack_other [where u = u] frame_in_page) auto
  show "saved_ctx (call_switch_to cur nxt s) u = saved_ctx s u"
    using * [of 0] assms(4) by (simp add: saved_ctx_def tasks_switch stk_switch Let_def *)
  show "kstack_ok (call_switch_to cur nxt s) u"
    using assms(4,5) by (simp add: kstack_ok_def tasks_switch)
qed

section \<open>New threads\<close>

text \<open>
  A thread that has not run yet: its stack holds the frame that \<open>thread_create\<close> builds, 3664 bytes
  above its page.
\<close>

definition entry_frame :: "'a threads_scheme \<Rightarrow> addr \<Rightarrow> u32 \<Rightarrow> u32 \<Rightarrow> bool" where
  "entry_frame s t function func_arg \<longleftrightarrow>
     self_kstack (tasks s t) = t + 3664 \<and> saved_ctx s t = (0, 0, 0, 0, link_kernel_thread s) \<and>
     stk s (t + 3688) = function \<and> stk s (t + 3692) = func_arg"

definition started_task :: "addr \<Rightarrow> u8 list \<Rightarrow> u32 \<Rightarrow> task_status \<Rightarrow> task_struct" where
  "started_task t nm prio st = zero_task\<lparr>task_name := nm @ replicate (16 - length nm) 0, status := st,
     priority := ucast prio, self_kstack := t + PG_SIZE, stack_magic := 0x12345678\<rparr>"

lemma init_thread_eq:
  assumes "t \<noteq> NULL" "length nm \<le> 16"
  shows "init_thread t nm prio s = Inr (s\<lparr>
     elems := (elems s)(general_tag t := \<lparr>le_prev = NULL, le_next = NULL\<rparr>, all_list_tag t := \<lparr>le_prev = NULL, le_next = NULL\<rparr>),
     tasks := (tasks s)(t := started_task t nm prio (if t = main_thread s then TASK_RUNNING else TASK_READY))\<rparr>)"
  using assms by (simp add: init_thread_def upd_task_def Let_def started_task_def zero_task_def)

lemma init_thread_long_name:
  "t \<noteq> NULL \<Longrightarrow> 16 < length nm \<Longrightarrow> init_thread t nm prio s = Inl (Out_Of_Bounds ''pthread->name'')"
  by (simp add: init_thread_def Let_def)

lemma thread_create_entry_frame:
  assumes "self_kstack (tasks s t) = t + PG_SIZE"
  shows "entry_frame (thread_create t function func_arg s) t function func_arg"
  using assms
  by (simp add: entry_frame_def saved_ctx_def thread_create_def upd_task_def Let_def PG_SIZE_def
      sizeof_intr_stack_def sizeof_thread_stack_def)

lemma entry_frame_kstack: "entry_frame s t function func_arg \<Longrightarrow> kstack_ok s t"
  by (simp add: entry_frame_def kstack_ok_def)

lemma entry_frame_switch:
  assumes "entry_frame s t f a" "cur = running_thread s" "stack_room s" "page_aligned t" "t \<noteq> cur"
  shows "entry_frame (call_switch_to cur nxt s) t f a"
proof -
  have "switch_stack cur nxt s (t + k) = stk s (t + k)" if "unat k < 4096" for k
    using assms that by (intro switch_stack_other [where u = t]) auto
  moreover have "link_kernel_thread (call_switch_to cur nxt s) = link_kernel_thread s"
    by (simp add: call_switch_to_eq Let_def)
  ultimately show ?thesis
    using assms switch_other(1) [of cur s t nxt] entry_frame_kstack [OF assms(1)]
    by (simp add: entry_frame_def tasks_switch stk_switch)
qed

lemma switch_enters_thread:
  assumes "entry_frame s t f a" "cur = running_thread s" "stack_room s" "page_aligned t" "t \<noteq> cur"
  defines "s' \<equiv> call_switch_to cur t s"
  shows "running_thread s' = t" "eip s' = link_kernel_thread s'"
    "fst (kernel_thread s') = f" "fst (snd (kernel_thread s')) = a"
    "intr_get_status (snd (snd (kernel_thread s'))) = INTR_ON"
proof -
  have f: "entry_frame s' t f a"
    using assms by (simp add: entry_frame_switch)
  have k: "kstack_ok s t"
    using assms(1) by (rule entry_frame_kstack)
  show "running_thread s' = t"
    using assms k by (simp add: running_after_switch)
  have "esp s' = t + 3684"
    using assms(1,5) by (simp add: s'_def esp_switch entry_frame_def)
  then show "fst (kernel_thread s') = f" "fst (snd (kernel_thread s')) = a"
    using f by (simp_all add: kernel_thread_def entry_frame_def add.commute)
  have "cpu_ctx s' = saved_ctx s t"
    unfolding s'_def using assms k by (intro switch_restores) auto
  moreover have "link_kernel_thread s' = link_kernel_thread s"
    by (simp add: s'_def call_switch_to_eq Let_def)
  ultimately show "eip s' = link_kernel_thread s'"
    using assms(1) by (simp add: entry_frame_def cpu_ctx_def)
  show "intr_get_status (snd (snd (kernel_thread s'))) = INTR_ON"
    by (simp add: kernel_thread_def Let_def intr_enable_eq intr_get_status_bit bit_simps bit_EFLAGS_IF)
qed

section \<open>The ready queue\<close>

definition ready_inv :: "'a threads_scheme \<Rightarrow> addr list \<Rightarrow> bool" where
  "ready_inv s rs \<longleftrightarrow>
     is_list (elems s) thread_ready_list (map general_tag rs) \<and>
     (\<forall>t \<in> set rs. page_aligned t \<and> kstack_ok s t \<and> status (tasks s t) = TASK_READY)"

lemma ready_list: "ready_inv s rs \<Longrightarrow> is_list (elems s) thread_ready_list (map general_tag rs)"
  by (simp add: ready_inv_def)

lemma ready_distinct: "ready_inv s rs \<Longrightarrow> distinct rs"
  using is_list_distinct by (fastforce simp: ready_inv_def distinct_map)

lemma ready_footprint:
  "page_aligned t \<Longrightarrow> t \<notin> set rs \<Longrightarrow> general_tag t \<notin> set (list_nodes thread_ready_list (map general_tag rs))"
  using tag_not_sentinel(1) [of t] by (auto simp: set_list_nodes)

text \<open>The states in between: the running thread put back in the queue, the first thread taken out.\<close>

definition preempted :: "addr \<Rightarrow> 'a threads_scheme \<Rightarrow> 'a threads_scheme" where
  "preempted cur s = s\<lparr>elems := h_append thread_ready_list (general_tag cur) (elems s),
     tasks := (tasks s)(cur := (tasks s cur)\<lparr>task_ticks := priority (tasks s cur), status := TASK_READY\<rparr>)\<rparr>"

definition dispatched :: "addr \<Rightarrow> 'a threads_scheme \<Rightarrow> 'a threads_scheme" where
  "dispatched nxt s = s\<lparr>elems := h_pop thread_ready_list (elems s), thread_tag := general_tag nxt,
     tasks := (tasks s)(nxt := (tasks s nxt)\<lparr>status := TASK_RUNNING\<rparr>)\<rparr>"

lemma stage_regs [simp]:
  "esp (preempted cur s) = esp s" "esp (dispatched nxt s) = esp s"
  "running_thread (preempted cur s) = running_thread s" "running_thread (dispatched nxt s) = running_thread s"
  "stack_room (preempted cur s) = stack_room s" "stack_room (dispatched nxt s) = stack_room s"
  "stk (preempted cur s) = stk s" "stk (dispatched nxt s) = stk s"
  "link_schedule_ret (preempted cur s) = link_schedule_ret s" "link_schedule_ret (dispatched nxt s) = link_schedule_ret s"
  "cpu_ctx (preempted cur s) = cpu_ctx s" "cpu_ctx (dispatched nxt s) = cpu_ctx s"
  by (simp_all add: preempted_def dispatched_def running_thread_def stack_room_def cpu_ctx_def)

lemma stage_kstack [simp]:
  "self_kstack (tasks (preempted cur s) t) = self_kstack (tasks s t)"
  "self_kstack (tasks (dispatched nxt s) t) = self_kstack (tasks s t)"
  "kstack_ok (preempted cur s) t = kstack_ok s t" "kstack_ok (dispatched nxt s) t = kstack_ok s t"
  "saved_ctx (preempted cur s) t = saved_ctx s t" "saved_ctx (dispatched nxt s) t = saved_ctx s t"
  by (simp_all add: preempted_def dispatched_def kstack_ok_def saved_ctx_def)

lemma schedule_dispatch:
  assumes "ready_inv s (nxt # rs)" "intr_get_status s = INTR_OFF" "status (tasks s (running_thread s)) \<noteq> TASK_RUNNING"
  shows "schedule s = Inr (call_switch_to (running_thread s) nxt (dispatched nxt s))"
  using assms(2,3) ready_list [OF assms(1)] is_list_distinct [OF ready_list [OF assms(1)]]
  by (simp add: schedule_def list_empty_is_list list_pop_run Let_def upd_task_def dispatched_def)

lemma schedule_none_ready:
  assumes "ready_inv s []" "intr_get_status s = INTR_OFF" "status (tasks s (running_thread s)) \<noteq> TASK_RUNNING"
  shows "schedule s = Inl (Panic ''thread/thread.c'' 117 ''schedule'' ''!list_empty(&thread_ready_list)'')"
  using assms(2,3) ready_list [OF assms(1)]
  by (simp add: schedule_def list_empty_is_list Let_def)

lemma preempted_ready:
  assumes "ready_inv s rs" "cur \<notin> set rs" "page_aligned cur"
  shows "is_list (elems (preempted cur s)) thread_ready_list (map general_tag (rs @ [cur]))"
    "\<forall>t \<in> set (rs @ [cur]). page_aligned t \<and> status (tasks (preempted cur s) t) = TASK_READY"
proof -
  show "is_list (elems (preempted cur s)) thread_ready_list (map general_tag (rs @ [cur]))"
    using assms ready_list [OF assms(1)] ready_footprint tag_not_sentinel(2)
    by (simp add: preempted_def lq.enq_last_holds)
  show "\<forall>t \<in> set (rs @ [cur]). page_aligned t \<and> status (tasks (preempted cur s) t) = TASK_READY"
    using assms by (auto simp: preempted_def ready_inv_def)
qed

lemma schedule_preempt:
  assumes "ready_inv s rs" "intr_get_status s = INTR_OFF" "cur = running_thread s"
    "status (tasks s cur) = TASK_RUNNING"
  defines "nxt \<equiv> hd (rs @ [cur])"
  shows "cur \<notin> set rs" "schedule s = Inr (call_switch_to cur nxt (dispatched nxt (preempted cur s)))"
proof -
  show c: "cur \<notin> set rs"
    using assms(1,4) by (auto simp: ready_inv_def)
  have a: "page_aligned cur"
    using assms(3) by simp
  obtain q where q: "rs @ [cur] = nxt # q"
    unfolding nxt_def by (cases rs) auto
  then have l: "is_list (elems (preempted cur s)) thread_ready_list (general_tag nxt # map general_tag q)"
    using preempted_ready(1) [OF assms(1) c a] by (metis list.simps(9))
  have "elem_find thread_ready_list (general_tag cur) s = Inr False"
    using c a elem_find_is_list [OF ready_list [OF assms(1)]] tag_not_sentinel(2) by simp
  moreover have "list_append thread_ready_list (general_tag cur) s =
      Inr (s\<lparr>elems := h_append thread_ready_list (general_tag cur) (elems s)\<rparr>)"
    using a list_append_run [OF ready_list [OF assms(1)]] tag_not_sentinel(2) by simp
  ultimately have "schedule s =
      bindE (list_empty thread_ready_list (preempted cur s)) (\<lambda>empty.
        ASSERT (\<not> empty) ''thread/thread.c'' 117 ''schedule'' ''!list_empty(&thread_ready_list)''
          (bindE (list_pop thread_ready_list ((preempted cur s)\<lparr>thread_tag := NULL\<rparr>)) (\<lambda>(tag, s).
             let s = s\<lparr>thread_tag := tag\<rparr>;
                 nxt = elem2entry 32 (thread_tag s);
                 s = upd_task nxt (\<lambda>t. t\<lparr>status := TASK_RUNNING\<rparr>) s
             in Inr (call_switch_to cur nxt s))))"
    using assms(2-4) by (simp add: schedule_def Let_def upd_task_def preempted_def)
  also have "\<dots> = Inr (call_switch_to cur nxt (dispatched nxt (preempted cur s)))"
    using l by (simp add: list_empty_is_list list_pop_run Let_def upd_task_def dispatched_def)
  finally show "schedule s = Inr (call_switch_to cur nxt (dispatched nxt (preempted cur s)))" .
qed

section \<open>What scheduling does\<close>

text \<open>
  The part that both cases share: \<open>nxt\<close> is at the head of a queue of ready threads, every queued
  thread other than the running one has a good stack.
\<close>

lemma switch_dispatched:
  assumes "is_list (elems s) thread_ready_list (map general_tag (nxt # q))"
    "\<forall>t \<in> set (nxt # q). page_aligned t \<and> status (tasks s t) = TASK_READY \<and> (t \<noteq> cur \<longrightarrow> kstack_ok s t)"
    "cur = running_thread s" "stack_room s"
  defines "s' \<equiv> call_switch_to cur nxt (dispatched nxt s)"
  shows "running_thread s' = nxt" "ready_inv s' q" "status (tasks s' nxt) = TASK_RUNNING"
    "\<And>t. t \<noteq> nxt \<Longrightarrow> status (tasks s' t) = status (tasks s t)" "nxt \<notin> set q"
    "cpu_ctx s' = (if nxt = cur then (ebp s, ebx s, edi s, esi s, link_schedule_ret s) else saved_ctx s nxt)"
    "kstack_ok s' cur" "saved_ctx s' cur = (ebp s, ebx s, edi s, esi s, link_schedule_ret s)"
proof -
  show r: "running_thread s' = nxt"
    unfolding s'_def using assms(2-4) by (intro running_after_switch) auto
  show n: "nxt \<notin> set q"
    using is_list_distinct [OF assms(1)] by auto
  have st: "status (tasks s' t) = (if t = nxt then TASK_RUNNING else status (tasks s t))" for t
    by (simp add: s'_def tasks_switch dispatched_def)
  then show "status (tasks s' nxt) = TASK_RUNNING" "\<And>t. t \<noteq> nxt \<Longrightarrow> status (tasks s' t) = status (tasks s t)"
    by simp_all
  show kc: "kstack_ok s' cur"
    unfolding s'_def using assms(3,4) by (intro switch_kstack_cur) auto
  have k: "kstack_ok s' t" if "t \<in> set q" for t
  proof (cases "t = cur")
    case False
    with that assms(2-4) show ?thesis
      unfolding s'_def by (intro switch_other(2)) auto
  qed (simp add: kc)
  have "is_list (elems s') thread_ready_list (map general_tag q)"
    using lq.deq_holds [of "elems s" thread_ready_list "general_tag nxt" "map general_tag q"] assms(1)
    by (simp add: s'_def dispatched_def)
  then show "ready_inv s' q"
    using k n assms(2) st by (auto simp: ready_inv_def)
  show c: "saved_ctx s' cur = (ebp s, ebx s, edi s, esi s, link_schedule_ret s)"
    by (simp add: s'_def switch_saves) (simp add: dispatched_def)
  show "cpu_ctx s' = (if nxt = cur then (ebp s, ebx s, edi s, esi s, link_schedule_ret s) else saved_ctx s nxt)"
  proof (cases "nxt = cur")
    case True
    then have "cpu_ctx s' = saved_ctx s' cur"
      by (simp add: s'_def cpu_ctx_def saved_ctx_def call_switch_to_eq Let_def)
    with True c show ?thesis by simp
  next
    case False
    with assms(2-4) show ?thesis
      unfolding s'_def by (subst switch_restores) auto
  qed
qed

text \<open>A list beside the ready queue is not touched by scheduling.\<close>

definition apart :: "addr \<Rightarrow> addr list \<Rightarrow> addr set \<Rightarrow> bool" where
  "apart p xs A \<longleftrightarrow> set (list_nodes p xs) \<inter> A = {}"

abbreviation ready_nodes :: "addr list \<Rightarrow> addr set" where
  "ready_nodes rs \<equiv> set (list_nodes thread_ready_list (map general_tag rs))"

lemma schedule_preempt_frame:
  assumes "ready_inv s rs" "intr_get_status s = INTR_OFF" "cur = running_thread s"
    "status (tasks s cur) = TASK_RUNNING" "is_list (elems s) p xs" "apart p xs (insert (general_tag cur) (ready_nodes rs))"
    "schedule s = Inr s'"
  shows "is_list (elems s') p xs"
proof -
  have c: "cur \<notin> set rs" "page_aligned cur"
    using schedule_preempt(1) [OF assms(1-4)] assms(3) by auto
  have "is_list (h_pop thread_ready_list (h_append thread_ready_list (general_tag cur) (elems s))) p xs"
    using assms(5,6) c ready_list [OF assms(1)] ready_footprint tag_not_sentinel(2)
    by (intro lq.rotate_other [where xs = "map general_tag rs"]) (auto simp: apart_def)
  then show ?thesis
    using schedule_preempt(2) [OF assms(1-4)] assms(7) by (auto simp: dispatched_def preempted_def)
qed

lemma schedule_dispatch_frame:
  assumes "ready_inv s (nxt # rs)" "intr_get_status s = INTR_OFF" "status (tasks s (running_thread s)) \<noteq> TASK_RUNNING"
    "is_list (elems s) p xs" "apart p xs (ready_nodes (nxt # rs))" "schedule s = Inr s'"
  shows "is_list (elems s') p xs"
proof -
  have "is_list (h_pop thread_ready_list (elems s)) p xs"
    using assms(4,5) ready_list [OF assms(1)]
    by (intro lq.deq_other [where x = "general_tag nxt" and xs = "map general_tag rs"]) (auto simp: apart_def)
  then show ?thesis
    using schedule_dispatch [OF assms(1-3)] assms(6) by (auto simp: dispatched_def)
qed

definition suspended :: "task_status \<Rightarrow> 'a threads_scheme \<Rightarrow> 'a threads_scheme" where
  "suspended stat s = s\<lparr>eflags := eflags s AND NOT EFLAGS_IF,
     tasks := (tasks s)(running_thread s := (tasks s (running_thread s))\<lparr>status := stat\<rparr>)\<rparr>"

lemma suspended_simps [simp]:
  "esp (suspended stat s) = esp s" "stk (suspended stat s) = stk s" "elems (suspended stat s) = elems s"
  "running_thread (suspended stat s) = running_thread s" "stack_room (suspended stat s) = stack_room s"
  "kstack_ok (suspended stat s) t = kstack_ok s t" "saved_ctx (suspended stat s) t = saved_ctx s t"
  "status (tasks (suspended stat s) t) = (if t = running_thread s then stat else status (tasks s t))"
  "intr_get_status (suspended stat s) = INTR_OFF"
  by (simp_all add: suspended_def running_thread_def stack_room_def kstack_ok_def saved_ctx_def
      intr_get_status_bit bit_simps bit_EFLAGS_IF)

lemma suspended_ready:
  "ready_inv s rs \<Longrightarrow> running_thread s \<notin> set rs \<Longrightarrow> ready_inv (suspended stat s) rs"
  by (auto simp: ready_inv_def)

lemma thread_block_unfold:
  "blocking_status stat \<Longrightarrow>
     thread_block stat s = bindE (schedule (suspended stat s)) (\<lambda>s'. Inr (intr_get_status s, s'))"
  by (simp add: thread_block_def intr_disable_eq upd_task_def suspended_def Let_def running_thread_def)

lemma thread_block_eq:
  assumes "ready_inv s (nxt # rs)" "running_thread s \<notin> set (nxt # rs)" "blocking_status stat"
  shows "thread_block stat s =
    Inr (intr_get_status s, call_switch_to (running_thread s) nxt (dispatched nxt (suspended stat s)))"
proof -
  have "stat \<noteq> TASK_RUNNING"
    using assms(3) by (auto simp: blocking_status_def)
  then have "schedule (suspended stat s) =
      Inr (call_switch_to (running_thread s) nxt (dispatched nxt (suspended stat s)))"
    using schedule_dispatch [OF suspended_ready [OF assms(1,2)]] by simp
  with assms(3) show ?thesis by (simp add: thread_block_unfold)
qed

lemma thread_block_run:
  assumes "ready_inv s (nxt # rs)" "running_thread s \<notin> set (nxt # rs)" "blocking_status stat" "stack_room s"
  defines "s' \<equiv> call_switch_to (running_thread s) nxt (dispatched nxt (suspended stat s))"
  shows "thread_block stat s = Inr (intr_get_status s, s')" "running_thread s' = nxt" "ready_inv s' rs"
    "status (tasks s' t) = (if t = nxt then TASK_RUNNING else if t = running_thread s then stat else status (tasks s t))"
    "cpu_ctx s' = saved_ctx s nxt" "intr_get_status s' = INTR_OFF" "elems s' = h_pop thread_ready_list (elems s)"
    "kstack_ok s' (running_thread s)"
    "page_aligned t \<Longrightarrow> t \<noteq> running_thread s \<Longrightarrow> kstack_ok s t \<Longrightarrow> kstack_ok s' t"
proof -
  let ?c = "running_thread s" and ?u = "suspended stat s"
  have u: "is_list (elems ?u) thread_ready_list (map general_tag (nxt # rs))"
    "\<forall>t \<in> set (nxt # rs). page_aligned t \<and> status (tasks ?u t) = TASK_READY \<and> (t \<noteq> ?c \<longrightarrow> kstack_ok ?u t)"
    "?c = running_thread ?u" "stack_room ?u"
    using assms(1,2,4) by (auto simp: ready_inv_def)
  note sw = switch_dispatched [OF u, folded s'_def]
  show "thread_block stat s = Inr (intr_get_status s, s')"
    unfolding s'_def using assms(1-3) by (rule thread_block_eq)
  show "running_thread s' = nxt" "ready_inv s' rs" "kstack_ok s' ?c"
    using sw(1,2,7) by simp_all
  show "status (tasks s' t) = (if t = nxt then TASK_RUNNING else if t = ?c then stat else status (tasks s t))"
    using sw(3) sw(4) [of t] by simp
  show "cpu_ctx s' = saved_ctx s nxt"
    using sw(6) assms(2) by (auto split: if_splits)
  show "intr_get_status s' = INTR_OFF"
    by (simp add: s'_def dispatched_def suspended_def intr_get_status_bit bit_simps bit_EFLAGS_IF)
  show "elems s' = h_pop thread_ready_list (elems s)"
    by (simp add: s'_def dispatched_def)
  show "kstack_ok s' t" if "page_aligned t" "t \<noteq> ?c" "kstack_ok s t"
    using switch_other(2) [of ?c "dispatched nxt ?u" t nxt, folded s'_def] that assms(4) by simp
qed

lemma thread_block_bad_status:
  assumes "\<not> blocking_status stat"
  shows "\<exists>cond. thread_block stat s = Inl (Panic ''thread/thread.c'' 130 ''thread_block'' cond)"
  using assms by (simp add: thread_block_def)

lemma thread_block_none_ready:
  assumes "ready_inv s []" "blocking_status stat"
  shows "thread_block stat s = Inl (Panic ''thread/thread.c'' 117 ''schedule'' ''!list_empty(&thread_ready_list)'')"
proof -
  have "stat \<noteq> TASK_RUNNING"
    using assms(2) by (auto simp: blocking_status_def)
  then show ?thesis
    using assms(2) schedule_none_ready [OF suspended_ready [OF assms(1)]]
    by (simp add: thread_block_unfold)
qed

text \<open>Waking a thread puts it at the head of the ready queue.\<close>

definition woken :: "addr \<Rightarrow> 'a threads_scheme \<Rightarrow> 'a threads_scheme" where
  "woken t s = s\<lparr>elems := h_push thread_ready_list (general_tag t) (elems s),
     tasks := (tasks s)(t := (tasks s t)\<lparr>status := TASK_READY\<rparr>)\<rparr>"

lemma woken_simps [simp]:
  "esp (woken t s) = esp s" "stk (woken t s) = stk s" "eflags (woken t s) = eflags s"
  "running_thread (woken t s) = running_thread s" "stack_room (woken t s) = stack_room s"
  "kstack_ok (woken t s) u = kstack_ok s u" "saved_ctx (woken t s) u = saved_ctx s u"
  "status (tasks (woken t s) u) = (if u = t then TASK_READY else status (tasks s u))"
  "intr_get_status (woken t s) = intr_get_status s"
  by (simp_all add: woken_def running_thread_def stack_room_def kstack_ok_def saved_ctx_def
      intr_get_status_def)

lemma thread_unblock_eq:
  assumes "is_list (elems s) thread_ready_list (map general_tag rs)" "t \<notin> set rs" "page_aligned t"
    "blocking_status (status (tasks s t))"
  shows "thread_unblock t s = Inr (woken t s)"
proof -
  let ?s = "s\<lparr>eflags := eflags s AND NOT EFLAGS_IF\<rparr>"
  have "status (tasks s t) \<noteq> TASK_READY"
    using assms(4) by (auto simp: blocking_status_def)
  moreover have "elem_find thread_ready_list (general_tag t) ?s = Inr False"
    using assms elem_find_is_list [of ?s thread_ready_list "map general_tag rs"] tag_not_sentinel(2) by simp
  moreover have "list_push thread_ready_list (general_tag t) ?s =
      Inr (?s\<lparr>elems := h_push thread_ready_list (general_tag t) (elems s)\<rparr>)"
    using assms list_push_run [of ?s thread_ready_list "map general_tag rs"] tag_not_sentinel(2) by simp
  ultimately have "thread_unblock t s = Inr (snd (intr_set_status (intr_get_status s) (woken t ?s)))"
    using assms(4) by (simp add: thread_unblock_def intr_disable_eq Let_def upd_task_def woken_def)
  also have "snd (intr_set_status (intr_get_status s) (woken t ?s)) = (woken t ?s)\<lparr>eflags := eflags s\<rparr>"
    by (rule intr_restore) simp
  also have "\<dots> = woken t s"
    by (simp add: woken_def)
  finally show ?thesis .
qed

lemma thread_unblock_ready_panics:
  assumes "\<not> blocking_status (status (tasks s t))"
  shows "\<exists>cond. thread_unblock t s = Inl (Panic ''thread/thread.c'' 141 ''thread_unblock'' cond)"
  using assms by (simp add: thread_unblock_def intr_disable_eq)

lemma woken_ready:
  assumes "ready_inv s rs" "t \<notin> set rs" "page_aligned t" "kstack_ok s t"
  shows "ready_inv (woken t s) (t # rs)"
proof -
  have "is_list (elems (woken t s)) thread_ready_list (general_tag t # map general_tag rs)"
    using assms ready_list [OF assms(1)] ready_footprint tag_not_sentinel(2)
    by (simp add: woken_def lq.enq_first_holds)
  with assms show ?thesis
    by (auto simp: ready_inv_def)
qed

section \<open>Start of the thread system\<close>

lemma lists_apart:
  "set (list_nodes thread_ready_list []) \<inter> set (list_nodes thread_all_list []) = {}"
  "thread_ready_list \<noteq> NULL" "list_tail thread_ready_list \<noteq> NULL"
  "thread_all_list \<noteq> NULL" "list_tail thread_all_list \<noteq> NULL"
  by (simp_all add: set_list_nodes list_head_def list_tail_def thread_ready_list_def thread_all_list_def)

lemma tags_zeroed:
  assumes "is_list h p xs" "general_tag t \<notin> set (list_nodes p xs)" "all_list_tag t \<notin> set (list_nodes p xs)"
  shows "is_list (h(general_tag t := z, all_list_tag t := z')) p xs"
  by (rule lq.holds_frame [OF assms(1)]) (use assms in auto)

lemma make_main_thread_eq:
  assumes "is_list (elems s) thread_ready_list []" "is_list (elems s) thread_all_list []" "running_thread s \<noteq> NULL"
  shows "\<exists>h. make_main_thread s = Inr (s\<lparr>main_thread := running_thread s,
        tasks := (tasks s)(running_thread s := started_task (running_thread s) (cstr ''main'') 8 TASK_RUNNING), elems := h\<rparr>) \<and>
      is_list h thread_ready_list [] \<and> is_list h thread_all_list [all_list_tag (running_thread s)]"
proof -
  define m where "m = running_thread s"
  let ?z = "\<lparr>le_prev = NULL, le_next = NULL\<rparr>"
  define h where "h = (elems s)(general_tag m := ?z, all_list_tag m := ?z)"
  define t where "t = s\<lparr>main_thread := m, elems := h, tasks := (tasks s)(m := started_task m (cstr ''main'') 8 TASK_RUNNING)\<rparr>"
  have tags: "page_aligned m" "all_list_tag m \<noteq> NULL" "all_list_tag m \<notin> set (list_nodes thread_all_list [])"
    "all_list_tag m \<notin> set (list_nodes thread_ready_list [])"
    using tag_not_sentinel [of m] by (simp_all add: m_def)
  have l: "is_list h thread_ready_list []" "is_list h thread_all_list []"
    unfolding h_def using tag_not_sentinel [OF tags(1)] assms(1,2) by (auto intro: tags_zeroed)
  have e: "elems t = h" "main_thread t = m"
    by (simp_all add: t_def)
  have i: "init_thread m (cstr ''main'') 8 (s\<lparr>main_thread := m\<rparr>) = Inr t"
    using assms(3) by (subst init_thread_eq) (simp_all add: cstr_def t_def h_def m_def)
  have f: "elem_find thread_all_list (all_list_tag m) t = Inr False"
    using l tags(2) elem_find_is_list [of t thread_all_list "[]"] by (simp add: e)
  have a: "list_append thread_all_list (all_list_tag m) t = Inr (t\<lparr>elems := h_append thread_all_list (all_list_tag m) h\<rparr>)"
    using l tags(2) list_append_run [of t thread_all_list "[]"] by (simp add: e)
  have "make_main_thread s = Inr (t\<lparr>elems := h_append thread_all_list (all_list_tag m) h\<rparr>)"
    by (simp add: make_main_thread_def Let_def i e f a flip: m_def)
  moreover have "is_list (h_append thread_all_list (all_list_tag m) h) thread_all_list [all_list_tag m]"
    using lq.enq_last_holds [OF l(2) tags(3) tags(2)] by simp
  moreover have "is_list (h_append thread_all_list (all_list_tag m) h) thread_ready_list []"
    using tags(4) lists_apart(1) by (intro lq.enq_last_other [OF l(2) l(1)]) blast
  ultimately show ?thesis
    by (auto simp: t_def m_def)
qed

lemma thread_init_eq:
  assumes "running_thread s \<noteq> NULL"
  shows "\<exists>v h. thread_init s = Inr (s\<lparr>screen := v, elems := h, main_thread := running_thread s,
        tasks := (tasks s)(running_thread s := started_task (running_thread s) (cstr ''main'') 8 TASK_RUNNING)\<rparr>) \<and>
      is_list h thread_ready_list [] \<and> is_list h thread_all_list [all_list_tag (running_thread s)]"
proof -
  define p where "p = put_str (''thread_init start'' @ [CHR 0x0a]) s"
  have ps: "running_thread p = running_thread s" "tasks p = tasks s"
    by (simp_all add: p_def put_str_def)
  obtain h1 where h1: "list_init thread_ready_list p = p\<lparr>elems := h1\<rparr>" "is_list h1 thread_ready_list []"
    using list_init_is_list [OF lists_apart(2,3), of p] by auto
  obtain h2 where h2: "list_init thread_all_list (p\<lparr>elems := h1\<rparr>) = p\<lparr>elems := h2\<rparr>" "is_list h2 thread_all_list []"
    and o: "\<forall>a. a \<notin> {list_head thread_all_list, list_tail thread_all_list} \<longrightarrow> h2 a = h1 a"
    using list_init_is_list [OF lists_apart(4,5), of "p\<lparr>elems := h1\<rparr>"] by auto
  have "is_list h2 thread_ready_list []"
    using lists_apart(1) o by (intro lq.holds_frame [OF h1(2)]) (auto simp: set_list_nodes)
  then obtain h where h: "make_main_thread (p\<lparr>elems := h2\<rparr>) = Inr (p\<lparr>elems := h2, main_thread := running_thread s,
        tasks := (tasks s)(running_thread s := started_task (running_thread s) (cstr ''main'') 8 TASK_RUNNING), elems := h\<rparr>)"
      "is_list h thread_ready_list []" "is_list h thread_all_list [all_list_tag (running_thread s)]"
    using make_main_thread_eq [of "p\<lparr>elems := h2\<rparr>"] h2(2) assms by (auto simp: ps)
  have "thread_init s = Inr (put_str (''thread_init end'' @ [CHR 0x0a]) (p\<lparr>elems := h2, main_thread := running_thread s,
        tasks := (tasks s)(running_thread s := started_task (running_thread s) (cstr ''main'') 8 TASK_RUNNING), elems := h\<rparr>))"
    unfolding thread_init_def Let_def p_def [symmetric] h1(1) h2(1) h(1) by simp
  then show ?thesis
    using h(2,3)
    by (intro exI [of _ "put_str_vga (cstr (''thread_init end'' @ [CHR 0x0a])) (put_str_vga (cstr (''thread_init start'' @ [CHR 0x0a])) (screen s))"]
          exI [of _ h]) (simp add: put_str_def p_def)
qed

section \<open>Time slices\<close>

text \<open>The running thread and the ready queue as one sequence of threads, the running thread first.\<close>

definition round_inv :: "'a threads_scheme \<Rightarrow> addr list \<Rightarrow> bool" where
  "round_inv s q \<longleftrightarrow> q \<noteq> [] \<and> running_thread s = hd q \<and> status (tasks s (hd q)) = TASK_RUNNING \<and>
     ready_inv s (tl q)"

lemma schedule_preempt_run:
  assumes "ready_inv s rs" "intr_get_status s = INTR_OFF" "cur = running_thread s"
    "status (tasks s cur) = TASK_RUNNING" "stack_room s"
  defines "nxt \<equiv> hd (rs @ [cur])"
  defines "s' \<equiv> call_switch_to cur nxt (dispatched nxt (preempted cur s))"
  shows "schedule s = Inr s'" "running_thread s' = nxt" "ready_inv s' (tl (rs @ [cur]))"
    "status (tasks s' t) = (if t = nxt then TASK_RUNNING else if t = cur then TASK_READY else status (tasks s t))"
    "cpu_ctx s' = (if rs = [] then (ebp s, ebx s, edi s, esi s, link_schedule_ret s) else saved_ctx s (hd rs))"
    "saved_ctx s' cur = (ebp s, ebx s, edi s, esi s, link_schedule_ret s)"
    "task_ticks (tasks s' cur) = priority (tasks s cur)"
    "page_aligned t \<Longrightarrow> t \<noteq> cur \<Longrightarrow> kstack_ok s t \<Longrightarrow> kstack_ok s' t"
proof -
  obtain q where q: "rs @ [cur] = nxt # q"
    unfolding nxt_def by (cases rs) auto
  let ?p = "preempted cur s"
  show run: "schedule s = Inr s'"
    unfolding s'_def nxt_def by (rule schedule_preempt(2) [OF assms(1-4)])
  have c: "cur \<notin> set rs" "page_aligned cur"
    using schedule_preempt(1) [OF assms(1-4)] assms(3) by simp_all
  have n: "nxt = cur \<longleftrightarrow> rs = []" "rs \<noteq> [] \<Longrightarrow> hd rs = nxt"
    using c(1) q by (cases rs; auto)+
  note p = preempted_ready [OF assms(1) c, unfolded q]
  have k: "\<forall>t \<in> set (nxt # q). page_aligned t \<and> status (tasks ?p t) = TASK_READY \<and> (t \<noteq> cur \<longrightarrow> kstack_ok ?p t)"
    using p(2) assms(1) unfolding q [symmetric] by (auto simp: ready_inv_def)
  have r: "cur = running_thread ?p" "stack_room ?p"
    using assms(3,5) by simp_all
  have regs: "ebp ?p = ebp s" "ebx ?p = ebx s" "edi ?p = edi s" "esi ?p = esi s"
    by (simp_all add: preempted_def)
  note sw = switch_dispatched [OF p(1) k r, folded s'_def]
  show "running_thread s' = nxt" "ready_inv s' (tl (rs @ [cur]))"
    using sw(1,2) by (simp_all add: q)
  show "cpu_ctx s' = (if rs = [] then (ebp s, ebx s, edi s, esi s, link_schedule_ret s) else saved_ctx s (hd rs))"
    using sw(6) n by (simp add: regs)
  show "task_ticks (tasks s' cur) = priority (tasks s cur)"
    by (simp add: s'_def tasks_switch dispatched_def preempted_def)
  show "saved_ctx s' cur = (ebp s, ebx s, edi s, esi s, link_schedule_ret s)"
    using sw(8) by (simp add: regs)
  show "status (tasks s' t) = (if t = nxt then TASK_RUNNING else if t = cur then TASK_READY else status (tasks s t))"
    by (simp add: s'_def tasks_switch dispatched_def preempted_def)
  show "kstack_ok s' t" if "page_aligned t" "t \<noteq> cur" "kstack_ok s t"
    using switch_other(2) [of cur "dispatched nxt ?p" t nxt, folded s'_def] that r by simp
qed

lemma round_inv_schedule:
  assumes "round_inv s q" "intr_get_status s = INTR_OFF" "stack_room s" "schedule s = Inr s'"
  shows "round_inv s' (rotate1 q)"
proof -
  obtain cur rs where q: "q = cur # rs"
    using assms(1) by (cases q) (auto simp: round_inv_def)
  then have "ready_inv s rs" "cur = running_thread s" "status (tasks s cur) = TASK_RUNNING"
    using assms(1) by (auto simp: round_inv_def)
  note run = schedule_preempt_run [OF this(1) assms(2) this(2,3) assms(3)]
  show ?thesis
    using run(1-3) run(4) [of "hd (rs @ [cur])"] assms(4) by (simp add: round_inv_def q)
qed

section \<open>Properties\<close>

text \<open>
  A state with the main thread running and one new thread, in the page at 0xc0100000, in the ready
  queue.
\<close>

definition nodes_ready :: nodes where
  "nodes_ready = (\<lambda>_. \<lparr>le_prev = 0, le_next = 0\<rparr>)
     (0xc00065cc := \<lparr>le_prev = 0, le_next = 0xc0100020\<rparr>, 0xc0100020 := \<lparr>le_prev = 0xc00065cc, le_next = 0xc00065d4\<rparr>,
      0xc00065d4 := \<lparr>le_prev = 0xc0100020, le_next = 0\<rparr>)"

definition tasks0 :: "addr \<Rightarrow> task_struct" where
  "tasks0 = (\<lambda>_. zero_task)
     (0xc009e000 := started_task 0xc009e000 (cstr ''main'') 8 TASK_RUNNING,
      0xc0100000 := (started_task 0xc0100000 (cstr ''k'') 31 TASK_READY)\<lparr>self_kstack := 0xc0100e50\<rparr>)"

definition stk0 :: "addr \<Rightarrow> u32" where
  "stk0 = (\<lambda>_. 0)(0xc0100e60 := 0xc0003000, 0xc0100e68 := 0xc0001500, 0xc0100e6c := 7)"

definition threads0 :: "u32 \<Rightarrow> threads" where
  "threads0 fl = (liststore.extend (liststore0 nodes_ready) (threads.fields tasks0 stk0 0xc009e000 0))\<lparr>eflags := fl\<rparr>"

lemma threads0_simps [simp]:
  "elems (threads0 fl) = nodes_ready" "tasks (threads0 fl) = tasks0" "stk (threads0 fl) = stk0"
  "esp (threads0 fl) = 0xc009ef00" "eflags (threads0 fl) = fl" "link_kernel_thread (threads0 fl) = 0xc0003000"
  "main_thread (threads0 fl) = 0xc009e000"
  by (simp_all add: threads0_def liststore.extend_def threads.fields_def liststore0_def bytemem.extend_def
      liststore.fields_def bytemem0_def machine.extend_def bytemem.fields_def machine0_def)

lemma threads0_facts:
  "running_thread (threads0 fl) = 0xc009e000" "stack_room (threads0 fl)" "ready_inv (threads0 fl) [0xc0100000]"
  "status (tasks (threads0 fl) 0xc009e000) = TASK_RUNNING" "intr_get_status (threads0 2) = INTR_OFF"
  "entry_frame (threads0 fl) 0xc0100000 0xc0001500 7"
  by (simp_all add: running_thread_def stack_room_def ready_inv_def is_list_def list_nodes_def list_head_def list_tail_def
      thread_ready_list_def general_tag_def nodes_ready_def page_aligned_def kstack_ok_def tasks0_def started_task_def
      intr_get_status_def EFLAGS_IF_def entry_frame_def saved_ctx_def stk0_def)

text \<open>
  C3: The context switch is transparent: when the thread \<open>cur\<close> has switched to another thread and
  any thread later switches back to it, with its saved stack pointer and its stack page as they were
  left, it runs again with the same callee-saved registers, with the stack pointer at the two
  arguments it had pushed, at the return address of the call in \<open>schedule\<close>.
\<close>

theorem switch_round_trip:
  assumes "cur = running_thread s" "stack_room s" "page_aligned nxt"
    "running_thread t \<noteq> cur" "stack_room t"
    "self_kstack (tasks t cur) = self_kstack (tasks (call_switch_to cur nxt s) cur)"
    "\<And>a. a AND 0xfffff000 = cur \<Longrightarrow> stk t a = stk (call_switch_to cur nxt s) a"
  shows "cpu_ctx (call_switch_to (running_thread t) cur t) = (ebp s, ebx s, edi s, esi s, link_schedule_ret s) \<and>
    esp (call_switch_to (running_thread t) cur t) = esp s - 8 \<and>
    running_thread (call_switch_to (running_thread t) cur t) = cur"
proof (intro conjI)
  let ?s = "call_switch_to cur nxt s"
  have k: "kstack_ok ?s cur"
    using assms(1,2) by (rule switch_kstack_cur)
  then have k': "kstack_ok t cur"
    using assms(6) by (simp add: kstack_ok_def)
  have p: "page_aligned cur"
    using assms(1) by simp
  have "stk t (self_kstack (tasks ?s cur) + j) = stk ?s (self_kstack (tasks ?s cur) + j)" if "unat j \<le> 20" for j
    using in_page [OF p frame_in_page [OF k that]] by (rule assms(7))
  from this [of 0] this have "saved_ctx t cur = saved_ctx ?s cur"
    using assms(6) by (simp add: saved_ctx_def Let_def)
  then show "cpu_ctx (call_switch_to (running_thread t) cur t) = (ebp s, ebx s, edi s, esi s, link_schedule_ret s)"
    using switch_restores [OF refl assms(5) p] assms(4) k' switch_saves [of cur nxt s] by simp
  show "esp (call_switch_to (running_thread t) cur t) = esp s - 8"
    using assms(4,6) by (simp add: esp_switch tasks_switch)
  show "running_thread (call_switch_to (running_thread t) cur t) = cur"
    using assms(5) p k' by (intro running_after_switch) auto
qed

theorem switch_round_trip_witness:
  "let s = threads0 2; t = call_switch_to 0xc009e000 0xc0100000 s
   in running_thread t = 0xc0100000 \<and> esp (call_switch_to 0xc0100000 0xc009e000 t) = esp s - 8"
proof -
  let ?t = "call_switch_to 0xc009e000 0xc0100000 (threads0 2)"
  have k: "kstack_ok (threads0 2) 0xc0100000"
    using threads0_facts(6) by (rule entry_frame_kstack)
  have r: "running_thread ?t = 0xc0100000"
    using threads0_facts(1,2) k by (intro running_after_switch) (simp_all add: page_aligned_def)
  have e: "esp ?t = 0xc0100e64"
    by (simp add: esp_switch tasks0_def started_task_def)
  have "stack_room ?t"
    unfolding stack_room_def r e by simp
  then have "esp (call_switch_to (running_thread ?t) 0xc009e000 ?t) = esp (threads0 2) - 8"
    using switch_round_trip [where cur = "0xc009e000" and nxt = "0xc0100000" and s = "threads0 2" and t = ?t]
    by (simp add: threads0_facts r page_aligned_def)
  with r show ?thesis by (simp add: Let_def)
qed

text \<open>
  C24: The first switch to a thread that \<open>thread_create\<close> prepared enters \<open>kernel_thread\<close> on that
  thread's stack, which calls the thread's function with its argument and with interrupts enabled.
\<close>

theorem new_thread_enters_function:
  assumes "self_kstack (tasks s0 t) = t + PG_SIZE" "s = thread_create t func func_arg s0"
    "page_aligned t" "running_thread s \<noteq> t" "stack_room s"
  shows "running_thread (call_switch_to (running_thread s) t s) = t \<and>
    eip (call_switch_to (running_thread s) t s) = link_kernel_thread s \<and>
    fst (kernel_thread (call_switch_to (running_thread s) t s)) = func \<and>
    fst (snd (kernel_thread (call_switch_to (running_thread s) t s))) = func_arg \<and>
    intr_get_status (snd (snd (kernel_thread (call_switch_to (running_thread s) t s)))) = INTR_ON"
proof -
  have "entry_frame s t func func_arg"
    using assms(1,2) by (simp add: thread_create_entry_frame)
  note * = switch_enters_thread [OF this refl assms(5,3) assms(4) [symmetric]]
  have "link_kernel_thread (call_switch_to (running_thread s) t s) = link_kernel_thread s"
    by (simp add: call_switch_to_eq Let_def)
  with * show ?thesis
    by simp
qed

theorem new_thread_enters_function_witness:
  "let s0 = upd_task 0xc0100000 (\<lambda>t. t\<lparr>self_kstack := 0xc0101000\<rparr>) (threads0 2);
       s = thread_create 0xc0100000 0xc0001500 9 s0
   in fst (kernel_thread (call_switch_to (running_thread s) 0xc0100000 s)) = 0xc0001500"
proof -
  let ?s0 = "upd_task 0xc0100000 (\<lambda>t. t\<lparr>self_kstack := 0xc0101000\<rparr>) (threads0 2)"
  let ?s = "thread_create 0xc0100000 0xc0001500 9 ?s0"
  have e: "esp ?s = 0xc009ef00"
    by (simp add: thread_create_def upd_task_def Let_def)
  then have "running_thread ?s = 0xc009e000"
    by (simp add: running_thread_def)
  moreover from this e have "stack_room ?s"
    by (simp add: stack_room_def)
  ultimately show ?thesis
    using new_thread_enters_function [where t = "0xc0100000" and s = ?s and func = "0xc0001500", OF _ refl]
    by (simp add: Let_def page_aligned_def upd_task_def PG_SIZE_def)
qed

text \<open>
  C5: When the time slice of the running thread ends, \<open>schedule\<close> does not panic: the thread goes
  to the end of the ready queue with its ticks reset to its priority, the first thread of the queue
  (itself if the queue was empty) becomes the running one, with the registers it had saved, and the
  registers of the old thread are saved on its stack.
\<close>

theorem schedule_round_robin:
  assumes "ready_inv s rs" "intr_get_status s = INTR_OFF" "cur = running_thread s"
    "status (tasks s cur) = TASK_RUNNING" "stack_room s"
  shows "\<exists>s'. schedule s = Inr s' \<and> running_thread s' = hd (rs @ [cur]) \<and> ready_inv s' (tl (rs @ [cur])) \<and>
    status (tasks s' (running_thread s')) = TASK_RUNNING \<and>
    task_ticks (tasks s' cur) = priority (tasks s cur) \<and>
    cpu_ctx s' = (if rs = [] then (ebp s, ebx s, edi s, esi s, link_schedule_ret s) else saved_ctx s (hd rs)) \<and>
    saved_ctx s' cur = (ebp s, ebx s, edi s, esi s, link_schedule_ret s)"
  using schedule_preempt_run(1-3,5-7) [OF assms] schedule_preempt_run(4) [OF assms, of "hd (rs @ [cur])"] by simp

theorem schedule_round_robin_witness:
  "\<exists>s'. schedule (threads0 2) = Inr s' \<and> running_thread s' = 0xc0100000 \<and> ready_inv s' [0xc009e000]"
  using schedule_round_robin [OF threads0_facts(3,5) threads0_facts(1) [symmetric] threads0_facts(4,2)]
  by auto

text \<open>
  C28: A thread that blocks itself is in no ready queue and the first ready thread runs with its
  saved registers; when no thread is ready the kernel panics in \<open>schedule\<close>; a status that is not a
  blocking one is refused.
\<close>

theorem thread_block_switches:
  assumes "status (tasks s (running_thread s)) = TASK_RUNNING" "stack_room s"
  shows "(blocking_status stat \<and> ready_inv s (nxt # rs) \<longrightarrow>
      (\<exists>s'. thread_block stat s = Inr (intr_get_status s, s') \<and> running_thread s' = nxt \<and> ready_inv s' rs \<and>
        running_thread s \<notin> set (nxt # rs) \<and> status (tasks s' (running_thread s)) = stat \<and>
        status (tasks s' nxt) = TASK_RUNNING \<and> cpu_ctx s' = saved_ctx s nxt \<and> intr_get_status s' = INTR_OFF)) \<and>
    (blocking_status stat \<and> ready_inv s [] \<longrightarrow>
      thread_block stat s = Inl (Panic ''thread/thread.c'' 117 ''schedule'' ''!list_empty(&thread_ready_list)'')) \<and>
    (\<not> blocking_status stat \<longrightarrow> (\<exists>cond. thread_block stat s = Inl (Panic ''thread/thread.c'' 130 ''thread_block'' cond)))"
proof (intro conjI impI)
  show "\<exists>s'. thread_block stat s = Inr (intr_get_status s, s') \<and> running_thread s' = nxt \<and> ready_inv s' rs \<and>
        running_thread s \<notin> set (nxt # rs) \<and> status (tasks s' (running_thread s)) = stat \<and>
        status (tasks s' nxt) = TASK_RUNNING \<and> cpu_ctx s' = saved_ctx s nxt \<and> intr_get_status s' = INTR_OFF"
    if b: "blocking_status stat \<and> ready_inv s (nxt # rs)"
  proof -
    from b have b: "blocking_status stat" and r: "ready_inv s (nxt # rs)" by simp_all
    have c: "running_thread s \<notin> set (nxt # rs)"
      using r assms(1) by (auto simp: ready_inv_def)
    note run = thread_block_run [OF r c b assms(2)]
    show ?thesis
      using run(1-3,5,6) run(4) [of nxt] run(4) [of "running_thread s"] c by auto
  qed
qed (simp_all add: thread_block_none_ready thread_block_bad_status)

theorem thread_block_switches_witness:
  "\<exists>s'. thread_block TASK_BLOCKED (threads0 2) = Inr (INTR_OFF, s') \<and> running_thread s' = 0xc0100000 \<and>
     status (tasks s' 0xc009e000) = TASK_BLOCKED"
  using thread_block_switches [of "threads0 2" TASK_BLOCKED "0xc0100000" "[]"]
  by (auto simp: threads0_facts blocking_status_def tasks0_def started_task_def)

text \<open>
  \<open>thread_unblock\<close> of a blocked thread puts it at the head of the ready queue with status
  ready, keeps the running thread and the interrupt flag, and refuses a thread that is not blocked.
\<close>

theorem thread_unblock_to_front:
  assumes "ready_inv s rs" "page_aligned t" "kstack_ok s t"
  shows "(blocking_status (status (tasks s t)) \<longrightarrow>
      (\<exists>s'. thread_unblock t s = Inr s' \<and> ready_inv s' (t # rs) \<and> running_thread s' = running_thread s \<and>
        eflags s' = eflags s)) \<and>
    (\<not> blocking_status (status (tasks s t)) \<longrightarrow>
      (\<exists>cond. thread_unblock t s = Inl (Panic ''thread/thread.c'' 141 ''thread_unblock'' cond)))"
proof (intro conjI impI)
  show "\<exists>s'. thread_unblock t s = Inr s' \<and> ready_inv s' (t # rs) \<and> running_thread s' = running_thread s \<and>
      eflags s' = eflags s" if b: "blocking_status (status (tasks s t))"
  proof -
    have n: "t \<notin> set rs"
      using b assms(1) by (auto simp: ready_inv_def blocking_status_def)
    from thread_unblock_eq [OF ready_list [OF assms(1)] n assms(2) b] woken_ready [OF assms(1) n assms(2,3)]
    show ?thesis by simp
  qed
qed (simp add: thread_unblock_ready_panics)

theorem thread_unblock_to_front_witness:
  "let s = upd_task 0xc0200000 (\<lambda>t. t\<lparr>status := TASK_BLOCKED, self_kstack := 0xc0200e50\<rparr>) (threads0 2)
   in \<exists>s'. thread_unblock 0xc0200000 s = Inr s' \<and> ready_inv s' [0xc0200000, 0xc0100000]"
proof -
  let ?s = "upd_task 0xc0200000 (\<lambda>t. t\<lparr>status := TASK_BLOCKED, self_kstack := 0xc0200e50\<rparr>) (threads0 2)"
  have "ready_inv ?s [0xc0100000]"
    using threads0_facts(3) by (simp add: ready_inv_def upd_task_def kstack_ok_def)
  moreover have "kstack_ok ?s 0xc0200000" "blocking_status (status (tasks ?s 0xc0200000))"
    by (simp_all add: kstack_ok_def upd_task_def blocking_status_def)
  ultimately show ?thesis
    using thread_unblock_to_front [of ?s "[0xc0100000]" "0xc0200000"]
    by (auto simp: page_aligned_def Let_def)
qed

text \<open>
  \<open>thread_init\<close> leaves an empty ready queue and the running thread as \<open>main\<close>, in its own page,
  with status running, priority 8 and the stack marker set, as the only thread of the list of all
  threads.
\<close>

theorem thread_init_starts:
  assumes "running_thread s \<noteq> NULL"
  shows "\<exists>s'. thread_init s = Inr s' \<and> ready_inv s' [] \<and> main_thread s' = running_thread s \<and>
    running_thread s' = running_thread s \<and> is_list (elems s') thread_all_list [all_list_tag (running_thread s)] \<and>
    tasks s' = (tasks s)(running_thread s := started_task (running_thread s) (cstr ''main'') 8 TASK_RUNNING)"
proof -
  obtain v h where "thread_init s = Inr (s\<lparr>screen := v, elems := h, main_thread := running_thread s,
        tasks := (tasks s)(running_thread s := started_task (running_thread s) (cstr ''main'') 8 TASK_RUNNING)\<rparr>)"
      "is_list h thread_ready_list []" "is_list h thread_all_list [all_list_tag (running_thread s)]"
    using thread_init_eq [OF assms] by blast
  then show ?thesis by (simp add: ready_inv_def running_thread_def)
qed

theorem thread_init_starts_witness:
  "\<exists>s'. thread_init (threads0 2) = Inr s' \<and> ready_inv s' [] \<and> main_thread s' = 0xc009e000"
  using thread_init_starts [of "threads0 2"] by (auto simp: threads0_facts)

end
