(* ===== verification/Interrupt.thy ===== *)
theory Interrupt
  imports Thread
begin

text \<open>
  kernel/interrupt.c apart from the interrupt flag, which is in \<open>Machine\<close>: the interrupt descriptor
  table, the table of C handlers, the names of the exceptions, the handler of exceptions and the
  programming of the interrupt controllers.

  The entry points \<open>intr_entry_table\<close> are laid out by the assembler in kernel/kernel.S and placed by
  the linker: they are an argument of the operations that read them. A handler is named by a
  constructor, one for each C function that the kernel stores in \<open>idt_table\<close>.
\<close>

section \<open>State\<close>

record gate_desc =
  func_offset_low_word :: u16
  selector :: u16
  dcount :: u8
  attribute :: u8
  func_offset_high_word :: u16

datatype intr_handler = No_Handler | General_Intr_Handler | Intr_Timer_Handler | Intr_Keyboard_Handler

definition IDT_DESC_CNT :: nat where
  "IDT_DESC_CNT = 0x30"

record intr = threads +
  idt :: "gate_desc list"
  idt_table :: "intr_handler list"
  intr_name :: "string list"
  idt_operand :: u64
  cr2 :: u32

text \<open>The address of the static array \<open>idt\<close>: the 384 bytes at the end of the .bss section of interrupt.o.\<close>

definition idt_addr :: addr where
  "idt_addr = 0xc0006180"

text \<open>kernel/global.h: the selector of the kernel code segment and the attribute of the gates.\<close>

definition SELECTOR_K_CODE :: u16 where
  "SELECTOR_K_CODE = push_bit 3 1 + push_bit 2 0 + 0"

definition IDT_DESC_DPL0 :: u8 where
  "IDT_DESC_DPL0 = 1"

definition IDT_DESC_ATTR_DPL0 :: u8 where
  "IDT_DESC_ATTR_DPL0 = push_bit 7 1 + push_bit 5 IDT_DESC_DPL0 + 0xe"

section \<open>Operations\<close>

text \<open>
  The handler of exceptions: the first component of the result is false when the handler stays in
  its final endless loop.
\<close>

definition put_n_chars :: "nat \<Rightarrow> u8 \<Rightarrow> 'a machine_scheme \<Rightarrow> 'a machine_scheme" where
  "put_n_chars n c s = (put_char c ^^ n) s"

definition general_intr_handler :: "u8 \<Rightarrow> 'a intr_scheme \<Rightarrow> err + bool \<times> 'a intr_scheme" where
  "general_intr_handler vec_nr s =
     (if vec_nr = 0x27 \<or> vec_nr = 0x2f then Inr (True, s)
      else
        let s = set_cursor 0 s;
            s = put_n_chars 320 0x20 s;
            s = set_cursor 0 s;
            s = put_str (''!!!! exception message begin !!!!'' @ [CHR 0x0a]) s;
            s = set_cursor 88 s
        in if length (intr_name s) \<le> unat vec_nr then Inl (Out_Of_Bounds ''intr_name'')
           else
             let s = put_str (intr_name s ! unat vec_nr) s;
                 s = (if vec_nr = 14 then put_int (cr2 s) (put_str (CHR 0x0a # ''page fault addr is: '') s) else s);
                 s = put_str (CHR 0x0a # ''!!!! exception message end !!!'' @ [CHR 0x0a]) s
             in Inr (False, s))"

definition exception_names :: "(nat \<times> string) list" where
  "exception_names =
    [(0, ''#DE Divide Error''), (1, ''#DB Debug Exception''), (2, ''NMI Interrupt''),
     (3, ''#BP Breakpoint Exception''), (4, ''#OF Overflow Exception''), (5, ''#BR Bound Range Exceed Exception''),
     (6, ''#UD Invaild Opcode Exception''), (7, ''#NM Device Not Available Exception''),
     (8, ''#DF Double Fault Exception''), (9, ''Coprocessor Segment Overrun''), (10, ''#TS Invaild TSS Exception''),
     (11, ''#NP Segment Not Present''), (12, ''#SS Stack Fault Exception''), (13, ''#GP General Protection Exception''),
     (14, ''#PF Page-Fault Exception''), (16, ''#MF x87 FPU Floating-Point Error''),
     (17, ''#AC Alignment Check Exception''), (18, ''#MC Machine-Check Exception''),
     (19, ''#XF SIMD Floating-Point Exception'')]"

definition exception_init :: "'a intr_scheme \<Rightarrow> 'a intr_scheme" where
  "exception_init s =
     (let s = fold (\<lambda>i s. s\<lparr>idt_table := (idt_table s)[i := General_Intr_Handler],
                            intr_name := (intr_name s)[i := ''unknown'']\<rparr>) [0..<IDT_DESC_CNT] s
      in fold (\<lambda>(i, nm) s. s\<lparr>intr_name := (intr_name s)[i := nm]\<rparr>) exception_names s)"

definition make_idt_desc :: "u8 \<Rightarrow> u32 \<Rightarrow> gate_desc" where
  "make_idt_desc attr func =
     \<lparr>func_offset_low_word = ucast (func AND 0x0000ffff), selector = SELECTOR_K_CODE, dcount = 0,
      attribute = attr, func_offset_high_word = ucast (drop_bit 16 (func AND 0xffff0000))\<rparr>"

definition idt_desc_init :: "(nat \<Rightarrow> u32) \<Rightarrow> 'a intr_scheme \<Rightarrow> 'a intr_scheme" where
  "idt_desc_init intr_entry_table s =
     put_str (''idt_desc_init_done'' @ [CHR 0x0a])
       (fold (\<lambda>i s. s\<lparr>idt := (idt s)[i := make_idt_desc IDT_DESC_ATTR_DPL0 (intr_entry_table i)]\<rparr>) [0..<IDT_DESC_CNT] s)"

definition register_handler :: "u8 \<Rightarrow> intr_handler \<Rightarrow> 'a intr_scheme \<Rightarrow> err + 'a intr_scheme" where
  "register_handler vector_no func s =
     (if unat vector_no < length (idt_table s)
      then Inr (s\<lparr>idt_table := (idt_table s)[unat vector_no := func]\<rparr>)
      else Inl (Out_Of_Bounds ''idt_table''))"

definition pic_init :: "'a machine_scheme \<Rightarrow> 'a machine_scheme" where
  "pic_init s =
     (let s = outb 0x20 0x11 s; s = outb 0x21 0x20 s; s = outb 0x21 0x04 s; s = outb 0x21 0x01 s;
          s = outb 0xa0 0x11 s; s = outb 0xa1 0x28 s; s = outb 0xa1 0x02 s; s = outb 0xa1 0x01 s;
          s = outb 0x21 0xfe s; s = outb 0xa1 0xff s;
          s = put_str ''pic init done'' s;
          s = outb 0x21 0xfc s
      in outb 0xa1 0xff s)"

definition sizeof_idt :: u64 where
  "sizeof_idt = 8 * of_nat IDT_DESC_CNT"

definition idt_init :: "(nat \<Rightarrow> u32) \<Rightarrow> 'a intr_scheme \<Rightarrow> 'a intr_scheme" where
  "idt_init intr_entry_table s =
     (let s = put_str (''idt_init_start'' @ [CHR 0x0a]) s;
          s = idt_desc_init intr_entry_table s;
          s = exception_init s;
          s = pic_init s;
          s = s\<lparr>idt_operand := (sizeof_idt - 1) OR push_bit 16 (ucast idt_addr)\<rparr>;
          s = s\<lparr>idtr := idt_operand s\<rparr>
      in put_str (''idt_init_finish'' @ [CHR 0x0a]) s)"

section \<open>Reading the tables\<close>

text \<open>What the processor reads: the code address of a gate, its privilege level, and the table register.\<close>

definition gate_target :: "gate_desc \<Rightarrow> u32" where
  "gate_target g = ucast (func_offset_low_word g) OR push_bit 16 (ucast (func_offset_high_word g))"

definition gate_dpl :: "gate_desc \<Rightarrow> u8" where
  "gate_dpl g = drop_bit 5 (attribute g) AND 3"

definition idtr_base :: "u64 \<Rightarrow> u32" where
  "idtr_base r = ucast (drop_bit 16 r)"

definition idtr_limit :: "u64 \<Rightarrow> u16" where
  "idtr_limit r = ucast r"

lemma mask_0xffff: "(0xffff :: u32) = mask 16" "(0xffff0000 :: u32) = push_bit 16 (mask 16)"
  by (simp_all add: mask_eq_exp_minus_1 push_bit_eq_mult)

lemma gate_target_make: "gate_target (make_idt_desc attr func) = func"
  unfolding gate_target_def make_idt_desc_def gate_desc.simps mask_0xffff
  by (rule bit_word_eqI) (auto simp: bit_simps)

lemma fold_record_upd:
  assumes "\<And>i s. g (f i s) = (g s)[i := h i]"
  shows "g (fold f is s) = fold (\<lambda>i xs. xs[i := h i]) is (g s)"
  by (induction "is" arbitrary: s) (simp_all add: assms)

lemma fold_record_frame:
  assumes "\<And>i s. g (f i s) = g s"
  shows "g (fold f is s) = g s"
  by (induction "is" arbitrary: s) (simp_all add: assms)

lemma fold_list_update_all:
  "n \<le> length xs \<Longrightarrow> fold (\<lambda>i xs. xs[i := h i]) [0..<n] xs = map h [0..<n] @ drop n xs"
proof (induction n)
  case (Suc n)
  then have "drop n xs = xs ! n # drop (Suc n) xs"
    by (simp add: Cons_nth_drop_Suc)
  with Suc show ?case by (simp add: list_update_append)
qed simp

lemma put_str_intr [simp, frame_simps]:
  "idt (put_str x s) = idt s" "idt_table (put_str x s) = idt_table s" "intr_name (put_str x s) = intr_name s"
  "idtr (put_str x s) = idtr s" "port_out (put_str x s) = port_out s" "idt_operand (put_str x s) = idt_operand s"
  by (simp_all add: put_str_def)

lemma set_cursor_intr [simp, frame_simps]: "intr_name (set_cursor p s) = intr_name s"
  by (simp add: set_cursor_def)

lemma outb_intr [simp, frame_simps]:
  "idt (outb p d s) = idt s" "idt_table (outb p d s) = idt_table s" "intr_name (outb p d s) = intr_name s"
  "idtr (outb p d s) = idtr s" "port_out (outb p d s) = port_out s @ [(p, d)]"
  by (simp_all add: outb_def)

lemma pic_init_intr [simp, frame_simps]:
  "idt (pic_init s) = idt s" "idt_table (pic_init s) = idt_table s" "intr_name (pic_init s) = intr_name s"
  by (simp_all add: pic_init_def Let_def)

lemma exception_init_frame:
  "idt (exception_init s) = idt s" "port_out (exception_init s) = port_out s"
  by (simp_all add: exception_init_def Let_def fold_record_frame [where g = idt] fold_record_frame [where g = port_out]
      split_beta)

lemma exception_init_table:
  assumes "length (idt_table s) = IDT_DESC_CNT"
  shows "idt_table (exception_init s) = replicate IDT_DESC_CNT General_Intr_Handler"
proof -
  let ?f = "\<lambda>i (s :: 'a intr_scheme). s\<lparr>idt_table := (idt_table s)[i := General_Intr_Handler], intr_name := (intr_name s)[i := ''unknown'']\<rparr>"
  have "idt_table (fold ?f [0..<IDT_DESC_CNT] s) =
      fold (\<lambda>i xs. xs[i := General_Intr_Handler]) [0..<IDT_DESC_CNT] (idt_table s)"
    by (rule fold_record_upd) simp
  also have "\<dots> = replicate IDT_DESC_CNT General_Intr_Handler"
    using assms by (simp add: fold_list_update_all map_replicate_const)
  finally show ?thesis
    by (simp add: exception_init_def Let_def fold_record_frame [where g = idt_table] split_beta)
qed

lemma idt_desc_init_idt:
  assumes "length (idt s) = IDT_DESC_CNT"
  shows "idt (idt_desc_init entry s) = map (\<lambda>i. make_idt_desc IDT_DESC_ATTR_DPL0 (entry i)) [0..<IDT_DESC_CNT]"
proof -
  let ?f = "\<lambda>i (s :: 'a intr_scheme). s\<lparr>idt := (idt s)[i := make_idt_desc IDT_DESC_ATTR_DPL0 (entry i)]\<rparr>"
  have "idt (fold ?f [0..<IDT_DESC_CNT] s) =
      fold (\<lambda>i xs. xs[i := make_idt_desc IDT_DESC_ATTR_DPL0 (entry i)]) [0..<IDT_DESC_CNT] (idt s)"
    by (rule fold_record_upd) simp
  then show ?thesis
    using assms by (simp add: idt_desc_init_def fold_list_update_all)
qed

lemma idt_desc_init_frame:
  "idt_table (idt_desc_init entry s) = idt_table s" "intr_name (idt_desc_init entry s) = intr_name s"
  "port_out (idt_desc_init entry s) = port_out s"
  by (simp_all add: idt_desc_init_def fold_record_frame [where g = idt_table] fold_record_frame [where g = intr_name]
      fold_record_frame [where g = port_out])

lemma exception_init_lengths: "length (intr_name (exception_init s)) = length (intr_name s)"
  by (simp add: exception_init_def Let_def fold_record_frame [where g = "\<lambda>s. length (intr_name s)"] split_beta)

lemma put_n_chars_frame [simp]: "intr_name (put_n_chars n c s) = intr_name s"
  by (induction n) (simp_all add: put_n_chars_def put_char_def)

definition pic_commands :: "(u16 \<times> u8) list" where
  "pic_commands = [(0x20, 0x11), (0x21, 0x20), (0x21, 0x04), (0x21, 0x01), (0xa0, 0x11), (0xa1, 0x28), (0xa1, 0x02),
     (0xa1, 0x01), (0x21, 0xfe), (0xa1, 0xff), (0x21, 0xfc), (0xa1, 0xff)]"

section \<open>Properties\<close>

text \<open>
  C34: \<open>idt_init\<close> fills all 48 gates: gate \<open>i\<close> leads to entry point \<open>i\<close> in the kernel code segment,
  every vector has the general handler, the table register describes the 384 bytes of \<open>idt\<close>, and
  the controllers map IRQ 0 to vector 0x20 with only timer and keyboard unmasked. The privilege level
  of the gates is 1, although the attribute is named DPL0.
\<close>

theorem idt_init_gates:
  assumes "length (idt s) = IDT_DESC_CNT" "length (idt_table s) = IDT_DESC_CNT" "i < IDT_DESC_CNT"
  shows "gate_target (idt (idt_init entry s) ! i) = entry i \<and>
    selector (idt (idt_init entry s) ! i) = 8 \<and> gate_dpl (idt (idt_init entry s) ! i) = 1 \<and>
    idt_table (idt_init entry s) ! i = General_Intr_Handler \<and>
    idtr_base (idtr (idt_init entry s)) = idt_addr \<and> idtr_limit (idtr (idt_init entry s)) = 383 \<and>
    port_out (idt_init entry s) = port_out s @ pic_commands"
proof (intro conjI)
  let ?s = "put_str (''idt_init_start'' @ [CHR 0x0a]) s"
  let ?d = "idt_desc_init entry ?s"
  have l: "length (idt ?s) = IDT_DESC_CNT" "length (idt_table ?d) = IDT_DESC_CNT"
    using assms by (simp_all add: idt_desc_init_frame)
  have "idt (idt_init entry s) = map (\<lambda>i. make_idt_desc IDT_DESC_ATTR_DPL0 (entry i)) [0..<IDT_DESC_CNT]"
    using idt_desc_init_idt [OF l(1), of entry] by (simp add: idt_init_def Let_def exception_init_frame)
  then have g: "idt (idt_init entry s) ! i = make_idt_desc IDT_DESC_ATTR_DPL0 (entry i)"
    using assms(3) by simp
  then show "gate_target (idt (idt_init entry s) ! i) = entry i"
    by (simp add: gate_target_make)
  show "selector (idt (idt_init entry s) ! i) = 8" "gate_dpl (idt (idt_init entry s) ! i) = 1"
    by (simp_all add: g make_idt_desc_def SELECTOR_K_CODE_def gate_dpl_def IDT_DESC_ATTR_DPL0_def IDT_DESC_DPL0_def)
  show "idt_table (idt_init entry s) ! i = General_Intr_Handler"
    using exception_init_table [OF l(2)] assms(3) by (simp add: idt_init_def Let_def)
  show "idtr_base (idtr (idt_init entry s)) = idt_addr" "idtr_limit (idtr (idt_init entry s)) = 383"
    by (simp_all add: idt_init_def Let_def idtr_base_def idtr_limit_def sizeof_idt_def IDT_DESC_CNT_def idt_addr_def)
  show "port_out (idt_init entry s) = port_out s @ pic_commands"
    by (simp add: idt_init_def Let_def exception_init_frame idt_desc_init_frame pic_init_def pic_commands_def)
qed

definition intr0 :: "u32 \<Rightarrow> intr" where
  "intr0 fl = threads.extend (threads0 fl) (intr.fields
     (replicate 48 \<lparr>func_offset_low_word = 0, selector = 0, dcount = 0, attribute = 0, func_offset_high_word = 0\<rparr>)
     (replicate 48 No_Handler) (replicate 48 []) 0 0)"

lemma intr0_simps [simp]:
  "length (idt (intr0 fl)) = 48" "length (idt_table (intr0 fl)) = 48" "length (intr_name (intr0 fl)) = 48"
  by (simp_all add: intr0_def threads.extend_def intr.fields_def)

theorem idt_init_gates_witness:
  "gate_target (idt (idt_init (\<lambda>i. 0xc0002000 + 25 * of_nat i) (intr0 2)) ! 33) = 0xc0002339 \<and>
   idt_table (idt_init (\<lambda>i. 0xc0002000 + 25 * of_nat i) (intr0 2)) ! 33 = General_Intr_Handler"
  using idt_init_gates [of "intr0 2" 33 "\<lambda>i. 0xc0002000 + 25 * of_nat i"]
  by (simp add: IDT_DESC_CNT_def)

text \<open>
  The general handler ignores the spurious vectors 0x27 and 0x2f: it returns at once and
  changes nothing. For every other vector of the table it never returns, and prints its report inside
  the screen when the name of the vector has no backspace.
\<close>

theorem general_intr_handler_spins:
  assumes "unat vec_nr < length (intr_name s)"
  shows "if vec_nr = 0x27 \<or> vec_nr = 0x2f then general_intr_handler vec_nr s = Inr (True, s)
    else \<exists>s'. general_intr_handler vec_nr s = Inr (False, s') \<and>
      (CHR 0x08 \<notin> set (intr_name s ! unat vec_nr) \<longrightarrow> on_screen (screen s'))"
proof (cases "vec_nr = 0x27 \<or> vec_nr = 0x2f")
  case True
  then show ?thesis by (auto simp: general_intr_handler_def)
next
  case False
  let ?s = "set_cursor 88 (put_str (''!!!! exception message begin !!!!'' @ [CHR 0x0a])
     (set_cursor 0 (put_n_chars 320 0x20 (set_cursor 0 s))))"
  have "on_screen (screen ?s)"
    by (rule set_cursor_screen) simp
  with False assms show ?thesis
    by (auto simp: general_intr_handler_def Let_def intro!: console_screen)
qed

theorem general_intr_handler_spins_witness:
  "\<exists>s'. general_intr_handler 14 (exception_init (intr0 2)) = Inr (False, s')"
  using general_intr_handler_spins [of 14 "exception_init (intr0 2)"]
  by (auto simp: exception_init_lengths)

end
