(* ===== verification/Timer.thy ===== *)
theory Timer
  imports Interrupt
begin

text \<open>
  device/timer.c: the programming of the interval timer and the timer interrupt, which accounts the
  tick and calls the scheduler at the end of a time slice. kernel/timer.c is an older version of the
  initialisation, not linked into the kernel.
\<close>

section \<open>State\<close>

record clock = intr +
  ticks :: u32

section \<open>Operations\<close>

definition IRQ0_FREQUENCY :: u32 where
  "IRQ0_FREQUENCY = 10"

definition INPUT_FREQUENCY :: u32 where
  "INPUT_FREQUENCY = 1193180"

definition COUNTER0_VALUE :: u32 where
  "COUNTER0_VALUE = INPUT_FREQUENCY div IRQ0_FREQUENCY"

definition frequency_set :: "u8 \<Rightarrow> u8 \<Rightarrow> u8 \<Rightarrow> u8 \<Rightarrow> u16 \<Rightarrow> 'a machine_scheme \<Rightarrow> 'a machine_scheme" where
  "frequency_set counter_port counter_no rwl counter_mode counter_value s =
     (let s = outb 0x43 (push_bit 6 counter_no OR push_bit 4 rwl OR push_bit 1 counter_mode) s;
          s = outb (ucast counter_port) (ucast counter_value) s
      in outb (ucast counter_port) (ucast (drop_bit 8 counter_value)) s)"

definition timer_init :: "'a clock_scheme \<Rightarrow> err + 'a clock_scheme" where
  "timer_init s =
     (let s = put_str (''timer_init start.'' @ [CHR 0x0a]) s;
          s = frequency_set 0x40 0 3 2 (ucast COUNTER0_VALUE) s
      in bindE (register_handler 0x20 Intr_Timer_Handler s) (\<lambda>s.
         Inr (put_str (''timer_init done.'' @ [CHR 0x0a]) s)))"

definition intr_timer_handler :: "'a clock_scheme \<Rightarrow> err + 'a clock_scheme" where
  "intr_timer_handler s =
     (let cur_thread = running_thread s
      in ASSERT (stack_magic (tasks s cur_thread) = 0x12345678) ''device/timer.c'' 46 ''intr_timer_handler''
           ''cur_thread->stack_magic == 0x12345678''
           (let s = upd_task cur_thread (\<lambda>t. t\<lparr>elapsed_ticks := elapsed_ticks t + 1\<rparr>) s;
                s = s\<lparr>ticks := ticks s + 1\<rparr>
            in if task_ticks (tasks s cur_thread) = 0 then schedule s
               else Inr (upd_task cur_thread (\<lambda>t. t\<lparr>task_ticks := task_ticks t - 1\<rparr>) s)))"

text \<open>kernel/timer.c: 100 interrupts per second, and no handler registered.\<close>

definition kernel_COUNTER0_VALUE :: u32 where
  "kernel_COUNTER0_VALUE = INPUT_FREQUENCY div 100"

definition kernel_timer_init :: "'a machine_scheme \<Rightarrow> 'a machine_scheme" where
  "kernel_timer_init s =
     (let s = put_str (''timer_init start.'' @ [CHR 0x0a]) s;
          s = frequency_set 0x40 0 3 2 (ucast kernel_COUNTER0_VALUE) s
      in put_str (''timer_init done.'' @ [CHR 0x0a]) s)"

section \<open>Lemmas\<close>

text \<open>The state after the accounting at the start of the handler.\<close>

definition accounted :: "nat \<Rightarrow> 'a clock_scheme \<Rightarrow> 'a clock_scheme" where
  "accounted n s = s\<lparr>tasks := (tasks s)(running_thread s :=
     (tasks s (running_thread s))\<lparr>elapsed_ticks := elapsed_ticks (tasks s (running_thread s)) + of_nat n\<rparr>),
     ticks := ticks s + of_nat n\<rparr>"

definition charged :: "nat \<Rightarrow> 'a clock_scheme \<Rightarrow> 'a clock_scheme" where
  "charged n s = upd_task (running_thread s) (\<lambda>t. t\<lparr>task_ticks := task_ticks t - of_nat n\<rparr>) (accounted n s)"

lemma running_thread_ticks [simp]: "running_thread (s\<lparr>ticks := n\<rparr>) = running_thread s"
  by (simp add: running_thread_def)

lemma timer_handler_cases:
  assumes "stack_magic (tasks s (running_thread s)) = 0x12345678"
  shows "intr_timer_handler s = (if task_ticks (tasks s (running_thread s)) = 0 then schedule (accounted 1 s)
     else Inr (charged 1 s))"
  using assms by (simp add: intr_timer_handler_def Let_def upd_task_def accounted_def charged_def)

lemma running_accounted [simp]:
  "running_thread (accounted n s) = running_thread s" "running_thread (charged n s) = running_thread s"
  by (simp_all add: accounted_def charged_def upd_task_def running_thread_def)

lemma charged_charged: "charged m (charged n s) = charged (n + m) s"
proof -
  have "tasks s t = (tasks s t)\<lparr>elapsed_ticks := elapsed_ticks (tasks s t)\<rparr>" for t by simp
  then show ?thesis
    by (simp add: charged_def accounted_def upd_task_def running_thread_def algebra_simps)
qed

fun timer_interrupts :: "nat \<Rightarrow> 'a clock_scheme \<Rightarrow> err + 'a clock_scheme" where
  "timer_interrupts 0 s = Inr s"
| "timer_interrupts (Suc n) s = bindE (timer_interrupts n s) intr_timer_handler"

lemma timer_interrupts_charge:
  assumes "stack_magic (tasks s (running_thread s)) = 0x12345678"
    "n \<le> unat (task_ticks (tasks s (running_thread s)))"
  shows "timer_interrupts n s = Inr (charged n s)"
  using assms(2)
proof (induction n)
  case 0
  show ?case by (simp add: charged_def accounted_def upd_task_def)
next
  case (Suc n)
  let ?t = "tasks s (running_thread s)"
  have "task_ticks ?t \<noteq> of_nat n"
  proof
    assume "task_ticks ?t = of_nat n"
    then have "unat (task_ticks ?t) \<le> n"
      by (simp add: unsigned_of_nat take_bit_eq_mod)
    with Suc.prems show False by simp
  qed
  then have "intr_timer_handler (charged n s) = Inr (charged 1 (charged n s))"
    using assms(1) by (subst timer_handler_cases) (simp_all add: charged_def accounted_def upd_task_def)
  with Suc show ?case by (simp add: charged_charged)
qed

lemma accounted_fields [simp]:
  "elems (accounted n s) = elems s" "status (tasks (accounted n s) t) = status (tasks s t)"
  "self_kstack (tasks (accounted n s) t) = self_kstack (tasks s t)"
  "stack_magic (tasks (accounted n s) t) = stack_magic (tasks s t)"
  "priority (tasks (accounted n s) t) = priority (tasks s t)" "task_ticks (tasks (accounted n s) t) = task_ticks (tasks s t)"
  "elems (charged n s) = elems s" "status (tasks (charged n s) t) = status (tasks s t)"
  "self_kstack (tasks (charged n s) t) = self_kstack (tasks s t)"
  "stack_magic (tasks (charged n s) t) = stack_magic (tasks s t)"
  "priority (tasks (charged n s) t) = priority (tasks s t)"
  "stack_room (accounted n s) = stack_room s" "intr_get_status (accounted n s) = intr_get_status s"
  by (simp_all add: accounted_def charged_def upd_task_def stack_room_def intr_get_status_def)

lemma charged_ticks:
  "task_ticks (tasks (charged n s) t) = (if t = running_thread s then task_ticks (tasks s t) - of_nat n else task_ticks (tasks s t))"
  by (simp add: charged_def accounted_def upd_task_def)

section \<open>Time slices\<close>

text \<open>
  Between two timer interrupts the running thread computes, and the entry and exit code of the interrupts
  pushes and pops on its stack: registers, flags, devices and its own stack change, the queues, the control
  blocks and the other stacks do not. A timer interrupt comes when interrupts are on; the processor turns them
  off and the handler runs. \<open>timer_run n\<close> is any such run with \<open>n\<close> timer interrupts.
\<close>

definition computes :: "'a threads_scheme \<Rightarrow> 'a threads_scheme \<Rightarrow> bool" where
  "computes s s' \<longleftrightarrow> running_thread s' = running_thread s \<and> elems s' = elems s \<and> tasks s' = tasks s \<and>
     (\<forall>a. a AND 0xfffff000 \<noteq> running_thread s \<longrightarrow> stk s' a = stk s a)"

definition timer_interrupt :: "'a clock_scheme \<Rightarrow> err + 'a clock_scheme" where
  "timer_interrupt s = intr_timer_handler (s\<lparr>eflags := eflags s AND NOT EFLAGS_IF\<rparr>)"

inductive timer_run :: "nat \<Rightarrow> 'a clock_scheme \<Rightarrow> 'a clock_scheme \<Rightarrow> bool" where
  run_start: "timer_run 0 s s"
| run_compute: "timer_run n s t \<Longrightarrow> computes t t' \<Longrightarrow> timer_run n s t'"
| run_tick: "timer_run n s t \<Longrightarrow> intr_get_status t = INTR_ON \<Longrightarrow> stack_room t \<Longrightarrow> timer_interrupt t = Inr t' \<Longrightarrow>
    timer_run (Suc n) s t'"

text \<open>
  The abstract round robin: the threads in the order in which they will run, the running one first, and the
  ticks that each has left. A tick is taken from the first thread; at the end of its slice it goes to the end
  and gets a new slice.
\<close>

fun rr_tick :: "(addr \<Rightarrow> nat) \<Rightarrow> addr list \<times> (addr \<Rightarrow> nat) \<Rightarrow> addr list \<times> (addr \<Rightarrow> nat)" where
  "rr_tick quota (q, left) =
     (if left (hd q) = 0 then (rotate1 q, left(hd q := quota (hd q)))
      else (q, left(hd q := left (hd q) - 1)))"

definition round_robin :: "(addr \<Rightarrow> nat) \<Rightarrow> nat \<Rightarrow> addr list \<times> (addr \<Rightarrow> nat) \<Rightarrow> addr list \<times> (addr \<Rightarrow> nat)" where
  "round_robin quota n = rr_tick quota ^^ n"

lemma round_robin_Suc: "round_robin quota (Suc n) x = rr_tick quota (round_robin quota n x)"
  and round_robin_0 [simp]: "round_robin quota 0 x = x"
  and round_robin_add: "round_robin quota (m + n) x = round_robin quota n (round_robin quota m x)"
  by (simp_all add: round_robin_def funpow_add [of n m] add.commute [of m n])

lemma round_robin_slice:
  "n \<le> left (hd q) \<Longrightarrow> round_robin quota n (q, left) = (q, left(hd q := left (hd q) - n))"
  by (induction n) (simp_all add: round_robin_Suc)

lemma round_robin_turn:
  "round_robin quota (left (hd q) + 1) (q, left) = (rotate1 q, left(hd q := quota (hd q)))"
  by (simp add: round_robin_Suc round_robin_slice)

lemma round_robin_turns:
  assumes "distinct q" "i \<le> length q"
  shows "\<exists>left'. round_robin quota (\<Sum>t \<leftarrow> take i q. left t + 1) (q, left) = (rotate i q, left') \<and> (\<forall>t \<in> set (drop i q). left' t = left t)"
  using assms(2)
proof (induction i)
  case (Suc i)
  then obtain left' where IH: "round_robin quota (\<Sum>t \<leftarrow> take i q. left t + 1) (q, left) = (rotate i q, left')"
    "\<forall>t \<in> set (drop i q). left' t = left t" by auto
  have i: "i < length q" using Suc.prems by simp
  then have hd: "hd (rotate i q) = q ! i" by (subst hd_rotate_conv_nth) auto
  have d: "drop i q = q ! i # drop (Suc i) q" using i by (simp add: Cons_nth_drop_Suc)
  moreover have "distinct (drop i q)" using assms(1) by simp
  ultimately have "q ! i \<notin> set (drop (Suc i) q)" by simp
  moreover have "left' (q ! i) = left (q ! i)" using IH(2) d by simp
  then have "round_robin quota (left (q ! i) + 1) (rotate i q, left') = (rotate (Suc i) q, left'(q ! i := quota (q ! i)))"
    using round_robin_turn [of quota left' "rotate i q"] hd by simp
  moreover have "(\<Sum>t \<leftarrow> take (Suc i) q. left t + 1) = (\<Sum>t \<leftarrow> take i q. left t + 1) + (left (q ! i) + 1)"
    using i by (simp add: take_Suc_conv_app_nth)
  ultimately show ?case using IH d by (simp only: round_robin_add) auto
qed simp

lemma round_robin_at:
  assumes "distinct q" "i < length q" "(\<Sum>t \<leftarrow> take i q. left t + 1) \<le> n" "n \<le> (\<Sum>t \<leftarrow> take i q. left t + 1) + left (q ! i)"
  shows "fst (round_robin quota n (q, left)) = rotate i q"
proof -
  let ?m = "\<Sum>t \<leftarrow> take i q. left t + 1"
  obtain left' where l: "round_robin quota ?m (q, left) = (rotate i q, left')" "\<forall>t \<in> set (drop i q). left' t = left t"
    using round_robin_turns [OF assms(1), of i quota left] assms(2) by auto
  have hd: "hd (rotate i q) = q ! i" using assms(2) by (subst hd_rotate_conv_nth) auto
  have "q ! i \<in> set (drop i q)" using assms(2) by (simp add: Cons_nth_drop_Suc [symmetric])
  then have "n - ?m \<le> left' (hd (rotate i q))" using l(2) assms(4) hd by simp
  then have "fst (round_robin quota (n - ?m) (rotate i q, left')) = rotate i q"
    using round_robin_slice [of "n - ?m" left' "rotate i q" quota] by simp
  then show ?thesis
    using l(1) assms(3) round_robin_add [of quota ?m "n - ?m"] by simp
qed

text \<open>The kernel refines it.\<close>

definition rr_inv :: "'a threads_scheme \<Rightarrow> (addr \<Rightarrow> nat) \<Rightarrow> addr list \<times> (addr \<Rightarrow> nat) \<Rightarrow> bool" where
  "rr_inv s quota x \<longleftrightarrow> round_inv s (fst x) \<and>
     (\<forall>t \<in> set (fst x). stack_magic (tasks s t) = 0x12345678 \<and> unat (task_ticks (tasks s t)) = snd x t \<and>
        unat (priority (tasks s t)) = quota t)"

lemma rr_inv_computes: "rr_inv s quota x \<Longrightarrow> computes s s' \<Longrightarrow> rr_inv s' quota x"
  by (simp add: rr_inv_def computes_def round_inv_def ready_inv_def kstack_ok_def)

lemma round_inv_cong:
  assumes "round_inv s q" "running_thread s' = running_thread s" "elems s' = elems s"
    "\<And>t. status (tasks s' t) = status (tasks s t)" "\<And>t. self_kstack (tasks s' t) = self_kstack (tasks s t)"
  shows "round_inv s' q"
  using assms by (simp add: round_inv_def ready_inv_def kstack_ok_def)

lemma schedule_task_fields:
  assumes "schedule s = Inr (call_switch_to (running_thread s) nxt (dispatched nxt (preempted (running_thread s) s)))" "schedule s = Inr s'"
  shows "stack_magic (tasks s' t) = stack_magic (tasks s t)" "priority (tasks s' t) = priority (tasks s t)"
    "task_ticks (tasks s' t) = (if t = running_thread s then priority (tasks s t) else task_ticks (tasks s t))"
  using assms by (auto simp: tasks_switch dispatched_def preempted_def)

lemma rr_inv_tick:
  assumes "rr_inv s quota x" "stack_room s"
  shows "\<exists>s'. timer_interrupt s = Inr s' \<and> rr_inv s' quota (rr_tick quota x)"
proof -
  obtain cur rs left where x: "x = (cur # rs, left)"
    using assms(1) by (cases x; cases "fst x") (auto simp: rr_inv_def round_inv_def)
  define u where "u = s\<lparr>eflags := eflags s AND NOT EFLAGS_IF\<rparr>"
  have run: "running_thread u = cur" using assms(1) by (simp add: u_def running_thread_def rr_inv_def round_inv_def x)
  have same: "tasks u = tasks s" "elems u = elems s" "running_thread u = running_thread s" "stack_room u"
    using assms(2) by (simp_all add: u_def running_thread_def stack_room_def)
  have r: "round_inv u (cur # rs)"
  proof (rule round_inv_cong)
    show "round_inv s (cur # rs)" using assms(1) by (simp add: rr_inv_def x)
  qed (simp_all only: same)
  have f: "stack_magic (tasks s t) = 0x12345678" "unat (task_ticks (tasks s t)) = left t" "unat (priority (tasks s t)) = quota t"
    if "t \<in> set (cur # rs)" for t using assms(1) that unfolding rr_inv_def x fst_conv snd_conv by blast+
  have z: "task_ticks (tasks u cur) = 0 \<longleftrightarrow> left cur = 0" using f(2) [of cur] same(1) by (simp add: word_unat_eq_iff)
  have h: "timer_interrupt s = (if left cur = 0 then schedule (accounted 1 u) else Inr (charged 1 u))"
    using timer_handler_cases [of u] f(1) [of cur] z run same by (simp add: timer_interrupt_def u_def)
  show ?thesis
  proof (cases "left cur = 0")
    case True
    let ?a = "accounted 1 u"
    have a: "round_inv ?a (cur # rs)" "intr_get_status ?a = INTR_OFF" "stack_room ?a" "running_thread ?a = cur"
      using same run round_inv_cong [OF r, of ?a] by (simp_all add: u_def)
    have q: "ready_inv ?a rs" "status (tasks ?a cur) = TASK_RUNNING" using a(1) by (simp_all add: round_inv_def)
    obtain s' where s': "schedule ?a = Inr s'"
      "schedule ?a = Inr (call_switch_to cur (hd (rs @ [cur])) (dispatched (hd (rs @ [cur])) (preempted cur ?a)))"
      using schedule_preempt_run(1) [OF q(1) a(2) a(4) [symmetric] q(2) a(3)] by blast
    note fld = schedule_task_fields [OF s'(2) [folded a(4)] s'(1)]
    have "round_inv s' (rotate1 (cur # rs))" by (rule round_inv_schedule [OF a(1-3) s'(1)])
    moreover have "stack_magic (tasks s' t) = 0x12345678 \<and> unat (task_ticks (tasks s' t)) = (left(cur := quota cur)) t \<and>
        unat (priority (tasks s' t)) = quota t" if "t \<in> set (cur # rs)" for t
      using f [OF that] same(1) by (auto simp: fld run)
    ultimately show ?thesis using True h s'(1) by (auto simp: rr_inv_def x)
  next
    case False
    have "round_inv (charged 1 u) (cur # rs)" by (rule round_inv_cong [OF r]) simp_all
    moreover have "unat (task_ticks (tasks s cur) - 1) = left cur - 1"
      using False f(2) [of cur] by (simp add: unat_sub word_le_nat_alt)
    ultimately show ?thesis using False h f same(1) by (simp add: rr_inv_def x charged_ticks run)
  qed
qed

lemma timer_run_refines:
  assumes "timer_run n s s'" "rr_inv s quota x"
  shows "rr_inv s' quota (round_robin quota n x)"
  using assms
proof (induction rule: timer_run.induct)
  case (run_tick n s t t')
  then show ?case using rr_inv_tick [of t quota "round_robin quota n x"] by (auto simp: round_robin_Suc)
qed (simp_all add: rr_inv_computes)

lemma round_inv_distinct: "round_inv s q \<Longrightarrow> distinct q"
  using ready_distinct [of s "tl q"] by (cases q) (auto simp: round_inv_def ready_inv_def)

lemma timer_run_charges:
  assumes "stack_magic (tasks s (running_thread s)) = 0x12345678" "intr_get_status s = INTR_ON" "stack_room s"
    "n \<le> unat (task_ticks (tasks s (running_thread s)))"
  shows "timer_run n s (charged n s)"
  using assms(4)
proof (induction n)
  case 0
  have "charged 0 s = s" by (simp add: charged_def accounted_def upd_task_def)
  then show ?case by (simp add: run_start)
next
  case (Suc n)
  let ?t = "charged n s" and ?f = "eflags s AND NOT EFLAGS_IF"
  have fl: "eflags ?t = eflags s" by (simp add: charged_def accounted_def upd_task_def)
  have on: "intr_get_status ?t = INTR_ON" "stack_room ?t"
    using assms(2,3) by (simp_all add: charged_def accounted_def upd_task_def intr_get_status_def stack_room_def)
  have "task_ticks (tasks ?t (running_thread s)) \<noteq> 0"
  proof
    assume "task_ticks (tasks ?t (running_thread s)) = 0"
    then have "task_ticks (tasks s (running_thread s)) = of_nat n" by (simp add: charged_ticks)
    then have "unat (task_ticks (tasks s (running_thread s))) \<le> n" by (simp add: unsigned_of_nat take_bit_eq_mod)
    with Suc.prems show False by simp
  qed
  then have "timer_interrupt ?t = Inr (charged 1 (?t\<lparr>eflags := ?f\<rparr>))"
    using assms(1) timer_handler_cases [of "?t\<lparr>eflags := ?f\<rparr>"] by (simp add: timer_interrupt_def fl)
  then have "timer_run (Suc n) s (charged 1 (?t\<lparr>eflags := ?f\<rparr>))" using Suc on by (intro run_tick [of n s ?t]) simp_all
  moreover have "charged 1 (?t\<lparr>eflags := ?f\<rparr>) = (charged 1 ?t)\<lparr>eflags := ?f\<rparr>"
    by (simp add: charged_def accounted_def upd_task_def running_thread_def)
  moreover have "computes ((charged 1 ?t)\<lparr>eflags := ?f\<rparr>) (charged 1 ?t)"
    by (simp add: computes_def running_thread_def)
  ultimately show ?case using charged_charged [of 1 n s] by (auto intro: run_compute)
qed

section \<open>Properties\<close>

definition clock0 :: "u32 \<Rightarrow> clock" where
  "clock0 fl = intr.extend (intr0 fl) (clock.fields 0)"

lemma clock0_simps [simp]:
  "tasks (clock0 fl) = tasks0" "elems (clock0 fl) = nodes_ready" "esp (clock0 fl) = 0xc009ef00" "eflags (clock0 fl) = fl"
  "length (idt_table (clock0 fl)) = 48" "ticks (clock0 fl) = 0" "port_out (clock0 fl) = []"
  by (simp_all add: clock0_def intr.extend_def clock.fields_def intr0_def threads.extend_def intr.fields_def
      threads0_def liststore.extend_def threads.fields_def liststore0_def bytemem.extend_def liststore.fields_def
      bytemem0_def machine.extend_def bytemem.fields_def machine0_def)

lemma clock0_facts:
  "running_thread (clock0 fl) = 0xc009e000" "stack_room (clock0 fl)" "ready_inv (clock0 fl) [0xc0100000]"
  "intr_get_status (clock0 2) = INTR_OFF"
  using threads0_facts(3) [of fl]
  by (simp_all add: running_thread_def stack_room_def ready_inv_def kstack_ok_def intr_get_status_def EFLAGS_IF_def)

text \<open>
  The length of a time slice: while a thread has ticks left, a timer interrupt only counts; it
  takes one interrupt more than the ticks of the thread until \<open>schedule\<close> is called, and the time of
  the thread and of the system are counted exactly.
\<close>

theorem time_slice_length:
  assumes "stack_magic (tasks s (running_thread s)) = 0x12345678" "n = unat (task_ticks (tasks s (running_thread s)))"
  shows "(k \<le> n \<longrightarrow> (\<exists>s'. timer_interrupts k s = Inr s' \<and> running_thread s' = running_thread s \<and>
      ticks s' = ticks s + of_nat k \<and>
      elapsed_ticks (tasks s' (running_thread s)) = elapsed_ticks (tasks s (running_thread s)) + of_nat k \<and>
      unat (task_ticks (tasks s' (running_thread s))) = n - k)) \<and>
    timer_interrupts (n + 1) s = schedule (accounted 1 (charged n s))"
proof (intro conjI impI)
  let ?c = "running_thread s"
  show "\<exists>s'. timer_interrupts k s = Inr s' \<and> running_thread s' = ?c \<and> ticks s' = ticks s + of_nat k \<and>
      elapsed_ticks (tasks s' ?c) = elapsed_ticks (tasks s ?c) + of_nat k \<and>
      unat (task_ticks (tasks s' ?c)) = n - k" if k: "k \<le> n"
  proof -
    have "unat (of_nat k :: u8) = k"
      using k assms(2) unsigned_less [of "task_ticks (tasks s ?c)", where ?'a = nat]
      by (simp add: unsigned_of_nat take_bit_nat_eq_self)
    then have "unat (task_ticks (tasks s ?c) - of_nat k) = n - k"
      using k assms(2) by (simp add: unat_sub word_le_nat_alt)
    then show ?thesis
      using timer_interrupts_charge [OF assms(1), of k] k assms(2)
      by (simp add: charged_def accounted_def upd_task_def running_thread_def)
  qed
  have "task_ticks (tasks (charged n s) ?c) = 0" "stack_magic (tasks (charged n s) ?c) = 0x12345678"
    using assms by (simp_all add: charged_def accounted_def upd_task_def)
  then show "timer_interrupts (n + 1) s = schedule (accounted 1 (charged n s))"
    using timer_interrupts_charge [OF assms(1), of n] assms(2) timer_handler_cases [of "charged n s"] by simp
qed

theorem time_slice_length_witness:
  "let s = upd_task 0xc009e000 (\<lambda>t. t\<lparr>task_ticks := 8\<rparr>) (clock0 2)
   in (\<exists>s'. timer_interrupts 8 s = Inr s' \<and> running_thread s' = 0xc009e000 \<and> ticks s' = 8) \<and>
      timer_interrupts 9 s = schedule (accounted 1 (charged 8 s))"
proof -
  let ?s = "upd_task 0xc009e000 (\<lambda>t. t\<lparr>task_ticks := 8\<rparr>) (clock0 2)"
  have r: "running_thread ?s = 0xc009e000"
    by (simp add: upd_task_def clock0_facts)
  have m: "stack_magic (tasks ?s (running_thread ?s)) = 0x12345678" "8 = unat (task_ticks (tasks ?s (running_thread ?s)))"
    by (simp_all add: r) (simp_all add: upd_task_def tasks0_def started_task_def)
  have "ticks ?s = 0" by (simp add: upd_task_def)
  with time_slice_length [OF m, of 8] r show ?thesis
    by (auto simp: Let_def)
qed

text \<open>
  \<open>timer_init\<close> programs counter 0 in mode 2 with both bytes, and the divisor that reaches the
  timer is 53782: the value 119318 for ten interrupts per second does not fit into sixteen bits, and
  the timer interrupts 22 times per second. The timer handler is registered for vector 0x20.
\<close>

theorem timer_init_divisor:
  assumes "length (idt_table s) = IDT_DESC_CNT"
  shows "\<exists>s' lo hi. timer_init s = Inr s' \<and> port_out s' = port_out s @ [(0x43, 0x34), (0x40, lo), (0x40, hi)] \<and>
    unat COUNTER0_VALUE = 119318 \<and> 256 * unat hi + unat lo = 53782 \<and> 1193180 div (53782 :: nat) = 22 \<and>
    idt_table s' = (idt_table s)[0x20 := Intr_Timer_Handler]"
  using assms
  by (simp add: timer_init_def register_handler_def frequency_set_def Let_def outb_def put_str_def IDT_DESC_CNT_def
      COUNTER0_VALUE_def INPUT_FREQUENCY_def IRQ0_FREQUENCY_def)

theorem timer_init_divisor_witness:
  "\<exists>s' lo hi. timer_init (clock0 2) = Inr s' \<and> port_out s' = [(0x43, 0x34), (0x40, lo), (0x40, hi)] \<and>
     256 * unat hi + unat lo = 53782"
  using timer_init_divisor [of "clock0 2"] by (auto simp: IDT_DESC_CNT_def)

text \<open>
  C17: Round robin under the timer: take the running thread and the ready queue as a sequence of threads. While no
  thread blocks or is woken, every run of the threads with \<open>n\<close> timer interrupts follows the abstract round robin
  in which each interrupt uses up a tick of the first thread or ends its slice, so that the sequence stays intact
  and is rotated slice by slice. Every thread gets its turn: the one at position \<open>i\<close> runs when the threads before
  it have had their remaining ticks and one interrupt more each, and keeps running for as many interrupts as it has
  ticks left. No timer interrupt panics as long as there is room on the stack.
\<close>

theorem slices_are_fair:
  assumes "round_inv s q" "\<forall>t \<in> set q. stack_magic (tasks s t) = 0x12345678" "timer_run n s s'"
  defines "left \<equiv> \<lambda>t. unat (task_ticks (tasks s t))" and "quota \<equiv> \<lambda>t. unat (priority (tasks s t))"
  shows "round_inv s' (fst (round_robin quota n (q, left))) \<and>
    (\<forall>i < length q. (\<Sum>t \<leftarrow> take i q. left t + 1) \<le> n \<and> n \<le> (\<Sum>t \<leftarrow> take i q. left t + 1) + left (q ! i) \<longrightarrow>
       running_thread s' = q ! i \<and> round_inv s' (rotate i q)) \<and>
    (stack_room s' \<longrightarrow> (\<exists>s''. timer_interrupt s' = Inr s''))"
proof -
  have "rr_inv s quota (q, left)" using assms(1,2) by (simp add: rr_inv_def left_def quota_def)
  then have r: "rr_inv s' quota (round_robin quota n (q, left))" using timer_run_refines [OF assms(3)] by blast
  then have inv: "round_inv s' (fst (round_robin quota n (q, left)))" by (simp add: rr_inv_def)
  have turn: "running_thread s' = q ! i \<and> round_inv s' (rotate i q)"
    if i: "i < length q" and n: "(\<Sum>t \<leftarrow> take i q. left t + 1) \<le> n" "n \<le> (\<Sum>t \<leftarrow> take i q. left t + 1) + left (q ! i)" for i
  proof -
    have "fst (round_robin quota n (q, left)) = rotate i q"
      by (rule round_robin_at [OF round_inv_distinct [OF assms(1)] i n])
    moreover have "hd (rotate i q) = q ! i" using i by (subst hd_rotate_conv_nth) auto
    ultimately show ?thesis using inv by (simp add: round_inv_def)
  qed
  have "\<exists>s''. timer_interrupt s' = Inr s''" if "stack_room s'"
    using rr_inv_tick [OF r that] by blast
  with inv turn show ?thesis by blast
qed

text \<open>The main thread has two ticks left; after the third interrupt the second thread runs.\<close>

theorem slices_are_fair_witness:
  "\<exists>s'. timer_run 3 (upd_task 0xc009e000 (\<lambda>t. t\<lparr>task_ticks := 2\<rparr>) (clock0 0x202)) s' \<and> running_thread s' = 0xc0100000"
proof -
  let ?s = "upd_task 0xc009e000 (\<lambda>t. t\<lparr>task_ticks := 2\<rparr>) (clock0 0x202)" and ?q = "[0xc009e000, 0xc0100000] :: addr list"
  have run: "running_thread ?s = 0xc009e000" "stack_room ?s" "intr_get_status ?s = INTR_ON"
    by (simp_all add: upd_task_def running_thread_def stack_room_def intr_get_status_def EFLAGS_IF_def)
  have inv: "round_inv ?s ?q"
    using clock0_facts(3) [of "0x202"] run(1)
    by (simp add: round_inv_def ready_inv_def kstack_ok_def upd_task_def tasks0_def started_task_def)
  have magic: "\<forall>t \<in> set ?q. stack_magic (tasks ?s t) = 0x12345678" by (simp add: upd_task_def tasks0_def started_task_def)
  have left: "task_ticks (tasks ?s 0xc009e000) = 2" by (simp add: upd_task_def)
  have two: "timer_run 2 ?s (charged 2 ?s)" using run magic left by (intro timer_run_charges) simp_all
  have on: "intr_get_status (charged 2 ?s) = INTR_ON" "stack_room (charged 2 ?s)"
    using run(2,3) by (simp_all add: charged_def accounted_def upd_task_def intr_get_status_def stack_room_def running_thread_def)
  obtain s' where "timer_interrupt (charged 2 ?s) = Inr s'" using slices_are_fair [OF inv magic two] on by blast
  then have three: "timer_run 3 ?s s'" using run_tick [OF two on] by (simp add: numeral_3_eq_3 numeral_2_eq_2)
  have "(\<Sum>t \<leftarrow> take 1 ?q. unat (task_ticks (tasks ?s t)) + 1) = 3" using left by simp
  then have "running_thread s' = ?q ! 1"
    using slices_are_fair [OF inv magic three, THEN conjunct2, THEN conjunct1, rule_format, of 1] by (metis One_nat_def le_add1 le_refl length_Cons lessI list.size(3) less_Suc_eq)
  with three show ?thesis by auto
qed

end
