(* ===== verification/Sync.thy ===== *)
theory Sync
  imports Timer
begin

text \<open>
  thread/sync.c: binary semaphores and reentrant locks. A \<open>struct semaphore\<close> at address \<open>p\<close> has its
  value at \<open>p\<close> and its list of waiters at \<open>p + 4\<close>; a \<open>struct lock\<close> at \<open>l\<close> has its holder at \<open>l\<close>, its
  semaphore at \<open>l + 4\<close> and its repeat count behind it. Values, holders and repeat counts are stores
  indexed by these addresses, the waiters are lists of the node store.

  A function that may block returns in the model when it calls \<open>thread_block\<close>: the result is
  \<open>Blocked c\<close>, with the local variables \<open>c\<close> that it needs when the thread runs again, or
  \<open>Finished\<close>. The continuation after the switch is the function with suffix \<open>_resume\<close>.
\<close>

section \<open>State\<close>

record syncs = clock +
  sem_value :: "addr \<Rightarrow> u8"
  lock_holder :: "addr \<Rightarrow> addr"
  lock_repeat :: "addr \<Rightarrow> u32"

text \<open>
  The local variables of a blocked \<open>sema_down\<close>: its own \<open>old_status\<close> and that of \<open>thread_block\<close>.
\<close>

datatype 'c outcome = Finished | Blocked 'c

type_synonym down_ctx = "intr_status \<times> intr_status"

definition waiters :: "addr \<Rightarrow> addr" where
  "waiters psema = psema + 4"

definition lock_sema :: "addr \<Rightarrow> addr" where
  "lock_sema plock = plock + 4"

section \<open>Operations\<close>

definition sema_init :: "addr \<Rightarrow> u8 \<Rightarrow> 'a syncs_scheme \<Rightarrow> 'a syncs_scheme" where
  "sema_init psema v s = list_init (waiters psema) (s\<lparr>sem_value := (sem_value s)(psema := v)\<rparr>)"

definition lock_init :: "addr \<Rightarrow> 'a syncs_scheme \<Rightarrow> 'a syncs_scheme" where
  "lock_init plock s =
     (let s = s\<lparr>lock_holder := (lock_holder s)(plock := NULL)\<rparr>;
          s = s\<lparr>lock_repeat := (lock_repeat s)(plock := 0)\<rparr>
      in sema_init (lock_sema plock) 1 s)"

text \<open>The loop of \<open>sema_down\<close> with what follows it, entered with interrupts off.\<close>

definition sema_down_loop ::
    "addr \<Rightarrow> intr_status \<Rightarrow> 'a syncs_scheme \<Rightarrow> err + down_ctx outcome \<times> 'a syncs_scheme" where
  "sema_down_loop psema old_status s =
     (if sem_value s psema = 0 then
        bindE (elem_find (waiters psema) (general_tag (running_thread s)) s) (\<lambda>found.
        ASSERT (\<not> found) ''thread/sync.c'' 26 ''sema_down''
          ''!elem_find(&psema->waiters, &running_thread()->general_tag)''
          (bindE (list_append (waiters psema) (general_tag (running_thread s)) s) (\<lambda>s.
           bindE (thread_block TASK_BLOCKED s) (\<lambda>(blk, s). Inr (Blocked (old_status, blk), s)))))
      else
        let s = s\<lparr>sem_value := (sem_value s)(psema := sem_value s psema - 1)\<rparr>
        in ASSERT (sem_value s psema = 0) ''thread/sync.c'' 31 ''sema_down'' ''psema->value == 0''
             (Inr (Finished, snd (intr_set_status old_status s))))"

definition sema_down :: "addr \<Rightarrow> 'a syncs_scheme \<Rightarrow> err + down_ctx outcome \<times> 'a syncs_scheme" where
  "sema_down psema s = (let (old_status, s) = intr_disable s in sema_down_loop psema old_status s)"

definition sema_down_resume ::
    "addr \<Rightarrow> down_ctx \<Rightarrow> 'a syncs_scheme \<Rightarrow> err + down_ctx outcome \<times> 'a syncs_scheme" where
  "sema_down_resume psema c s = sema_down_loop psema (fst c) (thread_block_resume (snd c) s)"

definition sema_up :: "addr \<Rightarrow> 'a syncs_scheme \<Rightarrow> err + 'a syncs_scheme" where
  "sema_up psema s =
     (let (old_status, s) = intr_disable s
      in ASSERT (sem_value s psema = 0) ''thread/sync.c'' 38 ''sema_up'' ''psema->value == 0''
        (bindE (list_empty (waiters psema) s) (\<lambda>empty.
         bindE (if \<not> empty then
                  bindE (list_pop (waiters psema) s) (\<lambda>(tag, s). thread_unblock (elem2entry 32 tag) s)
                else Inr s) (\<lambda>s.
         let s = s\<lparr>sem_value := (sem_value s)(psema := sem_value s psema + 1)\<rparr>
         in ASSERT (sem_value s psema = 1) ''thread/sync.c'' 46 ''sema_up'' ''psema->value == 1''
              (Inr (snd (intr_set_status old_status s)))))))"

text \<open>The steps of \<open>lock_acquire\<close> and \<open>lock_release\<close> that touch the lock's own fields.\<close>

definition lock_set_holder :: "addr \<Rightarrow> addr \<Rightarrow> 'a syncs_scheme \<Rightarrow> 'a syncs_scheme" where
  "lock_set_holder plock t s = s\<lparr>lock_holder := (lock_holder s)(plock := t)\<rparr>"

definition lock_set_repeat :: "addr \<Rightarrow> u32 \<Rightarrow> 'a syncs_scheme \<Rightarrow> 'a syncs_scheme" where
  "lock_set_repeat plock n s = s\<lparr>lock_repeat := (lock_repeat s)(plock := n)\<rparr>"

definition lock_acquire_repeat :: "addr \<Rightarrow> 'a syncs_scheme \<Rightarrow> err + 'a syncs_scheme" where
  "lock_acquire_repeat plock s =
     ASSERT (lock_repeat s plock = 0) ''thread/sync.c'' 57 ''lock_acquire'' ''plock->holder_repeat_nr == 0''
       (Inr (lock_set_repeat plock 1 s))"

definition lock_acquire_rest ::
    "addr \<Rightarrow> down_ctx outcome \<times> 'a syncs_scheme \<Rightarrow> err + down_ctx outcome \<times> 'a syncs_scheme" where
  "lock_acquire_rest plock r =
     (case r of
        (Blocked c, s) \<Rightarrow> Inr (Blocked c, s)
      | (Finished, s) \<Rightarrow>
          bindE (lock_acquire_repeat plock (lock_set_holder plock (running_thread s) s)) (\<lambda>s. Inr (Finished, s)))"

definition lock_acquire :: "addr \<Rightarrow> 'a syncs_scheme \<Rightarrow> err + down_ctx outcome \<times> 'a syncs_scheme" where
  "lock_acquire plock s =
     (if lock_holder s plock \<noteq> running_thread s then
        bindE (sema_down (lock_sema plock) s) (lock_acquire_rest plock)
      else Inr (Finished, lock_set_repeat plock (lock_repeat s plock + 1) s))"

definition lock_acquire_resume ::
    "addr \<Rightarrow> down_ctx \<Rightarrow> 'a syncs_scheme \<Rightarrow> err + down_ctx outcome \<times> 'a syncs_scheme" where
  "lock_acquire_resume plock c s = bindE (sema_down_resume (lock_sema plock) c s) (lock_acquire_rest plock)"

definition lock_release :: "addr \<Rightarrow> 'a syncs_scheme \<Rightarrow> err + 'a syncs_scheme" where
  "lock_release plock s =
     ASSERT (lock_holder s plock = running_thread s) ''thread/sync.c'' 68 ''lock_release''
       ''plock->holder == running_thread()''
       (if lock_repeat s plock > 1 then Inr (lock_set_repeat plock (lock_repeat s plock - 1) s)
        else
          ASSERT (lock_repeat s plock = 1) ''thread/sync.c'' 74 ''lock_release'' ''plock->holder_repeat_nr == 1''
            (let s = lock_set_holder plock NULL s;
                 s = lock_set_repeat plock 0 s
             in sema_up (lock_sema plock) s))"

section \<open>The operations on well-formed queues\<close>

lemma running_thread_sync [simp]:
  "running_thread (s\<lparr>sem_value := v\<rparr>) = running_thread s" "running_thread (s\<lparr>lock_holder := h\<rparr>) = running_thread s"
  "running_thread (s\<lparr>lock_repeat := r\<rparr>) = running_thread s"
  by (simp_all add: running_thread_def)

text \<open>The uncontended cases.\<close>

lemma sema_down_free:
  assumes "sem_value s p = 1"
  shows "sema_down p s = Inr (Finished, s\<lparr>sem_value := (sem_value s)(p := 0)\<rparr>)"
proof -
  let ?t = "s\<lparr>eflags := eflags s AND NOT EFLAGS_IF, sem_value := (sem_value s)(p := 0)\<rparr>"
  have "sema_down p s = Inr (Finished, snd (intr_set_status (intr_get_status s) ?t))"
    using assms by (simp add: sema_down_def sema_down_loop_def intr_disable_eq Let_def)
  also have "snd (intr_set_status (intr_get_status s) ?t) = ?t\<lparr>eflags := eflags s\<rparr>"
    by (rule intr_restore) simp
  finally show ?thesis by simp
qed

lemma sema_up_no_waiter:
  assumes "sem_value s p = 0" "is_list (elems s) (waiters p) []"
  shows "sema_up p s = Inr (s\<lparr>sem_value := (sem_value s)(p := 1)\<rparr>)"
proof -
  let ?t = "s\<lparr>eflags := eflags s AND NOT EFLAGS_IF, sem_value := (sem_value s)(p := 1)\<rparr>"
  have "sema_up p s = Inr (snd (intr_set_status (intr_get_status s) ?t))"
    using assms by (simp add: sema_up_def list_empty_is_list intr_disable_eq Let_def)
  also have "snd (intr_set_status (intr_get_status s) ?t) = ?t\<lparr>eflags := eflags s\<rparr>"
    by (rule intr_restore) simp
  finally show ?thesis by simp
qed

lemma lock_acquire_free:
  assumes "sem_value s (lock_sema l) = 1" "lock_holder s l \<noteq> running_thread s" "lock_repeat s l = 0"
  shows "lock_acquire l s = Inr (Finished, s\<lparr>sem_value := (sem_value s)(lock_sema l := 0),
    lock_holder := (lock_holder s)(l := running_thread s), lock_repeat := (lock_repeat s)(l := 1)\<rparr>)"
  using assms
  by (simp add: lock_acquire_def sema_down_free lock_acquire_rest_def lock_acquire_repeat_def lock_set_holder_def
      lock_set_repeat_def)

lemma lock_release_no_waiter:
  assumes "sem_value s (lock_sema l) = 0" "lock_holder s l = running_thread s" "lock_repeat s l = 1"
    "is_list (elems s) (waiters (lock_sema l)) []"
  shows "lock_release l s = Inr (s\<lparr>sem_value := (sem_value s)(lock_sema l := 1),
    lock_holder := (lock_holder s)(l := NULL), lock_repeat := (lock_repeat s)(l := 0)\<rparr>)"
proof -
  let ?t = "s\<lparr>lock_holder := (lock_holder s)(l := NULL), lock_repeat := (lock_repeat s)(l := 0)\<rparr>"
  have "lock_release l s = sema_up (lock_sema l) ?t"
    using assms by (simp add: lock_release_def lock_set_holder_def lock_set_repeat_def)
  also have "\<dots> = Inr (?t\<lparr>sem_value := (sem_value s)(lock_sema l := 1)\<rparr>)"
    using assms(1,4) by (subst sema_up_no_waiter) simp_all
  finally show ?thesis by simp
qed

section \<open>Waiting\<close>

text \<open>
  Where a semaphore may lie: its list head and tail are neither thread tags, which have page offset 32,
  nor nodes of the ready queue. The four locks of the kernel are such places.
\<close>

definition sem_place :: "addr \<Rightarrow> bool" where
  "sem_place p \<longleftrightarrow> list_head (waiters p) AND 0xfff \<noteq> 32 \<and> list_tail (waiters p) AND 0xfff \<noteq> 32 \<and>
     list_head (waiters p) \<noteq> NULL \<and> list_tail (waiters p) \<noteq> NULL \<and>
     set (list_nodes (waiters p) []) \<inter> set (list_nodes thread_ready_list []) = {}"

definition wait_inv :: "addr \<Rightarrow> 'a threads_scheme \<Rightarrow> addr list \<Rightarrow> bool" where
  "wait_inv p s ws \<longleftrightarrow> is_list (elems s) (waiters p) (map general_tag ws) \<and>
     (\<forall>t \<in> set ws. page_aligned t \<and> kstack_ok s t \<and> status (tasks s t) = TASK_BLOCKED)"

abbreviation wait_nodes :: "addr \<Rightarrow> addr list \<Rightarrow> addr set" where
  "wait_nodes p ws \<equiv> set (list_nodes (waiters p) (map general_tag ws))"

lemma wait_footprint:
  "sem_place p \<Longrightarrow> page_aligned t \<Longrightarrow> t \<notin> set ws \<Longrightarrow> general_tag t \<notin> wait_nodes p ws"
  using tag_offset(1) [of t] by (auto simp: set_list_nodes sem_place_def)

lemma queues_apart:
  assumes "sem_place p" "\<forall>t \<in> set ws \<union> set rs. page_aligned t" "set ws \<inter> set rs = {}"
  shows "wait_nodes p ws \<inter> ready_nodes rs = {}"
proof -
  have "list_head (waiters p) \<notin> general_tag ` set rs" "list_tail (waiters p) \<notin> general_tag ` set rs"
    using assms(1,2) tag_offset(1) by (auto simp: sem_place_def)
  moreover have "list_head thread_ready_list \<notin> general_tag ` set ws" "list_tail thread_ready_list \<notin> general_tag ` set ws"
    using assms(2) tag_not_sentinel(1) by (fastforce simp: set_list_nodes)+
  moreover have "general_tag ` set ws \<inter> general_tag ` set rs = {}"
    using assms(3) by auto
  ultimately show ?thesis
    using assms(1) by (auto simp: set_list_nodes sem_place_def)
qed

lemma ready_wait_disjoint: "ready_inv s rs \<Longrightarrow> wait_inv p s ws \<Longrightarrow> set ws \<inter> set rs = {}"
  by (force simp: ready_inv_def wait_inv_def)

lemma ready_wait_aligned: "ready_inv s rs \<Longrightarrow> wait_inv p s ws \<Longrightarrow> \<forall>t \<in> set ws \<union> set rs. page_aligned t"
  by (auto simp: ready_inv_def wait_inv_def)

text \<open>The fields that no operation on threads touches.\<close>

definition same_sync :: "'a syncs_scheme \<Rightarrow> 'a syncs_scheme \<Rightarrow> bool" where
  "same_sync s s' \<longleftrightarrow> sem_value s' = sem_value s \<and> lock_holder s' = lock_holder s \<and> lock_repeat s' = lock_repeat s \<and> screen s' = screen s \<and>
     (\<forall>t. stack_magic (tasks s' t) = stack_magic (tasks s t))"

lemma same_sync_switch [simp]:
  "same_sync s (call_switch_to cur nxt (dispatched nxt t)) = same_sync s t"
  by (auto simp: same_sync_def call_switch_to_eq Let_def dispatched_def)

lemma same_sync_suspended [simp]: "same_sync s (suspended stat t) = same_sync s t"
  by (auto simp: same_sync_def suspended_def)

lemma sema_down_loop_blocks:
  assumes "ready_inv s (nxt # rs)" "wait_inv p s ws" "status (tasks s (running_thread s)) = TASK_RUNNING"
    "stack_room s" "sem_place p" "sem_value s p = 0"
  obtains s' where "sema_down_loop p old s = Inr (Blocked (old, intr_get_status s), s')"
    "running_thread s' = nxt" "ready_inv s' rs" "wait_inv p s' (ws @ [running_thread s])"
    "status (tasks s' nxt) = TASK_RUNNING" "intr_get_status s' = INTR_OFF" "same_sync s s'"
proof -
  let ?c = "running_thread s" and ?W = "waiters p"
  define s1 where "s1 = s\<lparr>elems := h_append ?W (general_tag ?c) (elems s)\<rparr>"
  define s' where "s' = call_switch_to ?c nxt (dispatched nxt (suspended TASK_BLOCKED s1))"
  have c: "?c \<notin> set (nxt # rs)" "?c \<notin> set ws" "nxt \<notin> set ws" "nxt \<notin> set rs"
    using assms(1-3) ready_distinct [OF assms(1)] by (auto simp: ready_inv_def wait_inv_def)
  have l: "is_list (elems s) ?W (map general_tag ws)"
    using assms(2) by (simp add: wait_inv_def)
  have tag: "general_tag ?c \<notin> wait_nodes p ws" "general_tag ?c \<notin> ready_nodes (nxt # rs)" "general_tag ?c \<noteq> NULL"
    using wait_footprint [OF assms(5) _ c(2)] ready_footprint [OF _ c(1)] tag_not_sentinel(2) by simp_all
  have ap: "wait_nodes p ws \<inter> ready_nodes (nxt # rs) = {}"
    using assms(5) ready_wait_aligned [OF assms(1,2)] ready_wait_disjoint [OF assms(1,2)] by (rule queues_apart)
  have "elem_find ?W (general_tag ?c) s = Inr False"
    using elem_find_is_list [OF l tag(3)] c(2) by simp
  moreover have "list_append ?W (general_tag ?c) s = Inr s1"
    using list_append_run [OF l tag(3)] by (simp add: s1_def)
  moreover have rs1: "running_thread s1 = ?c" "intr_get_status s1 = intr_get_status s" "stack_room s1"
    using assms(4) by (simp_all add: s1_def intr_get_status_def stack_room_def)
  have k1: "kstack_ok s1 t = kstack_ok s t" "status (tasks s1 t) = status (tasks s t)" for t
    by (simp_all add: kstack_ok_def s1_def)
  have "ready_nodes (nxt # rs) \<inter> insert (general_tag ?c) (wait_nodes p ws) = {}"
    using tag(2) ap by blast
  from lq.enq_last_other [OF l ready_list [OF assms(1)] this] assms(1)
  have r1: "ready_inv s1 (nxt # rs)"
    by (simp add: ready_inv_def k1) (simp add: s1_def)
  note run = thread_block_run [OF r1 _ _ rs1(3), of TASK_BLOCKED, unfolded rs1(1,2), OF c(1), folded s'_def]
  have b: "blocking_status TASK_BLOCKED"
    by (simp add: blocking_status_def)
  ultimately have down: "sema_down_loop p old s = Inr (Blocked (old, intr_get_status s), s')"
    using assms(6) run(1) [OF b] by (simp add: sema_down_loop_def)
  have w1: "is_list (elems s1) ?W (map general_tag (ws @ [?c]))"
    using lq.enq_last_holds [OF l tag(1,3)] by (simp add: s1_def)
  have "wait_nodes p (ws @ [?c]) \<inter> ready_nodes (nxt # rs) = {}"
    using ap tag(2) lq.footprint_snoc [of "waiters p" "map general_tag ws" "general_tag ?c"] by simp
  then have "is_list (elems s') ?W (map general_tag (ws @ [?c]))"
    unfolding run(7) [OF b] using lq.deq_other [OF ready_list [OF r1, unfolded list.map] w1] by simp
  moreover have "page_aligned t \<and> kstack_ok s' t \<and> status (tasks s' t) = TASK_BLOCKED" if "t \<in> set (ws @ [?c])" for t
    using that assms(2) run(4) [OF b, of t] run(8) [OF b] run(9) [OF b, of t] c by (auto simp: wait_inv_def k1)
  ultimately have "wait_inv p s' (ws @ [?c])"
    by (simp add: wait_inv_def)
  moreover have "same_sync s s'"
    by (simp add: s'_def) (simp add: same_sync_def s1_def)
  ultimately show thesis
    using that [OF down run(2,3) [OF b]] run(4) [OF b, of nxt] run(6) [OF b] by simp
qed

lemma eflags_frame [simp, frame_simps]:
  "ready_inv (s\<lparr>eflags := f\<rparr>) rs = ready_inv s rs" "wait_inv p (s\<lparr>eflags := f\<rparr>) ws = wait_inv p s ws"
  "kstack_ok (s\<lparr>eflags := f\<rparr>) t = kstack_ok s t" "stack_room (s\<lparr>eflags := f\<rparr>) = stack_room s"
  by (simp_all add: ready_inv_def wait_inv_def kstack_ok_def stack_room_def)

lemma sema_down_loop_free:
  assumes "sem_value s p = 1"
  shows "sema_down_loop p old s =
    Inr (Finished, s\<lparr>eflags := eflags (snd (intr_set_status old s)), sem_value := (sem_value s)(p := 0)\<rparr>)"
  using assms by (simp add: sema_down_loop_def snd_intr_set_status)

text \<open>\<open>sema_up\<close> with waiters: the first one becomes the first ready thread.\<close>

lemma sema_up_wakes:
  assumes "ready_inv s rs" "wait_inv p s (w # ws)" "sem_place p" "sem_value s p = 0"
  obtains s' where "sema_up p s = Inr s'" "ready_inv s' (w # rs)" "wait_inv p s' ws"
    "sem_value s' = (sem_value s)(p := 1)" "lock_holder s' = lock_holder s" "lock_repeat s' = lock_repeat s"
    "eflags s' = eflags s" "esp s' = esp s" "stk s' = stk s" "screen s' = screen s"
    "tasks s' = (tasks s)(w := (tasks s w)\<lparr>status := TASK_READY\<rparr>)"
proof -
  let ?W = "waiters p"
  define s1 where "s1 = s\<lparr>eflags := eflags s AND NOT EFLAGS_IF, elems := h_pop ?W (elems s)\<rparr>"
  define s' where "s' = (woken w s1)\<lparr>eflags := eflags s, sem_value := (sem_value s)(p := 1)\<rparr>"
  have l: "is_list (elems s) ?W (general_tag w # map general_tag ws)"
    using assms(2) by (simp add: wait_inv_def)
  have ap: "wait_nodes p (w # ws) \<inter> ready_nodes rs = {}"
    using assms(3) ready_wait_aligned [OF assms(1,2)] ready_wait_disjoint [OF assms(1,2)] by (rule queues_apart)
  have w: "page_aligned w" "kstack_ok s w" "status (tasks s w) = TASK_BLOCKED" "w \<notin> set rs" "w \<notin> set ws"
    using assms(2) ready_wait_disjoint [OF assms(1,2)] is_list_distinct [OF l] by (auto simp: wait_inv_def)
  have mv: "is_list (h_push thread_ready_list (general_tag w) (h_pop ?W (elems s))) ?W (map general_tag ws)"
    "is_list (h_push thread_ready_list (general_tag w) (h_pop ?W (elems s))) thread_ready_list (general_tag w # map general_tag rs)"
    using lq.wake_moves [OF l ready_list [OF assms(1)]] ap by simp_all
  have r1: "is_list (elems s1) thread_ready_list (map general_tag rs)"
    using lq.deq_other [OF l ready_list [OF assms(1)]] ap by (simp add: s1_def Int_commute)
  have "thread_unblock w s1 = Inr (woken w s1)"
    using w by (intro thread_unblock_eq [OF r1]) (simp_all add: s1_def blocking_status_def)
  then have "sema_up p s =
      Inr (snd (intr_set_status (intr_get_status s) ((woken w s1)\<lparr>sem_value := (sem_value s)(p := 1)\<rparr>)))"
    using assms(4) l
    by (simp add: sema_up_def intr_disable_eq Let_def list_empty_is_list [where xs = "general_tag w # map general_tag ws"]
        list_pop_run [where xs = "map general_tag ws"] woken_def s1_def)
  also have "\<dots> = Inr (((woken w s1)\<lparr>sem_value := (sem_value s)(p := 1)\<rparr>)\<lparr>eflags := eflags s\<rparr>)"
    by (subst intr_restore) (simp_all add: woken_def s1_def)
  finally have run: "sema_up p s = Inr s'"
    by (simp add: s'_def)
  have t: "tasks s' = (tasks s)(w := (tasks s w)\<lparr>status := TASK_READY\<rparr>)"
    "elems s' = h_push thread_ready_list (general_tag w) (h_pop ?W (elems s))"
    by (simp_all add: s'_def woken_def s1_def)
  have k: "kstack_ok s' u = kstack_ok s u" for u
    by (simp add: kstack_ok_def t)
  have "ready_inv s' (w # rs)" "wait_inv p s' ws"
    using mv assms(1,2) w by (auto simp: ready_inv_def wait_inv_def t k)
  then show thesis
    using that [OF run] t by (simp add: s'_def woken_def s1_def)
qed

lemma sema_down_blocks:
  assumes "ready_inv s (nxt # rs)" "wait_inv p s ws" "status (tasks s (running_thread s)) = TASK_RUNNING"
    "stack_room s" "sem_place p" "sem_value s p = 0"
  obtains s' where "sema_down p s = Inr (Blocked (intr_get_status s, INTR_OFF), s')"
    "running_thread s' = nxt" "ready_inv s' rs" "wait_inv p s' (ws @ [running_thread s])"
    "status (tasks s' nxt) = TASK_RUNNING" "intr_get_status s' = INTR_OFF" "same_sync s s'"
proof -
  let ?s = "s\<lparr>eflags := eflags s AND NOT EFLAGS_IF\<rparr>"
  have "sema_down p s = sema_down_loop p (intr_get_status s) ?s"
    by (simp add: sema_down_def intr_disable_eq)
  moreover have "same_sync s s' = same_sync ?s s'" for s'
    by (simp add: same_sync_def)
  moreover obtain s' where "sema_down_loop p (intr_get_status s) ?s = Inr (Blocked (intr_get_status s, intr_get_status ?s), s')"
    "running_thread s' = nxt" "ready_inv s' rs" "wait_inv p s' (ws @ [running_thread ?s])"
    "status (tasks s' nxt) = TASK_RUNNING" "intr_get_status s' = INTR_OFF" "same_sync ?s s'"
    by (rule sema_down_loop_blocks [of ?s nxt rs p ws "intr_get_status s"])
       (use assms in simp_all)
  ultimately show thesis
    using that [of s'] by simp
qed

section \<open>Properties\<close>

definition syncs0 :: "u32 \<Rightarrow> nodes \<Rightarrow> (addr \<Rightarrow> u8) \<Rightarrow> (addr \<Rightarrow> addr) \<Rightarrow> (addr \<Rightarrow> u32) \<Rightarrow> syncs" where
  "syncs0 fl h v ho r = (clock.extend (clock0 fl) (syncs.fields v ho r))\<lparr>elems := h\<rparr>"

lemma syncs0_simps [simp]:
  "tasks (syncs0 fl h v ho r) = tasks0" "elems (syncs0 fl h v ho r) = h" "esp (syncs0 fl h v ho r) = 0xc009ef00"
  "eflags (syncs0 fl h v ho r) = fl" "sem_value (syncs0 fl h v ho r) = v" "lock_holder (syncs0 fl h v ho r) = ho"
  "lock_repeat (syncs0 fl h v ho r) = r"
  by (simp_all add: syncs0_def clock.extend_def syncs.fields_def clock0_def intr.extend_def clock.fields_def intr0_def
      threads.extend_def intr.fields_def threads0_def liststore.extend_def threads.fields_def liststore0_def bytemem.extend_def
      liststore.fields_def bytemem0_def machine.extend_def bytemem.fields_def machine0_def)

lemma syncs0_facts:
  "running_thread (syncs0 fl h v ho r) = 0xc009e000" "stack_room (syncs0 fl h v ho r)"
  "ready_inv (syncs0 fl nodes_ready v ho r) [0xc0100000]" "status (tasks (syncs0 fl h v ho r) 0xc009e000) = TASK_RUNNING"
  using threads0_facts(3) [of fl]
  by (simp_all add: running_thread_def stack_room_def ready_inv_def kstack_ok_def tasks0_def started_task_def)

text \<open>
  C33: Locks are reentrant: while a thread holds a lock, and has acquired it fewer than 2^32 - 1 times, acquiring it
  again never blocks and counts one more, and the matching release gives back exactly the state before.
\<close>

theorem lock_reentrant:
  assumes "lock_holder s l = running_thread s" "lock_repeat s l \<noteq> 0" "lock_repeat s l \<noteq> 0xffffffff"
  shows "\<exists>s1. lock_acquire l s = Inr (Finished, s1) \<and> lock_repeat s1 l = lock_repeat s l + 1 \<and> lock_release l s1 = Inr s"
proof -
  let ?s1 = "lock_set_repeat l (lock_repeat s l + 1) s"
  have "unat (lock_repeat s l + 1) = unat (lock_repeat s l) + 1"
    using assms(3) by (intro unat_Suc_u32 u32_succ_nonzero)
  moreover have "0 < unat (lock_repeat s l)"
    using assms(2) by (simp add: unat_gt_0)
  ultimately have "lock_repeat s l + 1 > 1"
    by (simp add: word_less_nat_alt)
  moreover have "running_thread ?s1 = running_thread s"
    by (simp add: lock_set_repeat_def)
  ultimately have "lock_release l ?s1 = Inr s"
    using assms(1) by (simp add: lock_release_def lock_set_repeat_def)
  with assms(1) show ?thesis
    by (simp add: lock_acquire_def lock_set_repeat_def)
qed

theorem lock_reentrant_witness:
  "let s = syncs0 2 nodes_ready (\<lambda>_. 0) (\<lambda>_. 0xc009e000) (\<lambda>_. 1)
   in \<exists>s1. lock_acquire 0xc0006304 s = Inr (Finished, s1) \<and> lock_repeat s1 0xc0006304 = 2 \<and>
        lock_release 0xc0006304 s1 = Inr s"
  using lock_reentrant [of "syncs0 2 nodes_ready (\<lambda>_. 0) (\<lambda>_. 0xc009e000) (\<lambda>_. 1)" "0xc0006304"]
  by (simp add: Let_def syncs0_facts)

text \<open>
  A free lock with no waiters: acquiring it does not block and makes the caller the holder with
  count one and semaphore zero; releasing it then restores the state, with the interrupt flag unchanged
  throughout.
\<close>

theorem lock_uncontended:
  assumes "sem_value s (lock_sema l) = 1" "lock_holder s l = NULL" "lock_repeat s l = 0" "running_thread s \<noteq> NULL"
    "is_list (elems s) (waiters (lock_sema l)) []"
  shows "\<exists>s1. lock_acquire l s = Inr (Finished, s1) \<and> lock_holder s1 l = running_thread s \<and> lock_repeat s1 l = 1 \<and>
    sem_value s1 (lock_sema l) = 0 \<and> eflags s1 = eflags s \<and> lock_release l s1 = Inr s"
proof -
  let ?s1 = "s\<lparr>sem_value := (sem_value s)(lock_sema l := 0), lock_holder := (lock_holder s)(l := running_thread s),
    lock_repeat := (lock_repeat s)(l := 1)\<rparr>"
  have "lock_acquire l s = Inr (Finished, ?s1)"
    using assms by (intro lock_acquire_free) simp_all
  moreover have "lock_release l ?s1 = Inr (?s1\<lparr>sem_value := (sem_value ?s1)(lock_sema l := 1),
      lock_holder := (lock_holder ?s1)(l := NULL), lock_repeat := (lock_repeat ?s1)(l := 0)\<rparr>)"
    using assms(5) by (intro lock_release_no_waiter) simp_all
  moreover have "(sem_value s)(lock_sema l := 1) = sem_value s" "(lock_holder s)(l := NULL) = lock_holder s"
    "(lock_repeat s)(l := 0) = lock_repeat s"
    using assms(1-3) by (simp_all add: fun_upd_idem)
  ultimately show ?thesis by simp
qed

theorem lock_uncontended_witness:
  "let s = syncs0 2 (nodes_ready(0xc000630c := \<lparr>le_prev = 0, le_next = 0xc0006314\<rparr>, 0xc0006314 := \<lparr>le_prev = 0xc000630c, le_next = 0\<rparr>))
         (\<lambda>_. 1) (\<lambda>_. 0) (\<lambda>_. 0)
   in \<exists>s1. lock_acquire 0xc0006304 s = Inr (Finished, s1) \<and> lock_holder s1 0xc0006304 = 0xc009e000 \<and>
        lock_release 0xc0006304 s1 = Inr s"
proof -
  let ?h = "nodes_ready(0xc000630c := \<lparr>le_prev = 0, le_next = 0xc0006314\<rparr>, 0xc0006314 := \<lparr>le_prev = 0xc000630c, le_next = 0\<rparr>)"
  have "is_list ?h (waiters (lock_sema 0xc0006304)) []"
    by (simp add: is_list_def list_nodes_def list_head_def list_tail_def waiters_def lock_sema_def)
  then show ?thesis
    using lock_uncontended [of "syncs0 2 ?h (\<lambda>_. 1) (\<lambda>_. 0) (\<lambda>_. 0)" "0xc0006304"]
    by (simp add: Let_def syncs0_facts) blast
qed

text \<open>
  Contention on a semaphore with value 0: \<open>sema_down\<close> puts the running thread at the end of the
  waiters, blocked and with interrupts off, and the first ready thread runs; \<open>sema_up\<close> moves the first
  waiter to the front of the ready queue and sets the value to 1. The queues stay well-formed.
\<close>

theorem semaphore_contention:
  assumes "sem_place p" "sem_value s p = 0" "wait_inv p s ws" "ready_inv s rs"
    "status (tasks s (running_thread s)) = TASK_RUNNING" "stack_room s"
  shows "(rs = nxt # rs' \<longrightarrow> (\<exists>s'. sema_down p s = Inr (Blocked (intr_get_status s, INTR_OFF), s') \<and>
      running_thread s' = nxt \<and> ready_inv s' rs' \<and> wait_inv p s' (ws @ [running_thread s]) \<and> intr_get_status s' = INTR_OFF)) \<and>
    (ws = w # ws' \<longrightarrow> (\<exists>s'. sema_up p s = Inr s' \<and> running_thread s' = running_thread s \<and> ready_inv s' (w # rs) \<and>
      wait_inv p s' ws' \<and> sem_value s' p = 1 \<and> eflags s' = eflags s))"
proof (intro conjI impI)
  show "\<exists>s'. sema_down p s = Inr (Blocked (intr_get_status s, INTR_OFF), s') \<and> running_thread s' = nxt \<and>
      ready_inv s' rs' \<and> wait_inv p s' (ws @ [running_thread s]) \<and> intr_get_status s' = INTR_OFF" if "rs = nxt # rs'"
    by (rule sema_down_blocks [OF assms(4) [unfolded that] assms(3,5,6,1,2)]) blast
  show "\<exists>s'. sema_up p s = Inr s' \<and> running_thread s' = running_thread s \<and> ready_inv s' (w # rs) \<and>
      wait_inv p s' ws' \<and> sem_value s' p = 1 \<and> eflags s' = eflags s" if "ws = w # ws'"
    by (rule sema_up_wakes [OF assms(4) assms(3) [unfolded that] assms(1,2)]) (auto simp: running_thread_def)
qed

theorem semaphore_contention_witness:
  "let h = nodes_ready(0xc000630c := \<lparr>le_prev = 0, le_next = 0xc0006314\<rparr>, 0xc0006314 := \<lparr>le_prev = 0xc000630c, le_next = 0\<rparr>)
   in \<exists>s'. sema_down 0xc0006308 (syncs0 2 h (\<lambda>_. 0) (\<lambda>_. 0) (\<lambda>_. 0)) = Inr (Blocked (INTR_OFF, INTR_OFF), s') \<and>
        running_thread s' = 0xc0100000 \<and> wait_inv 0xc0006308 s' [0xc009e000]"
proof -
  let ?h = "nodes_ready(0xc000630c := \<lparr>le_prev = 0, le_next = 0xc0006314\<rparr>, 0xc0006314 := \<lparr>le_prev = 0xc000630c, le_next = 0\<rparr>)"
  let ?s = "syncs0 2 ?h (\<lambda>_. 0) (\<lambda>_. 0) (\<lambda>_. 0)"
  have p: "sem_place 0xc0006308"
    by (simp add: sem_place_def waiters_def list_head_def list_tail_def list_nodes_def thread_ready_list_def)
  have "is_list ?h (waiters 0xc0006308) []"
    by (simp add: is_list_def list_nodes_def list_head_def list_tail_def waiters_def)
  then have w: "wait_inv 0xc0006308 ?s []"
    by (simp add: wait_inv_def)
  have "is_list ?h thread_ready_list (map general_tag [0xc0100000])"
    by (simp add: is_list_def list_nodes_def list_head_def list_tail_def thread_ready_list_def general_tag_def nodes_ready_def)
  then have r: "ready_inv ?s [0xc0100000]"
    using threads0_facts(3) [of 2] by (simp add: ready_inv_def kstack_ok_def)
  have "intr_get_status ?s = INTR_OFF"
    by (simp add: intr_get_status_def EFLAGS_IF_def)
  with semaphore_contention [OF p _ w r, of "0xc0100000" "[]"] syncs0_facts(2) show ?thesis
    by (auto simp: Let_def syncs0_facts tasks0_def started_task_def)
qed

end
