(* ===== verification/Lock_Protocol.thy ===== *)
theory Lock_Protocol
  imports Sync
begin

text \<open>
  Threads that compete for one lock, under preemption. The functions \<open>lock_acquire\<close> and
  \<open>lock_release\<close> of thread/sync.c are cut at the points where a timer interrupt can come in, which is
  everywhere but inside \<open>sema_down\<close> and \<open>sema_up\<close>; a timer interrupt runs \<open>intr_timer_handler\<close> and so,
  at the end of a slice, the scheduler and the context switch. The step relation is over the kernel
  state of \<open>Sync\<close> and a program counter for each thread; a step that runs into a panic is a step to an
  error. The invariant gives mutual exclusion, that no assertion of the lock, the semaphore, the queues
  or the scheduler fails before the count of nested acquisitions wraps around at 2^32, and that a waiting
  thread is never forgotten.
\<close>

section \<open>Program counters and steps\<close>

text \<open>
  Where a thread stands: outside; before \<open>sema_down\<close>; blocked or woken inside it; before the two
  stores of \<open>lock_acquire\<close>; holding the lock; before the two stores and the \<open>sema_up\<close> of
  \<open>lock_release\<close>; or interrupted by the timer anywhere.
\<close>

datatype lock_pc =
    Outside | Down | Waiting down_ctx | Set_Holder | Set_Repeat | Inside
  | Clear_Holder | Clear_Repeat | Up | Preempted lock_pc

type_synonym 's config = "'s \<times> (addr \<Rightarrow> lock_pc)"

definition down_result :: "down_ctx outcome \<times> 's \<Rightarrow> lock_pc \<times> 's" where
  "down_result r = (case r of (Finished, s) \<Rightarrow> (Set_Holder, s) | (Blocked c, s) \<Rightarrow> (Waiting c, s))"

fun lock_action :: "addr \<Rightarrow> lock_pc \<Rightarrow> 'a syncs_scheme \<Rightarrow> err + lock_pc \<times> 'a syncs_scheme" where
  "lock_action l Down s = bindE (sema_down (lock_sema l) s) (\<lambda>r. Inr (down_result r))"
| "lock_action l (Waiting c) s = bindE (sema_down_resume (lock_sema l) c s) (\<lambda>r. Inr (down_result r))"
| "lock_action l Set_Holder s = Inr (Set_Repeat, lock_set_holder l (running_thread s) s)"
| "lock_action l Set_Repeat s = bindE (lock_acquire_repeat l s) (\<lambda>s. Inr (Inside, s))"
| "lock_action l Clear_Holder s = Inr (Clear_Repeat, lock_set_holder l NULL s)"
| "lock_action l Clear_Repeat s = Inr (Up, lock_set_repeat l 0 s)"
| "lock_action l Up s = bindE (sema_up (lock_sema l) s) (\<lambda>s. Inr (Outside, s))"
| "lock_action l (Preempted pc) s = Inr (pc, s\<lparr>eflags := eflags s OR EFLAGS_IF\<rparr>)"
| "lock_action l pc s =
     (if lock_holder s l \<noteq> running_thread s then Inr (Down, s)
      else Inr (Inside, lock_set_repeat l (lock_repeat s l + 1) s))"

definition lock_release_check :: "addr \<Rightarrow> 'a syncs_scheme \<Rightarrow> err + lock_pc \<times> 'a syncs_scheme" where
  "lock_release_check l s =
     ASSERT (lock_holder s l = running_thread s) ''thread/sync.c'' 68 ''lock_release''
       ''plock->holder == running_thread()''
       (if lock_repeat s l > 1 then Inr (Inside, lock_set_repeat l (lock_repeat s l - 1) s)
        else ASSERT (lock_repeat s l = 1) ''thread/sync.c'' 74 ''lock_release'' ''plock->holder_repeat_nr == 1''
          (Inr (Clear_Holder, s)))"

text \<open>What a thread computes by itself: anything but the kernel's queues, tasks, locks and other stacks.\<close>

definition local_step :: "'a syncs_scheme \<Rightarrow> 'a syncs_scheme \<Rightarrow> bool" where
  "local_step s s' \<longleftrightarrow> running_thread s' = running_thread s \<and> elems s' = elems s \<and> tasks s' = tasks s \<and>
     sem_value s' = sem_value s \<and> lock_holder s' = lock_holder s \<and> lock_repeat s' = lock_repeat s"

inductive lock_step :: "addr \<Rightarrow> 'a syncs_scheme config \<Rightarrow> err + 'a syncs_scheme config \<Rightarrow> bool" for l where
  step_act: "stack_room s \<Longrightarrow> pc = pcs (running_thread s) \<Longrightarrow>
    lock_step l (s, pcs) (bindE (lock_action l pc s) (\<lambda>(pc', s'). Inr (s', pcs(running_thread s := pc'))))"
| step_release: "pcs (running_thread s) = Inside \<Longrightarrow>
    lock_step l (s, pcs) (bindE (lock_release_check l s) (\<lambda>(pc', s'). Inr (s', pcs(running_thread s := pc'))))"
| step_timer: "stack_room s \<Longrightarrow> intr_get_status s = INTR_ON \<Longrightarrow>
    lock_step l (s, pcs) (bindE (intr_timer_handler (s\<lparr>eflags := eflags s AND NOT EFLAGS_IF\<rparr>))
      (\<lambda>s'. Inr (s', pcs(running_thread s := Preempted (pcs (running_thread s))))))"
| step_local: "local_step s s' \<Longrightarrow> lock_step l (s, pcs) (Inr (s', pcs))"

inductive lock_reach :: "addr \<Rightarrow> 'a syncs_scheme config \<Rightarrow> 'a syncs_scheme config \<Rightarrow> bool" for l c where
  reach_refl: "lock_reach l c c"
| reach_step: "lock_reach l c d \<Longrightarrow> lock_step l d (Inr e) \<Longrightarrow> lock_reach l c e"

text \<open>The same, with the number of steps.\<close>

inductive lock_run :: "addr \<Rightarrow> nat \<Rightarrow> 'a syncs_scheme config \<Rightarrow> 'a syncs_scheme config \<Rightarrow> bool" for l where
  run_refl: "lock_run l 0 c c"
| run_step: "lock_run l n c d \<Longrightarrow> lock_step l d (Inr e) \<Longrightarrow> lock_run l (Suc n) c e"

lemma lock_reach_run: "lock_reach l c d \<longleftrightarrow> (\<exists>n. lock_run l n c d)"
proof
  show "\<exists>n. lock_run l n c d" if "lock_reach l c d"
    using that by (induction rule: lock_reach.induct) (blast intro: run_refl run_step)+
  show "lock_reach l c d" if "\<exists>n. lock_run l n c d"
  proof -
    from that obtain n where "lock_run l n c d" ..
    then show ?thesis by (induction rule: lock_run.induct) (blast intro: reach_refl reach_step)+
  qed
qed

inductive_cases lock_stepE: "lock_step l (s, pcs) r"

section \<open>The invariant\<close>

fun core :: "lock_pc \<Rightarrow> lock_pc" where
  "core (Preempted pc) = core pc"
| "core pc = pc"

definition in_section :: "lock_pc \<Rightarrow> bool" where
  "in_section pc \<longleftrightarrow> core pc \<in> {Set_Holder, Set_Repeat, Inside, Clear_Holder, Clear_Repeat, Up}"

definition is_holder :: "lock_pc \<Rightarrow> bool" where
  "is_holder pc \<longleftrightarrow> core pc \<in> {Set_Repeat, Inside, Clear_Holder}"

definition is_counted :: "lock_pc \<Rightarrow> bool" where
  "is_counted pc \<longleftrightarrow> core pc \<in> {Inside, Clear_Holder, Clear_Repeat}"

definition is_waiting :: "lock_pc \<Rightarrow> bool" where
  "is_waiting pc \<longleftrightarrow> (\<exists>c. pc = Waiting c)"

text \<open>The threads are the running one, the ready ones and the waiting ones.\<close>

definition queue_inv :: "addr \<Rightarrow> addr set \<Rightarrow> 'a syncs_scheme \<Rightarrow> (addr \<Rightarrow> lock_pc) \<Rightarrow> addr list \<Rightarrow> addr list \<Rightarrow> bool" where
  "queue_inv l T s pcs rs ws \<longleftrightarrow> ready_inv s rs \<and> wait_inv (lock_sema l) s ws \<and>
     status (tasks s (running_thread s)) = TASK_RUNNING \<and> T = insert (running_thread s) (set rs \<union> set ws) \<and>
     (\<forall>t \<in> set ws. is_waiting (pcs t)) \<and> (\<forall>t \<in> T. stack_magic (tasks s t) = 0x12345678) \<and> NULL \<notin> T"

text \<open>
  The count of the holder after at most \<open>n\<close> steps: it is 0 when nobody is counted; it is a 32-bit word and
  may wrap around to 0 while somebody is, but not in less than 2^32 steps.
\<close>

definition rep_ok :: "nat \<Rightarrow> u32 \<Rightarrow> bool \<Rightarrow> bool" where
  "rep_ok n r counted \<longleftrightarrow> (\<not> counted \<longrightarrow> r = 0) \<and> (n < 2 ^ 32 \<longrightarrow> (counted \<longrightarrow> r \<noteq> 0) \<and> unat r \<le> n)"

lemma rep_ok_steps:
  "rep_ok n r c \<Longrightarrow> rep_ok (Suc n) r c" "rep_ok n 0 False" "rep_ok (Suc n) 1 True"
  "rep_ok n r True \<Longrightarrow> 1 < r \<Longrightarrow> rep_ok (Suc n) (r - 1) True"
  by (auto simp: rep_ok_def word_less_nat_alt unat_sub word_le_nat_alt)

lemma rep_ok_nested:
  assumes "rep_ok n r True"
  shows "rep_ok (Suc n) (r + 1) True"
proof (cases "Suc n < 2 ^ 32")
  case True
  with assms have r: "unat r + 1 \<le> Suc n" by (simp add: rep_ok_def)
  with True have "unat (r + 1) = unat r + 1" by (simp add: unat_add_u32)
  with r show ?thesis by (auto simp: rep_ok_def)
qed (simp add: rep_ok_def)

definition field_inv :: "addr \<Rightarrow> addr set \<Rightarrow> nat \<Rightarrow> 'a syncs_scheme \<Rightarrow> (addr \<Rightarrow> lock_pc) \<Rightarrow> bool" where
  "field_inv l T n s pcs \<longleftrightarrow>
     (\<forall>t \<in> T. \<forall>u \<in> T. in_section (pcs t) \<and> in_section (pcs u) \<longrightarrow> t = u) \<and>
     sem_value s (lock_sema l) = (if \<exists>t \<in> T. in_section (pcs t) then 0 else 1) \<and>
     (\<forall>t \<in> T. lock_holder s l = t \<longleftrightarrow> is_holder (pcs t)) \<and>
     rep_ok n (lock_repeat s l) (\<exists>t \<in> T. is_counted (pcs t))"

definition wake_inv :: "addr set \<Rightarrow> (addr \<Rightarrow> lock_pc) \<Rightarrow> addr list \<Rightarrow> bool" where
  "wake_inv T pcs ws \<longleftrightarrow> (ws \<noteq> [] \<longrightarrow>
     (\<exists>t \<in> T. in_section (pcs t)) \<or> (\<exists>t \<in> T - set ws. is_waiting (core (pcs t))))"

definition lock_inv :: "addr \<Rightarrow> addr set \<Rightarrow> nat \<Rightarrow> 'a syncs_scheme config \<Rightarrow> bool" where
  "lock_inv l T n c \<longleftrightarrow> (\<exists>rs ws. queue_inv l T (fst c) (snd c) rs ws \<and> field_inv l T n (fst c) (snd c) \<and>
     wake_inv T (snd c) ws)"

lemma inv_mono:
  "field_inv l T n s pcs \<Longrightarrow> field_inv l T (Suc n) s pcs" "lock_inv l T n c \<Longrightarrow> lock_inv l T (Suc n) c"
proof -
  show f: "field_inv l T (Suc n) s pcs" if "field_inv l T n s pcs" for s pcs
    using that rep_ok_steps(1) by (simp add: field_inv_def)
  show "lock_inv l T n c \<Longrightarrow> lock_inv l T (Suc n) c"
    unfolding lock_inv_def using f by blast
qed

lemma section_kinds:
  "is_holder pc \<Longrightarrow> in_section pc" "is_counted pc \<Longrightarrow> in_section pc"
  "in_section (Preempted pc) = in_section pc" "is_holder (Preempted pc) = is_holder pc"
  "is_counted (Preempted pc) = is_counted pc" "is_waiting pc \<Longrightarrow> \<not> in_section pc" "is_waiting pc \<Longrightarrow> is_waiting (core pc)"
  by (auto simp: is_holder_def is_counted_def in_section_def is_waiting_def)

lemma section_simps [simp]:
  "in_section Outside = False" "in_section Down = False" "in_section (Waiting c) = False"
  "in_section Set_Holder" "in_section Set_Repeat" "in_section Inside" "in_section Clear_Holder"
  "in_section Clear_Repeat" "in_section Up"
  "is_holder Outside = False" "is_holder Down = False" "is_holder (Waiting c) = False" "is_holder Set_Holder = False"
  "is_holder Set_Repeat" "is_holder Inside" "is_holder Clear_Holder" "is_holder Clear_Repeat = False" "is_holder Up = False"
  "is_counted Outside = False" "is_counted Down = False" "is_counted (Waiting c) = False" "is_counted Set_Holder = False"
  "is_counted Set_Repeat = False" "is_counted Inside" "is_counted Clear_Holder" "is_counted Clear_Repeat" "is_counted Up = False"
  "is_waiting Outside = False" "is_waiting Down = False" "is_waiting (Waiting c)" "is_waiting Set_Holder = False"
  "is_waiting Set_Repeat = False" "is_waiting Inside = False" "is_waiting Clear_Holder = False"
  "is_waiting Clear_Repeat = False" "is_waiting Up = False" "is_waiting (Preempted pc) = False"
  by (simp_all add: in_section_def is_holder_def is_counted_def is_waiting_def)

lemma queue_running:
  assumes "queue_inv l T s pcs rs ws"
  shows "running_thread s \<in> T" "running_thread s \<notin> set rs" "running_thread s \<notin> set ws"
    "set rs \<inter> set ws = {}" "running_thread s \<noteq> NULL"
  using assms ready_wait_disjoint [of s rs "lock_sema l" ws]
  by (auto simp: queue_inv_def ready_inv_def wait_inv_def)

text \<open>A step that leaves the queues alone may change the program counter of the running thread only.\<close>

lemma queue_inv_step:
  assumes "queue_inv l T s pcs rs ws" "running_thread s' = running_thread s" "elems s' = elems s" "tasks s' = tasks s"
  shows "queue_inv l T s' (pcs(running_thread s := pc)) rs ws"
  using assms queue_running(3) [OF assms(1)]
  by (auto simp: queue_inv_def ready_inv_def wait_inv_def kstack_ok_def)

section \<open>Every step keeps the invariant and none fails\<close>

text \<open>
  The accounting when the program counter of one thread changes: the other threads are outside the
  section whenever this one is inside.
\<close>

lemma field_inv_alone:
  assumes "field_inv l T n s pcs" "cur \<in> T" "in_section (pcs cur)" "t \<in> T" "t \<noteq> cur"
  shows "\<not> in_section (pcs t)" "\<not> is_holder (pcs t)" "\<not> is_counted (pcs t)"
  using assms section_kinds(1,2) by (auto simp: field_inv_def)

lemma field_inv_inside:
  assumes "field_inv l T n s pcs" "cur \<in> T" "in_section (pcs cur)"
    "in_section pc" "sem_value s' (lock_sema l) = 0"
    "\<And>t. t \<in> T \<Longrightarrow> lock_holder s' l = t \<longleftrightarrow> t = cur \<and> is_holder pc" "rep_ok m (lock_repeat s' l) (is_counted pc)"
  shows "field_inv l T m s' (pcs(cur := pc))"
proof -
  have "in_section ((pcs(cur := pc)) t) = (t = cur)" "is_holder ((pcs(cur := pc)) t) = (t = cur \<and> is_holder pc)"
    "is_counted ((pcs(cur := pc)) t) = (t = cur \<and> is_counted pc)" if "t \<in> T" for t
    using field_inv_alone [OF assms(1-3) that] assms(4) by auto
  then show ?thesis
    using assms(2,5-7) by (auto simp: field_inv_def simp del: fun_upd_apply)
qed

lemma field_inv_enter:
  assumes "field_inv l T n s pcs" "cur \<in> T" "\<forall>t \<in> T. \<not> in_section (pcs t)"
    "sem_value s' (lock_sema l) = 0" "lock_holder s' = lock_holder s" "lock_repeat s' = lock_repeat s"
  shows "field_inv l T n s' (pcs(cur := Set_Holder))"
proof -
  have "\<not> is_counted (pcs t)" "\<not> is_counted ((pcs(cur := Set_Holder)) t)" if "t \<in> T" for t
    using assms(3) section_kinds(2) that by auto
  then have "(\<exists>t \<in> T. is_counted ((pcs(cur := Set_Holder)) t)) = (\<exists>t \<in> T. is_counted (pcs t))" by blast
  with assms section_kinds(1) show ?thesis by (auto simp: field_inv_def)
qed

lemma field_inv_leave:
  assumes "field_inv l T n s pcs" "cur \<in> T" "pcs cur = Up"
    "sem_value s' (lock_sema l) = 1" "lock_holder s' = lock_holder s" "lock_repeat s' = lock_repeat s"
  shows "field_inv l T n s' (pcs(cur := Outside))"
proof -
  have i: "in_section (pcs cur)" by (simp add: assms(3))
  have "\<not> in_section ((pcs(cur := Outside)) t)" "is_holder ((pcs(cur := Outside)) t) = is_holder (pcs t)"
    "is_counted ((pcs(cur := Outside)) t) = is_counted (pcs t)" if "t \<in> T" for t
    using field_inv_alone [OF assms(1,2) i that] assms(3) by auto
  with assms(1,4-6) show ?thesis
    by (simp add: field_inv_def del: fun_upd_apply)
qed

lemma field_inv_preempt:
  assumes "field_inv l T n s pcs" "sem_value s' = sem_value s" "lock_holder s' = lock_holder s" "lock_repeat s' = lock_repeat s"
    "in_section pc = in_section (pcs cur)" "is_holder pc = is_holder (pcs cur)" "is_counted pc = is_counted (pcs cur)"
  shows "field_inv l T n s' (pcs(cur := pc))"
proof -
  have "in_section ((pcs(cur := pc)) t) = in_section (pcs t)" "is_holder ((pcs(cur := pc)) t) = is_holder (pcs t)"
    "is_counted ((pcs(cur := pc)) t) = is_counted (pcs t)" for t
    using assms(5-7) by simp_all
  with assms(1-4) show ?thesis by (simp add: field_inv_def del: fun_upd_apply)
qed

lemma field_inv_outside:
  assumes "field_inv l T n s pcs" "\<not> in_section (pcs cur)" "\<not> in_section pc"
    "sem_value s' = sem_value s" "lock_holder s' = lock_holder s" "lock_repeat s' = lock_repeat s"
  shows "field_inv l T n s' (pcs(cur := pc))"
  using assms section_kinds(1,2) by (intro field_inv_preempt [OF assms(1)]) auto

lemma wake_inv_section: "t \<in> T \<Longrightarrow> in_section (pcs t) \<Longrightarrow> wake_inv T pcs ws"
  by (auto simp: wake_inv_def)

lemma wake_inv_quiet:
  assumes "wake_inv T pcs ws" "in_section (pcs cur) \<Longrightarrow> in_section pc" "is_waiting (core (pcs cur)) \<Longrightarrow> is_waiting (core pc)"
  shows "wake_inv T (pcs(cur := pc)) ws"
proof -
  have "in_section (pcs t) \<Longrightarrow> in_section ((pcs(cur := pc)) t)"
    "is_waiting (core (pcs t)) \<Longrightarrow> is_waiting (core ((pcs(cur := pc)) t))" for t
    using assms(2,3) by auto
  with assms(1) show ?thesis unfolding wake_inv_def by blast
qed

lemma lock_inv_quiet:
  assumes "queue_inv l T s pcs rs ws" "running_thread s' = running_thread s" "elems s' = elems s" "tasks s' = tasks s"
    "field_inv l T n s' (pcs(running_thread s := pc))" "wake_inv T (pcs(running_thread s := pc)) ws"
  shows "lock_inv l T n (s', pcs(running_thread s := pc))"
  unfolding lock_inv_def fst_conv snd_conv using queue_inv_step [OF assms(1-4)] assms(5,6) by blast

lemma ready_has_section:
  assumes "queue_inv l T s pcs rs ws" "field_inv l T n s pcs" "\<not> in_section (pcs (running_thread s))"
    "sem_value s (lock_sema l) = 0"
  shows "\<exists>nxt rs'. rs = nxt # rs'" "\<exists>t \<in> T. in_section (pcs t)"
proof -
  show i: "\<exists>t \<in> T. in_section (pcs t)"
    using assms(2,4) by (auto simp: field_inv_def split: if_splits)
  then obtain h where h: "h \<in> T" "in_section (pcs h)" by blast
  then have "h \<noteq> running_thread s" "h \<notin> set ws"
    using assms(1,3) section_kinds(6) by (auto simp: queue_inv_def)
  then have "h \<in> set rs"
    using h(1) assms(1) by (auto simp: queue_inv_def)
  then show "\<exists>nxt rs'. rs = nxt # rs'" by (cases rs) auto
qed

text \<open>\<open>sema_down\<close>, entered or resumed: it takes the lock or joins the waiters, and another thread runs.\<close>

lemma down_step:
  assumes "queue_inv l T s pcs rs ws" "field_inv l T n s pcs" "\<not> in_section (pcs (running_thread s))"
    "sem_place (lock_sema l)" "stack_room s"
  shows "\<exists>pc s'. bindE (sema_down_loop (lock_sema l) old s) (\<lambda>r. Inr (down_result r)) = Inr (pc, s') \<and>
    lock_inv l T n (s', pcs(running_thread s := pc))"
proof (cases "sem_value s (lock_sema l) = 0")
  case False
  let ?s' = "s\<lparr>eflags := eflags (snd (intr_set_status old s)), sem_value := (sem_value s)(lock_sema l := 0)\<rparr>"
  have v: "sem_value s (lock_sema l) = 1" "\<forall>t \<in> T. \<not> in_section (pcs t)"
    using False assms(2) by (auto simp: field_inv_def split: if_splits)
  have c: "running_thread s \<in> T"
    using assms(1) by (rule queue_running)
  have "field_inv l T n ?s' (pcs(running_thread s := Set_Holder))"
    by (rule field_inv_enter [OF assms(2) c v(2)]) simp_all
  then have "lock_inv l T n (?s', pcs(running_thread s := Set_Holder))"
    using c by (intro lock_inv_quiet [OF assms(1)] wake_inv_section [OF c]) simp_all
  with sema_down_loop_free [OF v(1), of old] show ?thesis
    by (simp add: down_result_def)
next
  case True
  let ?c = "running_thread s"
  obtain nxt rs' where r: "rs = nxt # rs'"
    using ready_has_section(1) [OF assms(1-3) True] by blast
  have q: "ready_inv s (nxt # rs')" "wait_inv (lock_sema l) s ws" "status (tasks s ?c) = TASK_RUNNING"
    using assms(1) by (simp_all add: queue_inv_def r)
  obtain s' where d: "sema_down_loop (lock_sema l) old s = Inr (Blocked (old, intr_get_status s), s')"
    "running_thread s' = nxt" "ready_inv s' rs'" "wait_inv (lock_sema l) s' (ws @ [?c])"
    "status (tasks s' nxt) = TASK_RUNNING" "same_sync s s'"
    by (rule sema_down_loop_blocks [OF q assms(5,4) True, of old])
  let ?p = "pcs(?c := Waiting (old, intr_get_status s))"
  have "queue_inv l T s' ?p rs' (ws @ [?c])"
    using assms(1) d(2-6) by (auto simp: queue_inv_def r same_sync_def)
  moreover have "field_inv l T n s' ?p"
    using d(6) by (intro field_inv_outside [OF assms(2,3)]) (simp_all add: same_sync_def)
  moreover obtain t where t: "t \<in> T" "in_section (pcs t)"
    using ready_has_section(2) [OF assms(1-3) True] by blast
  moreover have "wake_inv T ?p (ws @ [?c])"
    using t assms(3) by (intro wake_inv_section [OF t(1)]) auto
  ultimately have "lock_inv l T n (s', ?p)"
    by (auto simp: lock_inv_def)
  with d(1) show ?thesis
    by (simp add: down_result_def)
qed

lemma up_step:
  assumes "queue_inv l T s pcs rs ws" "field_inv l T n s pcs" "pcs (running_thread s) = Up" "sem_place (lock_sema l)"
  shows "\<exists>s'. sema_up (lock_sema l) s = Inr s' \<and> lock_inv l T n (s', pcs(running_thread s := Outside))"
proof -
  let ?c = "running_thread s" and ?p = "pcs(running_thread s := Outside)"
  have c: "?c \<in> T" "?c \<notin> set ws"
    using queue_running [OF assms(1)] by simp_all
  have "\<exists>t \<in> T. in_section (pcs t)"
    using c(1) assms(3) by (intro bexI [of _ ?c]) simp_all
  then have v: "sem_value s (lock_sema l) = 0"
    using assms(2) by (simp add: field_inv_def)
  have q: "ready_inv s rs" "wait_inv (lock_sema l) s ws"
    using assms(1) by (simp_all add: queue_inv_def)
  show ?thesis
  proof (cases ws)
    case Nil
    let ?s' = "s\<lparr>sem_value := (sem_value s)(lock_sema l := 1)\<rparr>"
    have "sema_up (lock_sema l) s = Inr ?s'"
      using q(2) Nil v by (intro sema_up_no_waiter) (simp_all add: wait_inv_def)
    moreover have "lock_inv l T n (?s', ?p)"
      using Nil by (intro lock_inv_quiet [OF assms(1)] field_inv_leave [OF assms(2) c(1) assms(3)])
        (simp_all add: wake_inv_def)
    ultimately show ?thesis by blast
  next
    case (Cons w ws')
    obtain s' where u: "sema_up (lock_sema l) s = Inr s'" "ready_inv s' (w # rs)" "wait_inv (lock_sema l) s' ws'"
      "sem_value s' = (sem_value s)(lock_sema l := 1)" "lock_holder s' = lock_holder s" "lock_repeat s' = lock_repeat s"
      "eflags s' = eflags s" "esp s' = esp s" "stk s' = stk s" "tasks s' = (tasks s)(w := (tasks s w)\<lparr>status := TASK_READY\<rparr>)"
      by (rule sema_up_wakes [OF q(1) q(2)[unfolded Cons] assms(4) v])
    have r: "running_thread s' = ?c" "w \<noteq> ?c"
      using u(8) c(2) Cons by (auto simp: running_thread_def)
    have w: "w \<in> T" "is_waiting (pcs w)" "w \<notin> set ws'"
      using assms(1) u(2,3) by (auto simp: queue_inv_def Cons ready_inv_def wait_inv_def)
    have "queue_inv l T s' ?p (w # rs) ws'"
      using assms(1) u(2,3,10) r c(2) by (auto simp: queue_inv_def Cons)
    moreover have "field_inv l T n s' ?p"
      using u(4-6) by (intro field_inv_leave [OF assms(2) c(1) assms(3)]) simp_all
    moreover have "wake_inv T ?p ws'"
      using w r(2) section_kinds(7) by (auto simp: wake_inv_def)
    ultimately show ?thesis
      using u(1) by (auto simp: lock_inv_def)
  qed
qed

lemma sema_down_is_loop:
  "sema_down p s = sema_down_loop p (intr_get_status s) (s\<lparr>eflags := eflags s AND NOT EFLAGS_IF\<rparr>)"
  "sema_down_resume p c s = sema_down_loop p (fst c)
     (s\<lparr>eflags := if snd c = INTR_ON then eflags s OR EFLAGS_IF else eflags s AND NOT EFLAGS_IF\<rparr>)"
  by (simp_all add: sema_down_def intr_disable_eq sema_down_resume_def thread_block_resume_def snd_intr_set_status)

lemma inv_eflags:
  "queue_inv l T (s\<lparr>eflags := f\<rparr>) pcs rs ws = queue_inv l T s pcs rs ws"
  "field_inv l T n (s\<lparr>eflags := f\<rparr>) pcs = field_inv l T n s pcs"
  by (simp_all add: queue_inv_def field_inv_def)

lemma field_inv_values:
  assumes "field_inv l T n s pcs" "cur \<in> T" "in_section (pcs cur)"
  shows "sem_value s (lock_sema l) = 0" "lock_holder s l = cur \<longleftrightarrow> is_holder (pcs cur)"
    "rep_ok n (lock_repeat s l) (is_counted (pcs cur))"
proof -
  have "\<exists>t \<in> T. in_section (pcs t)"
    using assms(2,3) by blast
  then show "sem_value s (lock_sema l) = 0" "lock_holder s l = cur \<longleftrightarrow> is_holder (pcs cur)"
    using assms(1,2) by (simp_all add: field_inv_def)
  have "is_counted (pcs t) \<longleftrightarrow> t = cur \<and> is_counted (pcs cur)" if "t \<in> T" for t
    using field_inv_alone(3) [OF assms that] by auto
  then have "(\<exists>t \<in> T. is_counted (pcs t)) \<longleftrightarrow> is_counted (pcs cur)"
    using assms(2) by blast
  with assms(1) show "rep_ok n (lock_repeat s l) (is_counted (pcs cur))"
    by (simp add: field_inv_def)
qed

lemma section_step:
  assumes "queue_inv l T s pcs rs ws" "field_inv l T n s pcs" "in_section (pcs (running_thread s))" "in_section pc"
    "running_thread s' = running_thread s" "elems s' = elems s" "tasks s' = tasks s" "sem_value s' = sem_value s"
    "\<And>t. t \<in> T \<Longrightarrow> lock_holder s' l = t \<longleftrightarrow> t = running_thread s \<and> is_holder pc"
    "rep_ok m (lock_repeat s' l) (is_counted pc)"
  shows "lock_inv l T m (s', pcs(running_thread s := pc))"
proof -
  have c: "running_thread s \<in> T"
    using queue_running [OF assms(1)] by simp
  have "sem_value s' (lock_sema l) = 0"
    using field_inv_values(1) [OF assms(2) c assms(3)] assms(8) by simp
  then show ?thesis
    using assms(4,9,10) by (intro lock_inv_quiet [OF assms(1,5-7)] field_inv_inside [OF assms(2) c assms(3)]
      wake_inv_section [OF c]) simp_all
qed

lemma lock_fields_simps [simp]:
  "running_thread (lock_set_holder l t s) = running_thread s" "elems (lock_set_holder l t s) = elems s"
  "tasks (lock_set_holder l t s) = tasks s" "sem_value (lock_set_holder l t s) = sem_value s"
  "lock_holder (lock_set_holder l t s) = (lock_holder s)(l := t)" "lock_repeat (lock_set_holder l t s) = lock_repeat s"
  "running_thread (lock_set_repeat l n s) = running_thread s" "elems (lock_set_repeat l n s) = elems s"
  "tasks (lock_set_repeat l n s) = tasks s" "sem_value (lock_set_repeat l n s) = sem_value s"
  "lock_holder (lock_set_repeat l n s) = lock_holder s" "lock_repeat (lock_set_repeat l n s) = (lock_repeat s)(l := n)"
  by (simp_all add: lock_set_holder_def lock_set_repeat_def)

lemma act_step:
  assumes "lock_inv l T n (s, pcs)" "sem_place (lock_sema l)" "stack_room s" "pc = pcs (running_thread s)"
  shows "\<exists>pc' s'. lock_action l pc s = Inr (pc', s') \<and> lock_inv l T (Suc n) (s', pcs(running_thread s := pc'))"
proof -
  let ?c = "running_thread s"
  obtain rs ws where q: "queue_inv l T s pcs rs ws" and f: "field_inv l T n s pcs" and w: "wake_inv T pcs ws"
    using assms(1) by (auto simp: lock_inv_def)
  note c = queue_running(1) [OF q]
  have down: "\<exists>pc' s'. bindE (sema_down_loop (lock_sema l) old (s\<lparr>eflags := fl\<rparr>)) (\<lambda>r. Inr (down_result r)) = Inr (pc', s') \<and>
      lock_inv l T (Suc n) (s', pcs(?c := pc'))" if "\<not> in_section pc" for old fl
    using down_step [of l T "s\<lparr>eflags := fl\<rparr>" pcs rs ws n old] q f assms(2-4) that inv_mono(2) by (simp add: inv_eflags) blast
  note sec = section_step [OF q f, where m = "Suc n"]
  have holder: "lock_holder s l = t \<longleftrightarrow> t = ?c \<and> is_holder pc" if "in_section pc" "t \<in> T" for t
    using that f c field_inv_alone(2) [OF f c, of t] assms(4) by (auto simp: field_inv_def)
  have counted: "rep_ok n (lock_repeat s l) (is_counted pc)" if "in_section pc"
    using field_inv_values(3) [OF f c] that assms(4) by simp
  have hp: "lock_holder s l = ?c \<longleftrightarrow> is_holder pc"
    using f c assms(4) by (simp add: field_inv_def)
  have check: ?thesis if pc: "pc = Outside \<or> pc = Inside"
  proof (cases "lock_holder s l = ?c")
    case True
    then have i: "pc = Inside"
      using hp pc by auto
    have "rep_ok (Suc n) (lock_repeat s l + 1) True"
      using counted i by (intro rep_ok_nested) simp
    then have "lock_inv l T (Suc n) (lock_set_repeat l (lock_repeat s l + 1) s, pcs(?c := Inside))"
      using i assms(4) holder by (intro sec) simp_all
    with True i show ?thesis by simp
  next
    case False
    then have o: "pc = Outside" "pcs ?c = Outside"
      using hp pc assms(4) by auto
    have "lock_inv l T (Suc n) (s, pcs(?c := Down))"
      by (intro inv_mono(2) lock_inv_quiet [OF q] field_inv_outside [OF f] wake_inv_quiet [OF w]) (simp_all add: o)
    with False o show ?thesis by simp
  qed
  show ?thesis
  proof (cases pc)
    case Down
    then show ?thesis
      using down by (simp add: sema_down_is_loop)
  next
    case (Waiting k)
    then show ?thesis
      using down by (simp add: sema_down_is_loop)
  next
    case Set_Holder
    then show ?thesis
      using assms(4) counted rep_ok_steps(1) by (auto intro!: sec)
  next
    case Set_Repeat
    then have "lock_inv l T (Suc n) (lock_set_repeat l 1 s, pcs(?c := Inside))"
      using assms(4) holder rep_ok_steps(3) by (intro sec) simp_all
    moreover have "lock_repeat s l = 0" using Set_Repeat counted by (simp add: rep_ok_def)
    ultimately show ?thesis using Set_Repeat by (simp add: lock_acquire_repeat_def)
  next
    case Clear_Holder
    then have "lock_inv l T (Suc n) (lock_set_holder l NULL s, pcs(?c := Clear_Repeat))"
      using assms(4) counted q rep_ok_steps(1) by (intro sec) (auto simp: queue_inv_def)
    with Clear_Holder show ?thesis by simp
  next
    case Clear_Repeat
    then have "lock_inv l T (Suc n) (lock_set_repeat l 0 s, pcs(?c := Up))"
      using assms(4) holder rep_ok_steps(2) by (intro sec) simp_all
    with Clear_Repeat show ?thesis by simp
  next
    case Up
    then show ?thesis
      using up_step [OF q f _ assms(2)] assms(4) inv_mono(2) by fastforce
  next
    case (Preempted pc0)
    then have "pcs ?c = Preempted pc0"
      using assms(4) by simp
    then have "lock_inv l T (Suc n) (s\<lparr>eflags := eflags s OR EFLAGS_IF\<rparr>, pcs(?c := pc0))"
      by (intro inv_mono(2) lock_inv_quiet [OF q] field_inv_preempt [OF f] wake_inv_quiet [OF w]) (simp_all add: section_kinds(3-5))
    with Preempted show ?thesis by simp
  qed (use check in simp_all)
qed

text \<open>
  A release panics in one case only: the count of the holder has wrapped around to 0, for which it takes at
  least 2^32 steps.
\<close>

definition wrapped :: "addr \<Rightarrow> 'a syncs_scheme config \<Rightarrow> err + 'b \<Rightarrow> bool" where
  "wrapped l c r \<longleftrightarrow> (case c of (s, pcs) \<Rightarrow> pcs (running_thread s) = Inside \<and> lock_repeat s l = 0 \<and>
     r = Inl (Panic ''thread/sync.c'' 74 ''lock_release'' ''plock->holder_repeat_nr == 1''))"

lemma release_step:
  assumes "lock_inv l T n (s, pcs)" "pcs (running_thread s) = Inside"
  shows "(\<exists>pc' s'. lock_release_check l s = Inr (pc', s') \<and> lock_inv l T (Suc n) (s', pcs(running_thread s := pc'))) \<or>
    2 ^ 32 \<le> n \<and> wrapped l (s, pcs) (lock_release_check l s)"
proof -
  let ?c = "running_thread s"
  obtain rs ws where q: "queue_inv l T s pcs rs ws" and f: "field_inv l T n s pcs"
    using assms(1) by (auto simp: lock_inv_def)
  note c = queue_running(1) [OF q]
  have i: "in_section (pcs ?c)" by (simp add: assms(2))
  have v: "lock_holder s l = ?c" "rep_ok n (lock_repeat s l) True"
    using field_inv_values(2,3) [OF f c i] by (simp_all add: assms(2))
  have h: "lock_holder s l = t \<longleftrightarrow> t = ?c" for t
    using v(1) by auto
  note sec = section_step [OF q f i, where m = "Suc n"]
  consider (zero) "lock_repeat s l = 0" | (one) "lock_repeat s l = 1" | (more) "1 < lock_repeat s l"
    using u32_eq_1I [of "lock_repeat s l"] by blast
  then show ?thesis
  proof cases
    case zero
    then have "2 ^ 32 \<le> n" using v(2) by (auto simp: rep_ok_def)
    with zero v(1) assms(2) show ?thesis by (simp add: wrapped_def lock_release_check_def)
  next
    case one
    have "lock_inv l T (Suc n) (s, pcs(?c := Clear_Holder))"
      using h rep_ok_steps(1) [OF v(2)] by (intro sec) simp_all
    with one v(1) show ?thesis by (simp add: lock_release_check_def)
  next
    case more
    have "lock_inv l T (Suc n) (lock_set_repeat l (lock_repeat s l - 1) s, pcs(?c := Inside))"
      using h rep_ok_steps(4) [OF v(2) more] by (intro sec) simp_all
    with more v(1) show ?thesis by (simp add: lock_release_check_def)
  qed
qed

text \<open>The timer: a tick of the slice, or its end with a switch to the next ready thread.\<close>

lemma wait_inv_frame:
  assumes "wait_inv p s ws" "is_list (elems s') (waiters p) (map general_tag ws)"
    "\<And>t. t \<in> set ws \<Longrightarrow> page_aligned t \<Longrightarrow> kstack_ok s t \<Longrightarrow> kstack_ok s' t"
    "\<And>t. t \<in> set ws \<Longrightarrow> status (tasks s' t) = status (tasks s t)"
  shows "wait_inv p s' ws"
  using assms by (auto simp: wait_inv_def)

lemma preempt_keeps_queues:
  assumes "queue_inv l T s pcs rs ws" "intr_get_status s = INTR_OFF" "sem_place (lock_sema l)" "stack_room s"
  shows "\<exists>s'. schedule s = Inr s' \<and> same_sync s s' \<and>
    queue_inv l T s' (pcs(running_thread s := Preempted pc)) (tl (rs @ [running_thread s])) ws"
proof -
  let ?c = "running_thread s" and ?n = "hd (rs @ [running_thread s])"
  have q: "ready_inv s rs" "wait_inv (lock_sema l) s ws" "status (tasks s ?c) = TASK_RUNNING"
    using assms(1) by (simp_all add: queue_inv_def)
  note run = schedule_preempt_run [OF q(1) assms(2) refl q(3) assms(4)]
  define s' where "s' = call_switch_to ?c ?n (dispatched ?n (preempted ?c s))"
  note run = run [folded s'_def]
  note c = queue_running [OF assms(1)]
  have tag: "general_tag ?c \<notin> wait_nodes (lock_sema l) ws"
    using c(3) by (intro wait_footprint [OF assms(3)]) simp_all
  have "wait_nodes (lock_sema l) ws \<inter> ready_nodes rs = {}"
    using assms(3) ready_wait_aligned [OF q(1,2)] ready_wait_disjoint [OF q(1,2)] by (rule queues_apart)
  with tag have ap: "apart (waiters (lock_sema l)) (map general_tag ws) (insert (general_tag ?c) (ready_nodes rs))"
    by (simp add: apart_def)
  have l: "is_list (elems s') (waiters (lock_sema l)) (map general_tag ws)"
    using schedule_preempt_frame [OF q(1) assms(2) refl q(3) _ ap run(1)] q(2) by (simp add: wait_inv_def)
  have set: "insert ?n (set (tl (rs @ [?c]))) = insert ?c (set rs)"
    by (cases rs) auto
  have "?n \<in> insert ?c (set rs)"
    unfolding set [symmetric] by (rule insertI1)
  with c(3,4) have n: "?n \<notin> set ws"
    by (metis disjoint_iff insert_iff)
  have "wait_inv (lock_sema l) s' ws"
    using q(2) l
  proof (rule wait_inv_frame)
    show "kstack_ok s' t" if "t \<in> set ws" "page_aligned t" "kstack_ok s t" for t
      using run(8) that c(3) by blast
    show "status (tasks s' t) = status (tasks s t)" if "t \<in> set ws" for t
      using run(4) [of t] that n c(3) by auto
  qed
  moreover have "same_sync s s'"
    by (simp add: s'_def) (simp add: same_sync_def preempted_def)
  ultimately have "queue_inv l T s' (pcs(?c := Preempted pc)) (tl (rs @ [?c])) ws"
    using run(2,3) run(4) [of ?n] set assms(1) c(3) by (auto simp: queue_inv_def same_sync_def)
  with run(1) \<open>same_sync s s'\<close> show ?thesis by blast
qed

lemma queue_inv_tasks:
  assumes "queue_inv l T s pcs rs ws" "running_thread s' = running_thread s" "elems s' = elems s"
    "\<And>t. status (tasks s' t) = status (tasks s t)" "\<And>t. self_kstack (tasks s' t) = self_kstack (tasks s t)"
    "\<And>t. stack_magic (tasks s' t) = stack_magic (tasks s t)"
  shows "queue_inv l T s' pcs rs ws"
proof -
  have "queue_inv l T s' pcs rs ws = queue_inv l T s pcs rs ws"
    unfolding queue_inv_def ready_inv_def wait_inv_def kstack_ok_def by (simp only: assms(2-6))
  with assms(1) show ?thesis by simp
qed

lemma timer_sync:
  "sem_value (accounted n s) = sem_value s" "lock_holder (accounted n s) = lock_holder s" "lock_repeat (accounted n s) = lock_repeat s"
  "sem_value (charged n s) = sem_value s" "lock_holder (charged n s) = lock_holder s" "lock_repeat (charged n s) = lock_repeat s"
  "screen (accounted n s) = screen s" "screen (charged n s) = screen s"
  by (simp_all add: accounted_def charged_def upd_task_def)

lemma timer_step:
  assumes "lock_inv l T n (s, pcs)" "sem_place (lock_sema l)" "stack_room s" "intr_get_status s = INTR_OFF"
  shows "\<exists>s'. intr_timer_handler s = Inr s' \<and>
    lock_inv l T n (s', pcs(running_thread s := Preempted (pcs (running_thread s))))"
proof -
  let ?c = "running_thread s" and ?p = "pcs(running_thread s := Preempted (pcs (running_thread s)))"
  obtain rs ws where q: "queue_inv l T s pcs rs ws" and f: "field_inv l T n s pcs" and w: "wake_inv T pcs ws"
    using assms(1) by (auto simp: lock_inv_def)
  have m: "stack_magic (tasks s ?c) = 0x12345678"
    using q by (auto simp: queue_inv_def)
  have w': "wake_inv T ?p ws"
    by (intro wake_inv_quiet [OF w]) (simp_all add: section_kinds(3))
  have f': "field_inv l T n s' ?p" if "same_sync s s'" for s'
    using that by (intro field_inv_preempt [OF f]) (simp_all add: same_sync_def section_kinds(3-5))
  show ?thesis
  proof (cases "task_ticks (tasks s ?c) = 0")
    case True
    have "queue_inv l T (accounted 1 s) pcs rs ws"
      by (rule queue_inv_tasks [OF q]) simp_all
    from preempt_keeps_queues [OF this _ assms(2), of "pcs ?c"] assms(3,4)
    obtain s' where s': "schedule (accounted 1 s) = Inr s'" "same_sync (accounted 1 s) s'"
      "queue_inv l T s' ?p (tl (rs @ [?c])) ws" by auto
    have "same_sync s s'"
      using s'(2) by (simp add: same_sync_def timer_sync)
    then have "lock_inv l T n (s', ?p)"
      using s'(3) f' w' by (auto simp: lock_inv_def)
    with s'(1) True m show ?thesis by (simp add: timer_handler_cases)
  next
    case False
    have "same_sync s (charged 1 s)"
      by (simp add: same_sync_def timer_sync)
    moreover have "queue_inv l T (charged 1 s) ?p rs ws"
      using queue_inv_step [OF q refl refl refl] by (rule queue_inv_tasks) simp_all
    ultimately have "lock_inv l T n (charged 1 s, ?p)"
      using f' w' by (auto simp: lock_inv_def)
    with False m show ?thesis by (simp add: timer_handler_cases)
  qed
qed

lemma local_keeps:
  assumes "lock_inv l T n (s, pcs)" "local_step s s'"
  shows "lock_inv l T n (s', pcs)"
proof -
  have q: "queue_inv l T s pcs rs ws \<Longrightarrow> queue_inv l T s' pcs rs ws" for rs ws
    using assms(2) queue_inv_tasks [of l T s pcs rs ws s'] by (simp add: local_step_def)
  have "field_inv l T n s' pcs = field_inv l T n s pcs"
    using assms(2) by (simp add: field_inv_def local_step_def)
  with assms(1) q show ?thesis
    unfolding lock_inv_def fst_conv snd_conv by blast
qed

lemma lock_step_safe:
  assumes "lock_step l c r" "lock_inv l T n c" "sem_place (lock_sema l)"
  shows "(\<exists>d. r = Inr d \<and> lock_inv l T (Suc n) d) \<or> 2 ^ 32 \<le> n \<and> wrapped l c r"
  using assms(1)
proof cases
  case (step_act s pc pcs)
  then show ?thesis
    using act_step [of l T n s pcs pc] assms(2,3) by fastforce
next
  case (step_release pcs s)
  then show ?thesis
    using release_step [of l T n s pcs] assms(2) by (fastforce simp: wrapped_def)
next
  case (step_timer s pcs)
  have "lock_inv l T n (s\<lparr>eflags := eflags s AND NOT EFLAGS_IF\<rparr>, pcs)"
    using assms(2) step_timer(1) by (simp add: lock_inv_def inv_eflags)
  from timer_step [OF this assms(3)] step_timer inv_mono(2) show ?thesis by fastforce
next
  case (step_local s s' pcs)
  then show ?thesis
    using local_keeps assms(2) inv_mono(2) by blast
qed

lemma lock_run_inv:
  assumes "lock_run l n c d" "lock_inv l T 0 c" "sem_place (lock_sema l)"
  shows "lock_inv l T n d"
  using assms
proof (induction rule: lock_run.induct)
  case (run_step n c d e)
  then show ?case using lock_step_safe [of l d "Inr e" T n] by (auto simp: wrapped_def split: prod.splits)
qed

lemma lock_reach_inv:
  assumes "lock_reach l c d" "lock_inv l T 0 c" "sem_place (lock_sema l)"
  obtains n where "lock_inv l T n d"
  using assms(1) lock_run_inv [OF _ assms(2,3)] unfolding lock_reach_run by blast

section \<open>The start\<close>

lemma sem_place_parts:
  assumes "sem_place p"
  shows "waiters p \<noteq> NULL" "list_tail (waiters p) \<noteq> NULL"
  using assms by (auto simp: sem_place_def list_head_def)

lemma lock_init_eq:
  assumes "sem_place (lock_sema l)" "ready_inv s rs"
  obtains h where "lock_init l s = s\<lparr>lock_holder := (lock_holder s)(l := NULL), lock_repeat := (lock_repeat s)(l := 0),
      sem_value := (sem_value s)(lock_sema l := 1), elems := h\<rparr>"
    "is_list h (waiters (lock_sema l)) []" "is_list h thread_ready_list (map general_tag rs)"
proof -
  let ?s = "s\<lparr>lock_holder := (lock_holder s)(l := NULL), lock_repeat := (lock_repeat s)(l := 0),
      sem_value := (sem_value s)(lock_sema l := 1)\<rparr>"
  obtain h where h: "list_init (waiters (lock_sema l)) ?s = ?s\<lparr>elems := h\<rparr>" "is_list h (waiters (lock_sema l)) []"
    and o: "\<forall>a. a \<notin> {list_head (waiters (lock_sema l)), list_tail (waiters (lock_sema l))} \<longrightarrow> h a = elems s a"
    using list_init_is_list [OF sem_place_parts [OF assms(1)], of ?s] by auto
  have "wait_nodes (lock_sema l) [] \<inter> ready_nodes rs = {}"
    using assms by (intro queues_apart) (auto simp: ready_inv_def)
  moreover have "wait_nodes (lock_sema l) [] = {list_head (waiters (lock_sema l)), list_tail (waiters (lock_sema l))}"
    by (simp add: list_nodes_def)
  ultimately have "a \<in> ready_nodes rs \<Longrightarrow> h a = elems s a" for a
    using o by blast
  then have "is_list h thread_ready_list (map general_tag rs)"
    using lq.holds_frame [OF ready_list [OF assms(2)]] by blast
  then show thesis
    using that h by (simp add: lock_init_def sema_init_def Let_def)
qed

text \<open>A kernel with a running thread and ready threads, all of them outside the lock just initialised.\<close>

definition lock_start :: "addr \<Rightarrow> addr set \<Rightarrow> 'a syncs_scheme \<Rightarrow> bool" where
  "lock_start l T s \<longleftrightarrow> sem_place (lock_sema l) \<and> NULL \<notin> T \<and>
     (\<exists>s0 rs. s = lock_init l s0 \<and> ready_inv s0 rs \<and> status (tasks s0 (running_thread s0)) = TASK_RUNNING \<and>
        T = insert (running_thread s0) (set rs) \<and> (\<forall>t \<in> T. stack_magic (tasks s0 t) = 0x12345678))"

lemma lock_start_inv:
  assumes "lock_start l T s"
  shows "lock_inv l T 0 (s, \<lambda>_. Outside)" "sem_place (lock_sema l)"
proof -
  show p: "sem_place (lock_sema l)"
    using assms by (simp add: lock_start_def)
  from assms obtain s0 rs where s: "s = lock_init l s0" "ready_inv s0 rs" "status (tasks s0 (running_thread s0)) = TASK_RUNNING"
      "T = insert (running_thread s0) (set rs)" "\<forall>t \<in> T. stack_magic (tasks s0 t) = 0x12345678" "NULL \<notin> T"
    unfolding lock_start_def by blast
  obtain h where h: "s = s0\<lparr>lock_holder := (lock_holder s0)(l := NULL), lock_repeat := (lock_repeat s0)(l := 0),
      sem_value := (sem_value s0)(lock_sema l := 1), elems := h\<rparr>"
    "is_list h (waiters (lock_sema l)) []" "is_list h thread_ready_list (map general_tag rs)"
    using lock_init_eq [OF p s(2)] s(1) by blast
  have "ready_inv s rs" "wait_inv (lock_sema l) s []"
    using s(2) h by (simp_all add: ready_inv_def wait_inv_def kstack_ok_def)
  moreover have "running_thread s = running_thread s0" "tasks s = tasks s0"
    by (simp_all add: h(1))
  ultimately have "queue_inv l T s (\<lambda>_. Outside) rs []"
    using s by (simp add: queue_inv_def)
  moreover have "field_inv l T 0 s (\<lambda>_. Outside)"
    using s(6) by (auto simp: field_inv_def h(1) rep_ok_steps(2))
  moreover have "wake_inv T (\<lambda>_. Outside) []"
    by (simp add: wake_inv_def)
  ultimately show "lock_inv l T 0 (s, \<lambda>_. Outside)"
    unfolding lock_inv_def by auto
qed

section \<open>The steps are those of the functions\<close>

lemma lock_acquire_as_actions:
  assumes "lock_acquire l s = Inr (Finished, s')"
  shows "(\<exists>s1 s2. lock_action l Outside s = Inr (Down, s) \<and> lock_action l Down s = Inr (Set_Holder, s1) \<and>
      lock_action l Set_Holder s1 = Inr (Set_Repeat, s2) \<and> lock_action l Set_Repeat s2 = Inr (Inside, s')) \<or>
    lock_action l Outside s = Inr (Inside, s')"
proof (cases "lock_holder s l = running_thread s")
  case True
  with assms show ?thesis by (simp add: lock_acquire_def)
next
  case False
  with assms obtain o1 s1 where d: "sema_down (lock_sema l) s = Inr (o1, s1)" "lock_acquire_rest l (o1, s1) = Inr (Finished, s')"
    by (auto simp: lock_acquire_def bindE_eq_Inr)
  then have "o1 = Finished"
    by (cases o1) (auto simp: lock_acquire_rest_def)
  with d False show ?thesis
    by (auto simp: lock_acquire_rest_def down_result_def bindE_eq_Inr)
qed

lemma lock_release_as_actions:
  "lock_release l s = bindE (lock_release_check l s) (\<lambda>(pc, s).
     if pc = Inside then Inr s
     else bindE (lock_action l Clear_Holder s) (\<lambda>(_, s). bindE (lock_action l Clear_Repeat s) (\<lambda>(_, s).
       bindE (lock_action l Up s) (\<lambda>(_, s). Inr s))))"
  by (auto simp: lock_release_def lock_release_check_def ASSERT_def PANIC_def Let_def bindE_def split: sum.split)

lemma step_act_Inr:
  assumes "lock_reach l c (s, pcs)" "stack_room s" "lock_action l (pcs (running_thread s)) s = Inr (pc', s')"
  shows "lock_reach l c (s', pcs(running_thread s := pc'))"
proof -
  have "lock_step l (s, pcs) (Inr (s', pcs(running_thread s := pc')))"
    using step_act [where l = l and pcs = pcs, OF assms(2) refl] assms(3) by simp
  with assms(1) show ?thesis by (rule reach_step)
qed

lemma free_lock_reaches_inside:
  assumes "sem_value s (lock_sema l) = 1" "lock_holder s l \<noteq> running_thread s" "lock_repeat s l = 0" "stack_room s"
    "pcs (running_thread s) = Outside"
  obtains s' where "lock_reach l (s, pcs) (s', pcs(running_thread s := Inside))" "lock_holder s' l = running_thread s"
    "elems s' = elems s" "tasks s' = tasks s"
proof -
  let ?c = "running_thread s"
  define s1 where "s1 = s\<lparr>sem_value := (sem_value s)(lock_sema l := 0)\<rparr>"
  define s2 where "s2 = lock_set_holder l ?c s1"
  define s3 where "s3 = lock_set_repeat l 1 s2"
  have r: "running_thread s1 = ?c" "running_thread s2 = ?c" "stack_room s1" "stack_room s2"
    using assms(4) by (simp_all add: s1_def s2_def lock_set_holder_def stack_room_def)
  have "lock_reach l (s, pcs) (s, pcs(?c := Down))"
    by (rule step_act_Inr [OF reach_refl assms(4)]) (simp_all add: assms)
  then have "lock_reach l (s, pcs) (s1, pcs(?c := Set_Holder))"
    using step_act_Inr [of l "(s, pcs)" s "pcs(?c := Down)" Set_Holder s1] assms(1,4)
    by (simp add: sema_down_free down_result_def s1_def)
  then have "lock_reach l (s, pcs) (s2, pcs(?c := Set_Repeat))"
    using step_act_Inr [of l "(s, pcs)" s1 "pcs(?c := Set_Holder)" Set_Repeat s2] r by (simp add: s2_def)
  moreover have "lock_repeat s2 l = 0"
    using assms(3) by (simp add: s2_def s1_def)
  ultimately have "lock_reach l (s, pcs) (s3, pcs(?c := Inside))"
    using step_act_Inr [of l "(s, pcs)" s2 "pcs(?c := Set_Repeat)" Inside s3] r
    by (simp add: s3_def lock_acquire_repeat_def)
  then show thesis
    using that [of s3] by (simp add: s3_def s2_def s1_def)
qed

text \<open>Two threads and the console lock, just initialised.\<close>

definition lock_state0 :: syncs where
  "lock_state0 = lock_init 0xc0006304 (syncs0 2 nodes_ready (\<lambda>_. 0) (\<lambda>_. 0) (\<lambda>_. 0))"

lemma lock_state0_start: "lock_start 0xc0006304 {0xc009e000, 0xc0100000} lock_state0"
proof -
  have "sem_place (lock_sema 0xc0006304)"
    by (simp add: sem_place_def waiters_def lock_sema_def list_head_def list_tail_def list_nodes_def thread_ready_list_def)
  moreover have "\<forall>t \<in> {0xc009e000, 0xc0100000}. stack_magic (tasks0 t) = 0x12345678"
    by (simp add: tasks0_def started_task_def)
  moreover have "ready_inv (syncs0 2 nodes_ready (\<lambda>_. 0) (\<lambda>_. 0) (\<lambda>_. 0)) [0xc0100000]"
    by (rule syncs0_facts)
  ultimately show ?thesis
    unfolding lock_start_def lock_state0_def
    by (intro conjI exI [of _ "syncs0 2 nodes_ready (\<lambda>_. 0) (\<lambda>_. 0) (\<lambda>_. 0)"] exI [of _ "[0xc0100000]"])
       (simp_all add: syncs0_facts tasks0_def started_task_def)
qed

lemma lock_state0_facts:
  "running_thread lock_state0 = 0xc009e000" "stack_room lock_state0" "sem_value lock_state0 (lock_sema 0xc0006304) = 1"
  "lock_holder lock_state0 0xc0006304 = 0" "lock_repeat lock_state0 0xc0006304 = 0"
proof -
  let ?s = "syncs0 2 nodes_ready (\<lambda>_. 0) (\<lambda>_. 0) (\<lambda>_. 0)"
  have "running_thread lock_state0 = running_thread ?s" "stack_room lock_state0 = stack_room ?s"
    by (simp_all add: lock_state0_def lock_init_def sema_init_def list_init_def set_nodes Let_def running_thread_def stack_room_def)
  then show "running_thread lock_state0 = 0xc009e000" "stack_room lock_state0"
    by (simp_all add: syncs0_facts)
  show "sem_value lock_state0 (lock_sema 0xc0006304) = 1"
    "lock_holder lock_state0 0xc0006304 = 0" "lock_repeat lock_state0 0xc0006304 = 0"
    by (simp_all add: lock_state0_def lock_init_def sema_init_def list_init_def set_nodes Let_def)
qed

lemma lock_state0_inside:
  obtains s' where "lock_reach 0xc0006304 (lock_state0, \<lambda>_. Outside) (s', (\<lambda>_. Outside)(0xc009e000 := Inside))"
  using free_lock_reaches_inside [of lock_state0 "0xc0006304" "\<lambda>_. Outside"] lock_state0_facts by auto

section \<open>Properties\<close>

text \<open>
  C1: Mutual exclusion: from a freshly initialised lock, in every state that threads reach by any
  interleaving of \<open>lock_acquire\<close>, \<open>lock_release\<close>, local computation and timer interrupts, at most one
  thread is inside the lock, and it is the recorded holder.
\<close>

theorem lock_mutual_exclusion:
  assumes "lock_start l T s" "lock_reach l (s, \<lambda>_. Outside) (s', pcs)" "t \<in> T" "core (pcs t) = Inside"
  shows "lock_holder s' l = t \<and> (\<forall>u \<in> T. core (pcs u) = Inside \<longrightarrow> u = t)"
proof -
  obtain n where "lock_inv l T n (s', pcs)"
    using lock_reach_inv [OF assms(2)] lock_start_inv [OF assms(1)] by blast
  then have f: "field_inv l T n s' pcs"
    by (auto simp: lock_inv_def)
  have "is_holder (pcs t)" "in_section (pcs t)"
    using assms(4) by (simp_all add: is_holder_def in_section_def)
  with f assms(3) show ?thesis
    by (simp add: field_inv_def in_section_def)
qed

theorem lock_mutual_exclusion_witness:
  "\<exists>s'. lock_reach 0xc0006304 (lock_state0, \<lambda>_. Outside) (s', (\<lambda>_. Outside)(0xc009e000 := Inside)) \<and>
     lock_holder s' 0xc0006304 = 0xc009e000"
proof (rule lock_state0_inside)
  fix s' assume r: "lock_reach 0xc0006304 (lock_state0, \<lambda>_. Outside) (s', (\<lambda>_. Outside)(0xc009e000 := Inside))"
  have "lock_holder s' 0xc0006304 = 0xc009e000"
    using lock_mutual_exclusion [OF lock_state0_start r, of "0xc009e000"] by simp
  with r show ?thesis by blast
qed

text \<open>
  C16: No assertion fails under contention: after \<open>n\<close> steps from such a state the next step returns, without a
  panic, a hang or another error, with one exception that takes at least 2^32 steps: a thread inside the lock has
  acquired it again so often that its 32-bit count has wrapped around to 0, and its release panics. In particular
  the scheduler always finds a ready thread when a thread blocks on the lock.
\<close>

theorem lock_never_panics:
  assumes "lock_start l T s" "lock_run l n (s, \<lambda>_. Outside) c" "lock_step l c r"
  shows "(\<exists>d. r = Inr d) \<or> 2 ^ 32 \<le> n \<and> wrapped l c r"
  using lock_step_safe [OF assms(3)] lock_run_inv [OF assms(2)] lock_start_inv [OF assms(1)] by blast

theorem lock_never_panics_witness:
  "\<exists>d. lock_step 0xc0006304 (lock_state0, \<lambda>_. Outside) (Inr d)"
proof -
  let ?r = "bindE (lock_action 0xc0006304 Outside lock_state0)
    (\<lambda>(pc', s'). Inr (s', (\<lambda>_. Outside)(running_thread lock_state0 := pc')))"
  have step: "lock_step 0xc0006304 (lock_state0, \<lambda>_. Outside) ?r"
    using lock_state0_facts(2) by (intro step_act) simp_all
  from lock_never_panics [OF lock_state0_start run_refl step] obtain d where "?r = Inr d" by auto
  with step show ?thesis by metis
qed

text \<open>The exception does occur: one acquisition too many, and the lock cannot be released.\<close>

lemma lock_count_wraps:
  assumes "lock_holder s l = running_thread s" "lock_repeat s l = 0xffffffff"
  shows "\<exists>s'. lock_acquire l s = Inr (Finished, s') \<and>
    lock_release l s' = Inl (Panic ''thread/sync.c'' 74 ''lock_release'' ''plock->holder_repeat_nr == 1'')"
proof -
  let ?s = "lock_set_repeat l 0 s"
  have "(0xffffffff :: u32) + 1 = 0" by simp
  then have "lock_acquire l s = Inr (Finished, ?s)" using assms by (simp only: lock_acquire_def) simp
  moreover have "lock_release l ?s = Inl (Panic ''thread/sync.c'' 74 ''lock_release'' ''plock->holder_repeat_nr == 1'')"
    using assms(1) by (simp add: lock_release_def)
  ultimately show ?thesis by blast
qed

text \<open>
  C10: No lost wake-up: in every such state the waiters of the lock form a well-formed list of blocked
  threads, and if there is one, then some thread is in the section, that is between its \<open>sema_down\<close> and the
  \<open>sema_up\<close> of its last release, or a thread already woken is ready or running and about to retry \<open>sema_down\<close>.
\<close>

theorem lock_no_lost_wakeup:
  assumes "lock_start l T s" "lock_reach l (s, \<lambda>_. Outside) (s', pcs)"
  shows "\<exists>ws. wait_inv (lock_sema l) s' ws \<and> (ws = [] \<or> (\<exists>t \<in> T. in_section (pcs t)) \<or>
    (\<exists>t \<in> T. is_waiting (core (pcs t)) \<and> status (tasks s' t) \<in> {TASK_RUNNING, TASK_READY}))"
proof -
  obtain n where "lock_inv l T n (s', pcs)"
    using lock_reach_inv [OF assms(2)] lock_start_inv [OF assms(1)] by blast
  then obtain rs ts where q: "queue_inv l T s' pcs rs ts" and k: "wake_inv T pcs ts"
    by (auto simp: lock_inv_def)
  have "status (tasks s' t) \<in> {TASK_RUNNING, TASK_READY}" if "t \<in> T - set ts" for t
    using that q by (auto simp: queue_inv_def ready_inv_def)
  moreover have "wait_inv (lock_sema l) s' ts"
    using q by (simp add: queue_inv_def)
  ultimately show ?thesis
    using k unfolding wake_inv_def by blast
qed

theorem lock_no_lost_wakeup_witness:
  "\<exists>s' ws. lock_reach 0xc0006304 (lock_state0, \<lambda>_. Outside) (s', (\<lambda>_. Outside)(0xc009e000 := Inside)) \<and>
     wait_inv (lock_sema 0xc0006304) s' ws"
  by (rule lock_state0_inside) (use lock_no_lost_wakeup [OF lock_state0_start] in blast)

end
