(* ===== verification/Paging.thy ===== *)
theory Paging
  imports Sync
begin

text \<open>
  The page tables of the processor and the part of kernel/memory.c that works on them through the
  recursive mapping: \<open>pte_ptr\<close>, \<open>pde_ptr\<close> and \<open>addr_v2p\<close>, and reads and writes at virtual addresses.

  Page directories and tables are 32-bit words of the physical memory \<open>pmem\<close>. \<open>translate\<close> is the
  two-level walk of the processor from the directory in \<open>cr3\<close>. Translation look-aside buffers do not
  hold entries that are not present, and the kernel only ever turns such entries into present ones,
  so the walk always uses the current tables.
\<close>

section \<open>State\<close>

record paging = syncs +
  pmem :: "addr \<Rightarrow> u32"

section \<open>The walk of the processor\<close>

definition frame_of :: "u32 \<Rightarrow> addr" where
  "frame_of entry = entry AND 0xfffff000"

definition present :: "u32 \<Rightarrow> bool" where
  "present entry \<longleftrightarrow> entry AND 0x01 \<noteq> 0"

definition pde_slot :: "addr \<Rightarrow> addr \<Rightarrow> addr" where
  "pde_slot dir v = frame_of dir + 4 * drop_bit 22 v"

definition pte_slot :: "u32 \<Rightarrow> addr \<Rightarrow> addr" where
  "pte_slot pde v = frame_of pde + 4 * (drop_bit 12 v AND 0x3ff)"

definition walk :: "(addr \<Rightarrow> u32) \<Rightarrow> addr \<Rightarrow> addr \<Rightarrow> addr option" where
  "walk pm dir v =
     (let pde = pm (pde_slot dir v)
      in if present pde then
           (let pte = pm (pte_slot pde v)
            in if present pte then Some (frame_of pte + (v AND 0xfff)) else None)
         else None)"

definition translate :: "'a paging_scheme \<Rightarrow> addr \<Rightarrow> addr option" where
  "translate s v = walk (pmem s) (cr3 s) v"

definition vload32 :: "addr \<Rightarrow> 'a paging_scheme \<Rightarrow> err + u32" where
  "vload32 v s = (case translate s v of None \<Rightarrow> Inl (Page_Fault v) | Some p \<Rightarrow> Inr (pmem s p))"

definition vstore32 :: "addr \<Rightarrow> u32 \<Rightarrow> 'a paging_scheme \<Rightarrow> err + 'a paging_scheme" where
  "vstore32 v x s =
     (case translate s v of None \<Rightarrow> Inl (Page_Fault v) | Some p \<Rightarrow> Inr (s\<lparr>pmem := (pmem s)(p := x)\<rparr>))"

text \<open>
  \<open>memset\<close> with zero over whole pages. Each page has to be mapped; its frame is cleared as words of
  the physical memory, and the objects of the other stores that lie in the page are cleared too.
\<close>

definition zero_elem :: list_elem where
  "zero_elem = \<lparr>le_prev = NULL, le_next = NULL\<rparr>"

definition clear_page :: "addr \<Rightarrow> 'a paging_scheme \<Rightarrow> err + 'a paging_scheme" where
  "clear_page v s =
     (case translate s v of
        None \<Rightarrow> Inl (Page_Fault v)
      | Some p \<Rightarrow> Inr (s\<lparr>
          mem := (\<lambda>a. if a AND 0xfffff000 = v then 0 else mem s a),
          elems := (\<lambda>a. if a AND 0xfffff000 = v then zero_elem else elems s a),
          tasks := (\<lambda>a. if a AND 0xfffff000 = v then zero_task else tasks s a),
          stk := (\<lambda>a. if a AND 0xfffff000 = v then 0 else stk s a),
          pmem := (\<lambda>a. if a AND 0xfffff000 = p then 0 else pmem s a)\<rparr>))"

fun clear_pages :: "nat \<Rightarrow> addr \<Rightarrow> 'a paging_scheme \<Rightarrow> err + 'a paging_scheme" where
  "clear_pages 0 v s = Inr s"
| "clear_pages (Suc n) v s = bindE (clear_page v s) (clear_pages n (v + 4096))"

definition memset_pages :: "addr \<Rightarrow> nat \<Rightarrow> 'a paging_scheme \<Rightarrow> err + 'a paging_scheme" where
  "memset_pages v n s =
     ASSERT (v \<noteq> NULL) ''lib/string.c'' 7 ''memset'' ''dst_ != NULL'' (clear_pages n v s)"

section \<open>Operations of kernel/memory.c\<close>

definition PDE_IDX :: "u32 \<Rightarrow> u32" where
  "PDE_IDX addr = drop_bit 22 (addr AND 0xffc00000)"

definition PTE_IDX :: "u32 \<Rightarrow> u32" where
  "PTE_IDX addr = drop_bit 12 (addr AND 0x003ff000)"

definition pte_ptr :: "u32 \<Rightarrow> addr" where
  "pte_ptr vaddr = 0xffc00000 + drop_bit 10 (vaddr AND 0xffc00000) + PTE_IDX vaddr * 4"

definition pde_ptr :: "u32 \<Rightarrow> addr" where
  "pde_ptr vaddr = 0xfffff000 + PDE_IDX vaddr * 4"

definition addr_v2p :: "u32 \<Rightarrow> 'a paging_scheme \<Rightarrow> err + u32" where
  "addr_v2p vaddr s =
     bindE (vload32 (pte_ptr vaddr) s) (\<lambda>pte. Inr ((pte AND 0xfffff000) + (vaddr AND 0x00000fff)))"

section \<open>Indices, slots and frames\<close>

lemma mask_words:
  "(0xffc00000 :: u32) = push_bit 22 (mask 10)" "(0x003ff000 :: u32) = push_bit 12 (mask 10)" "(0x3ff :: u32) = mask 10"
  "(0xfffff000 :: u32) = push_bit 12 (mask 20)" "(0xfff :: u32) = mask 12"
  by (simp_all add: mask_eq_exp_minus_1 push_bit_eq_mult)

lemma PDE_IDX_eq: "PDE_IDX v = drop_bit 22 v"
  unfolding PDE_IDX_def mask_words by (rule bit_word_eqI) (auto simp: bit_simps dest: bit_imp_le_length)

lemma PTE_IDX_eq: "PTE_IDX v = drop_bit 12 v AND 0x3ff"
  unfolding PTE_IDX_def mask_words by (rule bit_word_eqI) (auto simp: bit_simps)

lemma unat_pde_idx: "unat (drop_bit 22 (v :: u32)) = unat v div 4194304"
  by (simp only: unsigned_drop_bit_eq) (simp add: drop_bit_eq_div take_bit_nat_eq_self unat_less_2p32)

lemma unat_pte_idx: "unat (drop_bit 12 (v :: u32) AND 0x3ff) = unat v div 4096 mod 1024"
proof -
  have "drop_bit 12 v AND 0x3ff = take_bit 10 (drop_bit 12 v)"
    by (simp add: take_bit_eq_mask mask_eq_decr_exp)
  then show ?thesis
    by (simp only: unsigned_take_bit_eq unsigned_drop_bit_eq)
       (simp add: take_bit_eq_mod drop_bit_eq_div unat_less_2p32)
qed

lemma pde_idx_less: "unat (drop_bit 22 (v :: u32)) < 1024"
  using unat_less_2p32 [of v] by (simp add: unat_pde_idx del: drop_bit_eq_div)

lemma pte_idx_less: "unat (drop_bit 12 (v :: u32) AND 0x3ff) < 1024"
  by (simp only: unat_pte_idx)

lemma frame_of_aligned [simp]: "page_aligned (frame_of e)"
proof -
  have "(e AND 0xfffff000) AND (0xfff :: u32) = 0"
    by (simp only: and.assoc) simp
  then show ?thesis by (simp only: page_aligned_def frame_of_def)
qed

lemma aligned_frame_of: "page_aligned p \<Longrightarrow> frame_of p = p"
  using page_mask_in_page [of p 0] by (simp add: frame_of_def)

lemma slot_offset:
  assumes "unat (i :: u32) < 1024"
  shows "unat (4 * i) = 4 * unat i" "unat (4 * i) < 4096"
  using assms by (simp_all add: unat_word_ariths)

lemma slot_in_frame:
  assumes "page_aligned p" "unat (i :: u32) < 1024"
  shows "(p + 4 * i) AND 0xfffff000 = p"
  using assms slot_offset by (intro page_mask_in_page) auto

lemma slot_eq_iff:
  assumes "page_aligned p" "page_aligned q" "unat (i :: u32) < 1024" "unat (j :: u32) < 1024"
  shows "p + 4 * i = q + 4 * j \<longleftrightarrow> p = q \<and> i = j"
proof
  assume e: "p + 4 * i = q + 4 * j"
  then have "p = q"
    using slot_in_frame [OF assms(1,3)] slot_in_frame [OF assms(2,4)] by simp
  moreover from this e have "4 * i = 4 * j" by simp
  then have "unat i = unat j"
    using slot_offset(1) [OF assms(3)] slot_offset(1) [OF assms(4)] by simp
  ultimately show "p = q \<and> i = j" by (simp add: word_unat_eq_iff)
qed simp

lemma pde_slot_in_dir: "pde_slot dir v AND 0xfffff000 = frame_of dir"
  unfolding pde_slot_def by (rule slot_in_frame) (simp_all add: pde_idx_less)

lemma pte_slot_in_table: "pte_slot pde v AND 0xfffff000 = frame_of pde"
  unfolding pte_slot_def by (rule slot_in_frame) (simp_all only: pte_idx_less frame_of_aligned)

text \<open>The page of an address is given by its two indices.\<close>

lemma same_page_iff:
  "(v :: u32) AND 0xfffff000 = w AND 0xfffff000 \<longleftrightarrow>
     drop_bit 22 v = drop_bit 22 w \<and> drop_bit 12 v AND 0x3ff = drop_bit 12 w AND 0x3ff"
proof -
  let ?v = "unat v div 4096" and ?w = "unat w div 4096"
  have "unat u div 4194304 = unat u div 4096 div 1024" for u :: u32
    by (simp add: div_mult2_eq [symmetric])
  then have d: "drop_bit 22 v = drop_bit 22 w \<longleftrightarrow> ?v div 1024 = ?w div 1024"
    by (simp only: word_unat_eq_iff unat_pde_idx)
  have m: "drop_bit 12 v AND 0x3ff = drop_bit 12 w AND 0x3ff \<longleftrightarrow> ?v mod 1024 = ?w mod 1024"
    by (simp only: word_unat_eq_iff unat_pte_idx)
  have "v AND 0xfffff000 = w AND 0xfffff000 \<longleftrightarrow> ?v = ?w"
    by (simp only: word_unat_eq_iff unat_page_mask) simp
  then show ?thesis
    unfolding d m by (metis div_mult_mod_eq)
qed

section \<open>The recursive mapping\<close>

text \<open>
  The last entry of the directory points to the directory itself, so that the upper 4 MB of every
  address space, the window, show the page tables and, in their last page, the directory.
\<close>

definition self_mapped :: "(addr \<Rightarrow> u32) \<Rightarrow> addr \<Rightarrow> bool" where
  "self_mapped pm dir \<longleftrightarrow> present (pm (frame_of dir + 4 * 1023)) \<and> frame_of (pm (frame_of dir + 4 * 1023)) = frame_of dir"

definition in_window :: "addr \<Rightarrow> bool" where
  "in_window v \<longleftrightarrow> drop_bit 22 v = 1023"

lemma unat_of_nat_self: "of_nat (unat (x :: u32)) = x"
  by simp

lemma walk_window:
  assumes "self_mapped pm dir" "unat x = 4290772992 + 4096 * i + 4 * j" "i < 1024" "j < 1024"
  shows "walk pm dir x =
    (let pde = pm (frame_of dir + 4 * of_nat i)
     in if present pde then Some (frame_of pde + 4 * of_nat j) else None)"
proof -
  have x: "unat x = 4 * j + 4096 * (1047552 + i)" and j: "4 * j < 4096"
    using assms(2,4) by simp_all
  have "unat x div 4096 = 1047552 + i" "unat x mod 4096 = 4 * j"
    unfolding x using j by (simp_all only: div_mult_self2 mod_mult_self2 mod_less div_less) 
  moreover have "(1047552 + i) div 1024 = 1023" "(1047552 + i) mod 1024 = i"
    using assms(3) mod_mult_self2 [of i 1024 1023] by (simp_all add: add.commute)
  ultimately have q: "unat x div 4096 div 1024 = 1023" "unat x div 4096 mod 1024 = i" "unat x mod 4096 = 4 * j"
    by simp_all
  have "unat (drop_bit 22 x) = 1023"
    using q(1) by (simp only: unat_pde_idx div_mult2_eq [symmetric]) simp
  then have "drop_bit 22 x = of_nat 1023"
    by (metis unat_of_nat_self)
  then have d: "drop_bit 22 x = 1023" by simp
  have t: "drop_bit 12 x AND 0x3ff = of_nat i"
    using q(2) unat_of_nat_self [of "drop_bit 12 x AND 0x3ff"] by (simp only: unat_pte_idx)
  have o: "x AND 0xfff = 4 * of_nat j"
    using q(3) unat_of_nat_self [of "x AND 0xfff"] by (simp only: unat_offset_mask) simp
  show ?thesis
    using assms(1) unfolding walk_def pde_slot_def pte_slot_def Let_def d t o self_mapped_def by simp
qed

lemma unat_pde_ptr: "unat (pde_ptr v) = 4290772992 + 4096 * 1023 + 4 * unat (drop_bit 22 v)"
  using pde_idx_less [of v] unfolding pde_ptr_def PDE_IDX_eq
  by (simp add: unat_add_u32 slot_offset mult.commute [of _ "4 :: u32"])

lemma pte_ptr_eq: "pte_ptr v = 0xffc00000 + 4096 * drop_bit 22 v + 4 * (drop_bit 12 v AND 0x3ff)"
proof -
  have "drop_bit 10 (v AND 0xffc00000) = 4096 * drop_bit 22 v"
  proof -
    have "4096 * drop_bit 22 v = push_bit 12 (drop_bit 22 v)"
      by (simp only: push_bit_eq_mult) simp
    then show ?thesis
      unfolding mask_words
      by (simp only:) (rule bit_word_eqI, auto simp: bit_simps dest: bit_imp_le_length)
  qed
  then show ?thesis
    by (simp add: pte_ptr_def PTE_IDX_eq)
qed

lemma unat_pte_ptr: "unat (pte_ptr v) = 4290772992 + 4096 * unat (drop_bit 22 v) + 4 * unat (drop_bit 12 v AND 0x3ff)"
proof -
  let ?i = "drop_bit 22 v" and ?j = "drop_bit 12 v AND 0x3ff"
  have j: "unat (4 * ?j) = 4 * unat ?j" "unat (4 * ?j) < 4096"
    using slot_offset [OF pte_idx_less [of v]] by simp_all
  have i: "unat (4096 * ?i) = 4096 * unat ?i"
    using pde_idx_less [of v] by (simp add: unat_word_ariths)
  have "unat (0xffc00000 + 4096 * ?i) = 4290772992 + 4096 * unat ?i"
    using i pde_idx_less [of v] by (simp add: unat_add_u32)
  then show ?thesis
    using j pde_idx_less [of v] by (simp only: pte_ptr_eq unat_add_u32) simp
qed

text \<open>Where the entry of the page of \<open>v\<close> lies, if its table exists.\<close>

definition pte_loc :: "(addr \<Rightarrow> u32) \<Rightarrow> addr \<Rightarrow> addr \<Rightarrow> addr option" where
  "pte_loc pm dir v =
     (let pde = pm (pde_slot dir v) in if present pde then Some (pte_slot pde v) else None)"

lemma walk_pte_loc:
  "walk pm dir v = (case pte_loc pm dir v of None \<Rightarrow> None
     | Some p \<Rightarrow> if present (pm p) then Some (frame_of (pm p) + (v AND 0xfff)) else None)"
  by (simp add: walk_def pte_loc_def Let_def)

lemma walk_pde_ptr:
  assumes "self_mapped pm dir"
  shows "walk pm dir (pde_ptr v) = Some (pde_slot dir v)"
  using walk_window [OF assms unat_pde_ptr _ pde_idx_less] assms
  by (simp add: self_mapped_def pde_slot_def Let_def)

lemma walk_pte_ptr:
  assumes "self_mapped pm dir"
  shows "walk pm dir (pte_ptr v) = pte_loc pm dir v"
  using walk_window [OF assms unat_pte_ptr pde_idx_less pte_idx_less]
  unfolding unat_of_nat_self pte_loc_def pde_slot_def pte_slot_def by simp

lemma addr_v2p_walk:
  assumes "self_mapped (pmem s) (cr3 s)"
  shows "addr_v2p v s = (case pte_loc (pmem s) (cr3 s) v of None \<Rightarrow> Inl (Page_Fault (pte_ptr v))
    | Some p \<Rightarrow> Inr (frame_of (pmem s p) + (v AND 0xfff)))"
  by (simp add: addr_v2p_def vload32_def translate_def walk_pte_ptr [OF assms] frame_of_def split: option.split)

section \<open>Writing page table entries\<close>

text \<open>
  Directory entries 0 and 768 share the table that the loader made for the first megabyte; all other
  tables are distinct, and none but that of the window is the directory.
\<close>

definition shared_idx :: "u32 \<Rightarrow> u32 \<Rightarrow> bool" where
  "shared_idx i j \<longleftrightarrow> i = j \<or> i \<in> {0, 768} \<and> j \<in> {0, 768}"

definition tables_ok :: "(addr \<Rightarrow> u32) \<Rightarrow> addr \<Rightarrow> bool" where
  "tables_ok pm dir \<longleftrightarrow> self_mapped pm dir \<and>
     (\<forall>v w. present (pm (pde_slot dir v)) \<and> present (pm (pde_slot dir w)) \<and>
        frame_of (pm (pde_slot dir v)) = frame_of (pm (pde_slot dir w)) \<longrightarrow>
        shared_idx (drop_bit 22 v) (drop_bit 22 w))"

text \<open>Two addresses whose pages have the same entry.\<close>

definition mirrored :: "addr \<Rightarrow> addr \<Rightarrow> bool" where
  "mirrored v w \<longleftrightarrow> shared_idx (drop_bit 22 v) (drop_bit 22 w) \<and> drop_bit 12 v AND 0x3ff = drop_bit 12 w AND 0x3ff"

definition mapped :: "(addr \<Rightarrow> u32) \<Rightarrow> addr \<Rightarrow> addr set" where
  "mapped pm dir = {frame_of q | v q. walk pm dir v = Some q}"

lemma pde_slot_window: "in_window v \<Longrightarrow> pde_slot dir v = frame_of dir + 4 * 1023"
  by (simp add: in_window_def pde_slot_def)

lemma pde_slot_eq_iff: "pde_slot dir v = pde_slot dir w \<longleftrightarrow> drop_bit 22 v = drop_bit 22 w"
  unfolding pde_slot_def
  using slot_eq_iff [OF frame_of_aligned frame_of_aligned pde_idx_less pde_idx_less, of dir v dir w] by simp

lemma pte_slot_eq_iff: "pte_slot e v = pte_slot e' w \<longleftrightarrow>
    frame_of e = frame_of e' \<and> drop_bit 12 v AND 0x3ff = drop_bit 12 w AND 0x3ff"
  unfolding pte_slot_def by (rule slot_eq_iff) (simp_all only: pte_idx_less frame_of_aligned)

lemma window_top: "in_window 0xfffff000"
  by (simp add: in_window_def drop_bit_eq_div)

lemma self_mapped_top: "self_mapped pm dir \<longleftrightarrow>
    present (pm (pde_slot dir 0xfffff000)) \<and> frame_of (pm (pde_slot dir 0xfffff000)) = frame_of dir"
  by (simp add: self_mapped_def pde_slot_window window_top)

lemma table_not_dir:
  assumes "tables_ok pm dir" "present (pm (pde_slot dir v))" "\<not> in_window v"
  shows "frame_of (pm (pde_slot dir v)) \<noteq> frame_of dir"
proof
  assume "frame_of (pm (pde_slot dir v)) = frame_of dir"
  then have "shared_idx (drop_bit 22 v) (drop_bit 22 0xfffff000)"
    using assms(1,2) self_mapped_top [of pm dir] unfolding tables_ok_def by metis
  with assms(3) window_top show False
    by (auto simp: shared_idx_def in_window_def)
qed

lemma unat_offset_less: "unat ((v :: u32) AND 0xfff) < 4096"
  by (simp only: unat_offset_mask)

lemma frame_of_in_frame: "frame_of (frame_of e + (v AND 0xfff)) = frame_of e"
  using page_mask_in_page [OF frame_of_aligned unat_offset_less, of e v] by (simp add: frame_of_def)

lemma frame_of_pde_slot: "frame_of (pde_slot dir v) = frame_of dir"
  by (simp add: frame_of_def [of "pde_slot dir v"] pde_slot_in_dir)

lemma frame_of_pte_slot: "frame_of (pte_slot e v) = frame_of e"
  by (simp add: frame_of_def [of "pte_slot e v"] pte_slot_in_table)

lemma mapped_walk: "walk pm dir v = Some q \<Longrightarrow> frame_of q \<in> mapped pm dir"
  by (auto simp: mapped_def)

lemma dir_mapped: "self_mapped pm dir \<Longrightarrow> frame_of dir \<in> mapped pm dir"
  using mapped_walk [OF walk_pde_ptr] by (metis frame_of_pde_slot)

lemma table_mapped:
  "self_mapped pm dir \<Longrightarrow> present (pm (pde_slot dir v)) \<Longrightarrow> frame_of (pm (pde_slot dir v)) \<in> mapped pm dir"
  using mapped_walk [OF walk_pte_ptr [THEN trans], of pm dir v "pte_slot (pm (pde_slot dir v)) v"]
  by (simp add: pte_loc_def frame_of_pte_slot)

lemma mapped_page: "x \<in> mapped pm dir \<longleftrightarrow> (\<exists>v p. pte_loc pm dir v = Some p \<and> present (pm p) \<and> frame_of (pm p) = x)"
  by (auto simp: mapped_def walk_pte_loc frame_of_in_frame split: option.splits if_splits)

lemma idx_of_push: "unat (i :: u32) < 1024 \<Longrightarrow> drop_bit 22 (push_bit 22 i) = i"
  by (simp add: word_unat_eq_iff unat_pde_idx push_bit_eq_mult unat_word_ariths)

lemma window_loc:
  assumes "self_mapped pm dir" "in_window w"
  shows "\<exists>u. pte_loc pm dir w = Some (pde_slot dir u)"
proof
  have "pte_slot (pm (pde_slot dir w)) w = frame_of dir + 4 * (drop_bit 12 w AND 0x3ff)"
    using assms by (simp add: self_mapped_def pde_slot_window pte_slot_def)
  also have "\<dots> = pde_slot dir (push_bit 22 (drop_bit 12 w AND 0x3ff))"
    by (simp only: pde_slot_def idx_of_push [OF pte_idx_less])
  finally show "pte_loc pm dir w = Some (pde_slot dir (push_bit 22 (drop_bit 12 w AND 0x3ff)))"
    using assms by (simp add: pte_loc_def self_mapped_def pde_slot_window)
qed

text \<open>Writing a present entry into an existing table.\<close>

lemma set_pte:
  assumes "tables_ok pm dir" "\<not> in_window v" "pte_loc pm dir v = Some p" "present e"
  shows "tables_ok (pm(p := e)) dir"
    and "(pm(p := e)) (pde_slot dir w) = pm (pde_slot dir w)"
    and "pte_loc (pm(p := e)) dir w = pte_loc pm dir w"
    and "walk (pm(p := e)) dir w =
      (if pte_loc pm dir w = Some p then Some (frame_of e + (w AND 0xfff)) else walk pm dir w)"
    and "mapped (pm(p := e)) dir \<subseteq> insert (frame_of e) (mapped pm dir)"
proof -
  have "present (pm (pde_slot dir v))" "p = pte_slot (pm (pde_slot dir v)) v"
    using assms(3) by (auto simp: pte_loc_def Let_def split: if_splits)
  then have "frame_of p \<noteq> frame_of dir"
    using table_not_dir [OF assms(1) _ assms(2)] by (simp add: frame_of_pte_slot)
  then have [simp]: "pde_slot dir u \<noteq> p" for u
    using frame_of_pde_slot by metis
  show "tables_ok (pm(p := e)) dir"
    using assms(1) by (simp add: tables_ok_def self_mapped_top)
  show "(pm(p := e)) (pde_slot dir w) = pm (pde_slot dir w)" by simp
  show loc: "pte_loc (pm(p := e)) dir w = pte_loc pm dir w" for w
    by (simp add: pte_loc_def)
  show "walk (pm(p := e)) dir w =
      (if pte_loc pm dir w = Some p then Some (frame_of e + (w AND 0xfff)) else walk pm dir w)"
    using assms(4) by (auto simp: walk_pte_loc loc split: option.split)
  show "mapped (pm(p := e)) dir \<subseteq> insert (frame_of e) (mapped pm dir)"
    by (auto simp: mapped_page loc split: if_splits)
qed

text \<open>Entering a fresh frame as a table, and clearing it.\<close>

definition with_table :: "(addr \<Rightarrow> u32) \<Rightarrow> addr \<Rightarrow> addr \<Rightarrow> u32 \<Rightarrow> addr \<Rightarrow> u32" where
  "with_table pm dir v e = (\<lambda>a. if a AND 0xfffff000 = frame_of e then 0 else (pm(pde_slot dir v := e)) a)"

lemma add_table:
  assumes "tables_ok pm dir" "\<not> in_window v" "\<not> present (pm (pde_slot dir v))" "present e"
    "frame_of e \<notin> mapped pm dir"
  defines "pm' \<equiv> with_table pm dir v e"
  shows "tables_ok pm' dir"
    and "pte_loc pm' dir v = Some (pte_slot e v)" "pm' (pte_slot e v) = 0"
    and "\<not> in_window w \<Longrightarrow> walk pm' dir w = walk pm dir w"
    and "drop_bit 22 w \<noteq> drop_bit 22 v \<Longrightarrow> pte_loc pm' dir w = pte_loc pm dir w"
    and "mapped pm' dir \<subseteq> insert (frame_of e) (mapped pm dir)"
proof -
  have self: "self_mapped pm dir" using assms(1) by (simp add: tables_ok_def)
  have t: "frame_of e \<noteq> frame_of dir" using dir_mapped [OF self] assms(5) by metis
  have pde: "pm' (pde_slot dir w) = (if drop_bit 22 w = drop_bit 22 v then e else pm (pde_slot dir w))" for w
    using t by (simp add: pm'_def with_table_def pde_slot_in_dir pde_slot_eq_iff)
  have fresh: "frame_of (pm (pde_slot dir w)) \<noteq> frame_of e" if "present (pm (pde_slot dir w))" for w
    using table_mapped [OF self that] assms(5) by metis
  have top: "drop_bit 22 (0xfffff000 :: u32) \<noteq> drop_bit 22 v"
    using assms(2) window_top by (simp add: in_window_def)
  show "tables_ok pm' dir"
    unfolding tables_ok_def self_mapped_top
  proof (intro conjI allI impI)
    show "present (pm' (pde_slot dir 0xfffff000))" "frame_of (pm' (pde_slot dir 0xfffff000)) = frame_of dir"
      using self top by (simp_all only: self_mapped_top pde if_False)
    fix u w assume "present (pm' (pde_slot dir u)) \<and> present (pm' (pde_slot dir w)) \<and>
      frame_of (pm' (pde_slot dir u)) = frame_of (pm' (pde_slot dir w))"
    then show "shared_idx (drop_bit 22 u) (drop_bit 22 w)"
      using assms(1) fresh [of u] fresh [of w] unfolding pde tables_ok_def
      by (auto simp: shared_idx_def split: if_splits)
  qed
  have loc: "pte_loc pm' dir w = (if drop_bit 22 w = drop_bit 22 v then Some (pte_slot e w) else pte_loc pm dir w)" for w
    using assms(4) by (simp add: pte_loc_def pde Let_def)
  then show "pte_loc pm' dir v = Some (pte_slot e v)"
    and "drop_bit 22 w \<noteq> drop_bit 22 v \<Longrightarrow> pte_loc pm' dir w = pte_loc pm dir w" by simp_all
  have new: "pm' (pte_slot e w) = 0" for w
    by (simp add: pm'_def with_table_def pte_slot_in_table)
  then show "pm' (pte_slot e v) = 0" .
  have old: "pm' p = pm p" if "pte_loc pm dir w = Some p" "\<not> in_window w" for p w
  proof -
    have "present (pm (pde_slot dir w))" "p = pte_slot (pm (pde_slot dir w)) w"
      using that by (auto simp: pte_loc_def Let_def split: if_splits)
    then have f: "frame_of p \<noteq> frame_of e" "frame_of p \<noteq> frame_of dir"
      using fresh table_not_dir [OF assms(1)] that(2) by (simp_all add: frame_of_pte_slot)
    then have "p \<noteq> pde_slot dir v" using frame_of_pde_slot by metis
    then show ?thesis using f(1) by (simp add: pm'_def with_table_def frame_of_def)
  qed
  show walk: "walk pm' dir w = walk pm dir w" if "\<not> in_window w" for w
  proof (cases "drop_bit 22 w = drop_bit 22 v")
    case True
    then have "pde_slot dir w = pde_slot dir v" by (simp add: pde_slot_eq_iff)
    with True assms(3) show ?thesis
      by (simp add: walk_pte_loc loc new present_def) (simp add: pte_loc_def present_def)
  next
    case False
    with old [OF _ that] show ?thesis by (auto simp: walk_pte_loc loc split: option.split)
  qed
  show "mapped pm' dir \<subseteq> insert (frame_of e) (mapped pm dir)"
  proof
    fix x assume "x \<in> mapped pm' dir"
    then obtain w q where w: "walk pm' dir w = Some q" "x = frame_of q" by (auto simp: mapped_def)
    show "x \<in> insert (frame_of e) (mapped pm dir)"
    proof (cases "in_window w")
      case False
      with w walk mapped_walk show ?thesis by auto
    next
      case True
      then obtain u where "pte_loc pm dir w = Some (pde_slot dir u)"
        using window_loc [OF self] by blast
      moreover have "drop_bit 22 w \<noteq> drop_bit 22 v"
        using True assms(2) by (simp add: in_window_def)
      ultimately have "present (pm' (pde_slot dir u))" "x = frame_of (pm' (pde_slot dir u))"
        using w by (auto simp: walk_pte_loc loc frame_of_in_frame split: if_splits)
      then show ?thesis
        using table_mapped [OF self, of u] by (auto simp: pde split: if_splits)
    qed
  qed
qed

section \<open>Access through the window\<close>

abbreviation pm_ok :: "'a paging_scheme \<Rightarrow> bool" where
  "pm_ok s \<equiv> self_mapped (pmem s) (cr3 s)"

abbreviation pde_at :: "'a paging_scheme \<Rightarrow> addr \<Rightarrow> u32" where
  "pde_at s v \<equiv> pmem s (pde_slot (cr3 s) v)"

lemma vload_pde: "pm_ok s \<Longrightarrow> vload32 (pde_ptr v) s = Inr (pde_at s v)"
  by (simp add: vload32_def translate_def walk_pde_ptr)

lemma vstore_pde: "pm_ok s \<Longrightarrow> vstore32 (pde_ptr v) e s = Inr (s\<lparr>pmem := (pmem s)(pde_slot (cr3 s) v := e)\<rparr>)"
  by (simp add: vstore32_def translate_def walk_pde_ptr)

lemma vload_pte: "pm_ok s \<Longrightarrow> pte_loc (pmem s) (cr3 s) v = Some p \<Longrightarrow> vload32 (pte_ptr v) s = Inr (pmem s p)"
  by (simp add: vload32_def translate_def walk_pte_ptr)

lemma vstore_pte:
  "pm_ok s \<Longrightarrow> pte_loc (pmem s) (cr3 s) v = Some p \<Longrightarrow> vstore32 (pte_ptr v) e s = Inr (s\<lparr>pmem := (pmem s)(p := e)\<rparr>)"
  by (simp add: vstore32_def translate_def walk_pte_ptr)

lemma unat_pte_ptr_page: "unat (pte_ptr v AND 0xfffff000) = 4290772992 + 4096 * unat (drop_bit 22 v) + 4 * 0"
proof -
  have "unat (pte_ptr v) = 4 * unat (drop_bit 12 v AND 0x3ff) + 4096 * (1047552 + unat (drop_bit 22 v))"
    unfolding unat_pte_ptr by simp
  then have "unat (pte_ptr v) div 4096 = 1047552 + unat (drop_bit 22 v)"
    using pte_idx_less [of v] by (simp only: div_mult_self2 div_less)
  then show ?thesis by (simp only: unat_page_mask) simp
qed

lemma walk_pte_ptr_page:
  assumes "self_mapped pm dir" "present (pm (pde_slot dir v))"
  shows "walk pm dir (pte_ptr v AND 0xfffff000) = Some (frame_of (pm (pde_slot dir v)))"
  using walk_window [OF assms(1) unat_pte_ptr_page [of v] pde_idx_less] assms(2)
  unfolding unat_of_nat_self by (simp add: pde_slot_def)

text \<open>The stores of objects with the page at \<open>v\<close> cleared.\<close>

definition cleared :: "addr \<Rightarrow> 'a paging_scheme \<Rightarrow> 'a paging_scheme" where
  "cleared v s = s\<lparr>
     mem := (\<lambda>a. if a AND 0xfffff000 = v then 0 else mem s a),
     elems := (\<lambda>a. if a AND 0xfffff000 = v then zero_elem else elems s a),
     tasks := (\<lambda>a. if a AND 0xfffff000 = v then zero_task else tasks s a),
     stk := (\<lambda>a. if a AND 0xfffff000 = v then 0 else stk s a)\<rparr>"

lemma clear_page_eq:
  "translate s v = Some p \<Longrightarrow>
     clear_page v s = Inr ((cleared v s)\<lparr>pmem := (\<lambda>a. if a AND 0xfffff000 = p then 0 else pmem s a)\<rparr>)"
  by (simp add: clear_page_def cleared_def)

lemma cleared_simps [simp]:
  "pmem (cleared v s) = pmem s" "cr3 (cleared v s) = cr3 s" "esp (cleared v s) = esp s"
  by (simp_all add: cleared_def)

lemma cleared_pmem: "cleared v (s\<lparr>pmem := q\<rparr>) = (cleared v s)\<lparr>pmem := q\<rparr>"
  by (simp add: cleared_def cong del: if_weak_cong)

lemma low_flags: "present (p OR 7)" "frame_of (p OR 7) = frame_of p"
proof -
  show "present (p OR 7)"
    by (simp add: present_def word_bw_comms(2)) (simp add: u32_eq_bits bit_simps) 
  show "frame_of (p OR 7) = frame_of p"
    by (simp add: frame_of_def bit.conj_disj_distrib2)
qed

text \<open>A page of the kernel part and its shadow through directory entry 0.\<close>

lemma mirrored_same_page: "mirrored v w \<Longrightarrow> drop_bit 22 v = drop_bit 22 w \<Longrightarrow> v AND 0xfffff000 = w AND 0xfffff000"
  by (simp add: mirrored_def same_page_iff)

lemma pte_loc_mirrored:
  assumes "tables_ok pm dir" "pte_loc pm dir v = Some p" "pte_loc pm dir w = Some p"
  shows "mirrored v w"
  using assms by (auto simp: pte_loc_def Let_def tables_ok_def mirrored_def pte_slot_eq_iff split: if_splits)

lemma same_page_loc:
  assumes "v AND 0xfffff000 = w AND 0xfffff000"
  shows "pte_loc pm dir v = pte_loc pm dir w"
proof -
  have "drop_bit 22 v = drop_bit 22 w" "drop_bit 12 v AND 0x3ff = drop_bit 12 w AND 0x3ff"
    using assms unfolding same_page_iff by blast+
  then show ?thesis by (simp only: pte_loc_def pde_slot_def pte_slot_def)
qed

end
