(* ===== verification/Memory.thy ===== *)
theory Memory
  imports Paging
begin

text \<open>
  kernel/memory.c: the pools of physical frames, the pool of kernel addresses, and the allocation of
  pages, which takes a run of addresses and a frame for each page and enters the pairs into the page
  tables. The bitmaps of the pools are bytes of the memory \<open>mem\<close>; the page tables are words of
  the physical memory \<open>pmem\<close>, written through the recursive mapping.
\<close>

section \<open>State\<close>

record pool =
  pool_bitmap :: bitmap
  phy_addr_start :: u32
  pool_size :: u32

record mems = paging +
  kernel_pool :: pool
  user_pool :: pool
  kernel_vaddr :: virtual_addr

datatype pool_flags = PF_KERNEL | PF_USER

text \<open>The locks of the two pools, at offset 16 of the pools (addresses of build/kernel.map).\<close>

definition kernel_pool_lock :: addr where
  "kernel_pool_lock = 0xc00065a0 + 16"

definition user_pool_lock :: addr where
  "user_pool_lock = 0xc0006560 + 16"

definition MEM_BITMAP_BASE :: addr where
  "MEM_BITMAP_BASE = 0xc009a000"

definition K_HEAP_START :: addr where
  "K_HEAP_START = 0xc0100000"

definition PG_P_1 :: u32 where
  "PG_P_1 = 1"

definition PG_RW_W :: u32 where
  "PG_RW_W = 2"

definition PG_US_U :: u32 where
  "PG_US_U = 4"

definition mem_pool :: "pool_flags \<Rightarrow> 'a mems_scheme \<Rightarrow> pool" where
  "mem_pool pf s = (case pf of PF_KERNEL \<Rightarrow> kernel_pool s | PF_USER \<Rightarrow> user_pool s)"

definition pool_lock :: "pool_flags \<Rightarrow> addr" where
  "pool_lock pf = (case pf of PF_KERNEL \<Rightarrow> kernel_pool_lock | PF_USER \<Rightarrow> user_pool_lock)"

section \<open>Operations\<close>

text \<open>The loop of \<open>vaddr_get\<close> that marks \<open>pg_cnt\<close> bits from \<open>bit_idx_start\<close> on.\<close>

function set_bits :: "bitmap \<Rightarrow> u32 \<Rightarrow> u32 \<Rightarrow> u32 \<Rightarrow> 'a bytemem_scheme \<Rightarrow> err + 'a bytemem_scheme" where
  "set_bits btmp bit_idx_start cnt pg_cnt s =
     (if cnt < pg_cnt then
        bindE (bitmap_set btmp (bit_idx_start + cnt) 1 s) (set_bits btmp bit_idx_start (cnt + 1) pg_cnt)
      else Inr s)"
  by pat_completeness auto
termination
  by (relation "measure (\<lambda>(btmp, start, cnt, pg_cnt, s). unat pg_cnt - unat cnt)")
     (auto simp: word_less_nat_alt intro: unat_measure_step)

declare set_bits.simps [simp del]

definition vaddr_get :: "pool_flags \<Rightarrow> u32 \<Rightarrow> 'a mems_scheme \<Rightarrow> err + u32 \<times> 'a mems_scheme" where
  "vaddr_get pf pg_cnt s =
     (case pf of
        PF_KERNEL \<Rightarrow>
          bindE (bitmap_scan (Some (vaddr_bitmap (kernel_vaddr s))) pg_cnt s) (\<lambda>bit_idx_start.
          if bit_idx_start = - 1 then Inr (NULL, put_str (''vaddr_get failed'' @ [CHR 0x0a]) s)
          else
            bindE (set_bits (vaddr_bitmap (kernel_vaddr s)) bit_idx_start 0 pg_cnt s) (\<lambda>s.
            Inr (vaddr_start (kernel_vaddr s) + bit_idx_start * PG_SIZE, s)))
      | PF_USER \<Rightarrow>
          let cur = running_thread s
          in bindE (bitmap_scan (Some (vaddr_bitmap (userprog_vaddr (tasks s cur)))) pg_cnt s) (\<lambda>bit_idx_start.
             if bit_idx_start = - 1 then Inr (NULL, s)
             else
               bindE (set_bits (vaddr_bitmap (userprog_vaddr (tasks s cur))) bit_idx_start 0 pg_cnt s) (\<lambda>s.
               let vaddr = vaddr_start (userprog_vaddr (tasks s cur)) + bit_idx_start * PG_SIZE
               in ASSERT (vaddr < 0xc0000000 - PG_SIZE) ''kernel/memory.c'' 64 ''vaddr_get''
                    ''(uint32_t)vaddr_start < (0xc0000000 - PG_SIZE)'' (Inr (vaddr, s)))))"

definition palloc :: "pool \<Rightarrow> 'a mems_scheme \<Rightarrow> err + u32 \<times> 'a mems_scheme" where
  "palloc m_pool s =
     bindE (bitmap_scan (Some (pool_bitmap m_pool)) 1 s) (\<lambda>bit_idx.
     if bit_idx = - 1 then Inr (NULL, put_str (''palloc failed'' @ [CHR 0x0a]) s)
     else
       bindE (bitmap_set (pool_bitmap m_pool) bit_idx 1 s) (\<lambda>s.
       Inr (bit_idx * PG_SIZE + phy_addr_start m_pool, s)))"

definition page_table_add :: "u32 \<Rightarrow> u32 \<Rightarrow> 'a mems_scheme \<Rightarrow> err + 'a mems_scheme" where
  "page_table_add vaddr page_phyaddr s =
     ASSERT (vaddr \<noteq> NULL) ''kernel/memory.c'' 101 ''page_table_add'' ''_vaddr != NULL''
    (ASSERT (page_phyaddr \<noteq> NULL) ''kernel/memory.c'' 102 ''page_table_add'' ''_page_phyaddr != NULL''
       (let pde = pde_ptr vaddr; pte = pte_ptr vaddr
        in bindE (vload32 pde s) (\<lambda>pde_val.
           if pde_val AND 0x01 \<noteq> 0 then
             bindE (vload32 pte s) (\<lambda>pte_val.
             ASSERT (\<not> pte_val AND 0x01 \<noteq> 0) ''kernel/memory.c'' 111 ''page_table_add'' ''!(*pte & 0x01)''
               (vstore32 pte (page_phyaddr OR PG_US_U OR PG_RW_W OR PG_P_1) s))
           else
             bindE (palloc (kernel_pool s) s) (\<lambda>(pde_phyaddr, s).
             bindE (vstore32 pde (pde_phyaddr OR PG_US_U OR PG_RW_W OR PG_P_1) s) (\<lambda>s.
             bindE (memset_pages (pte AND 0xfffff000) 1 s) (\<lambda>s.
             bindE (vload32 pte s) (\<lambda>pte_val.
             ASSERT (\<not> pte_val AND 0x01 \<noteq> 0) ''kernel/memory.c'' 124 ''page_table_add'' ''!(*pte & 0x01)''
               (vstore32 pte (page_phyaddr OR PG_US_U OR PG_RW_W OR PG_P_1) s))))))))"

text \<open>
  The loop of \<open>malloc_page\<close>: \<open>cnt\<close> pages are left, the next one at \<open>vaddr\<close>. The result is whether
  the loop came to its end (otherwise \<open>malloc_page\<close> returns \<open>NULL\<close> from inside).
\<close>

fun malloc_loop :: "nat \<Rightarrow> pool_flags \<Rightarrow> u32 \<Rightarrow> 'a mems_scheme \<Rightarrow> err + bool \<times> 'a mems_scheme" where
  "malloc_loop 0 pf vaddr s = Inr (True, s)"
| "malloc_loop (Suc cnt) pf vaddr s =
     bindE (palloc (mem_pool pf s) s) (\<lambda>(page_phyaddr, s).
     if page_phyaddr = NULL then Inr (False, s)
     else bindE (page_table_add vaddr page_phyaddr s) (malloc_loop cnt pf (vaddr + PG_SIZE)))"

definition malloc_page :: "pool_flags \<Rightarrow> u32 \<Rightarrow> 'a mems_scheme \<Rightarrow> err + u32 \<times> 'a mems_scheme" where
  "malloc_page pf pg_cnt s =
     ASSERT (0 < pg_cnt \<and> pg_cnt < 3840) ''kernel/memory.c'' 132 ''malloc_page'' ''pg_cnt > 0 && pg_cnt < 3840''
       (bindE (vaddr_get pf pg_cnt s) (\<lambda>(addr_start, s).
        bindE (malloc_loop (unat pg_cnt) pf addr_start s) (\<lambda>(done, s).
        Inr (if done then addr_start else NULL, s))))"

definition get_kernel_pages :: "u32 \<Rightarrow> 'a mems_scheme \<Rightarrow> err + u32 \<times> 'a mems_scheme" where
  "get_kernel_pages pg_cnt s =
     bindE (malloc_page PF_KERNEL pg_cnt s) (\<lambda>(vaddr, s).
     bindE (if vaddr \<noteq> NULL then memset_pages vaddr (unat pg_cnt) s
            else Inr (put_str ''get_kernel_pages failed'' s)) (\<lambda>s.
     Inr (vaddr, s)))"

text \<open>
  The two functions that take the lock of a pool may block in \<open>lock_acquire\<close>: then the result is
  \<open>Waits c\<close>, and the function with suffix \<open>_resume\<close> goes on when the thread runs again.
\<close>

datatype 'r locked = Returns 'r | Waits down_ctx

definition get_user_pages_body ::
    "u32 \<Rightarrow> down_ctx outcome \<times> 'a mems_scheme \<Rightarrow> err + u32 locked \<times> 'a mems_scheme" where
  "get_user_pages_body pg_cnt r =
     (case r of
        (Blocked c, s) \<Rightarrow> Inr (Waits c, s)
      | (Finished, s) \<Rightarrow>
          bindE (malloc_page PF_USER pg_cnt s) (\<lambda>(vaddr, s).
          bindE (if vaddr \<noteq> NULL then memset_pages vaddr (unat pg_cnt) s
                 else Inr (put_str ''get_user_pages failed'' s)) (\<lambda>s.
          bindE (lock_release user_pool_lock s) (\<lambda>s.
          Inr (Returns vaddr, s)))))"

definition get_user_pages :: "u32 \<Rightarrow> 'a mems_scheme \<Rightarrow> err + u32 locked \<times> 'a mems_scheme" where
  "get_user_pages pg_cnt s = bindE (lock_acquire user_pool_lock s) (get_user_pages_body pg_cnt)"

definition get_user_pages_resume ::
    "u32 \<Rightarrow> down_ctx \<Rightarrow> 'a mems_scheme \<Rightarrow> err + u32 locked \<times> 'a mems_scheme" where
  "get_user_pages_resume pg_cnt c s =
     bindE (lock_acquire_resume user_pool_lock c s) (get_user_pages_body pg_cnt)"

text \<open>The part of \<open>get_a_page\<close> that marks the page in the pool of addresses.\<close>

definition claim_page :: "pool_flags \<Rightarrow> u32 \<Rightarrow> 'a mems_scheme \<Rightarrow> err + 'a mems_scheme" where
  "claim_page pf vaddr s =
     (let cur = running_thread s
      in if pgdir (tasks s cur) \<noteq> NULL \<and> pf = PF_USER then
           let bit_idx = (vaddr - vaddr_start (userprog_vaddr (tasks s cur))) div PG_SIZE
           in ASSERT (0 <s bit_idx) ''kernel/memory.c'' 198 ''get_a_page'' ''bit_idx > 0''
                (bitmap_set (vaddr_bitmap (userprog_vaddr (tasks s cur))) bit_idx 1 s)
         else if pgdir (tasks s cur) = NULL \<and> pf = PF_KERNEL then
           let bit_idx = (vaddr - vaddr_start (kernel_vaddr s)) div PG_SIZE
           in ASSERT (0 <s bit_idx) ''kernel/memory.c'' 204 ''get_a_page'' ''bit_idx > 0''
                (bitmap_set (vaddr_bitmap (kernel_vaddr s)) bit_idx 1 s)
         else PANIC ''kernel/memory.c'' 209 ''get_a_page''
                ''get_a_page: not allow kernel alloc userpages or user alloc kernelpages'')"

definition get_a_page_body ::
    "pool_flags \<Rightarrow> u32 \<Rightarrow> down_ctx outcome \<times> 'a mems_scheme \<Rightarrow> err + u32 locked \<times> 'a mems_scheme" where
  "get_a_page_body pf vaddr r =
     (case r of
        (Blocked c, s) \<Rightarrow> Inr (Waits c, s)
      | (Finished, s) \<Rightarrow>
          bindE (claim_page pf vaddr s) (\<lambda>s.
          bindE (palloc (mem_pool pf s) s) (\<lambda>(page_phyaddr, s).
          if page_phyaddr = NULL then Inr (Returns NULL, s)
          else
            bindE (page_table_add vaddr page_phyaddr s) (\<lambda>s.
            bindE (lock_release (pool_lock pf) s) (\<lambda>s.
            Inr (Returns vaddr, s))))))"

definition get_a_page :: "pool_flags \<Rightarrow> u32 \<Rightarrow> 'a mems_scheme \<Rightarrow> err + u32 locked \<times> 'a mems_scheme" where
  "get_a_page pf vaddr s = bindE (lock_acquire (pool_lock pf) s) (get_a_page_body pf vaddr)"

definition get_a_page_resume ::
    "pool_flags \<Rightarrow> u32 \<Rightarrow> down_ctx \<Rightarrow> 'a mems_scheme \<Rightarrow> err + u32 locked \<times> 'a mems_scheme" where
  "get_a_page_resume pf vaddr c s =
     bindE (lock_acquire_resume (pool_lock pf) c s) (get_a_page_body pf vaddr)"

text \<open>
  \<open>mem_pool_init\<close> in the order of the source: the sizes, with the numbers of pages cut to 16 bits,
  the messages, and the three bitmaps.
\<close>

definition used_mem :: u32 where
  "used_mem = PG_SIZE * 256 + 0x100000"

definition kernel_free_pages :: "u32 \<Rightarrow> u16" where
  "kernel_free_pages all_mem = ucast ((all_mem - used_mem) div PG_SIZE div 2)"

definition user_free_pages :: "u32 \<Rightarrow> u16" where
  "user_free_pages all_mem = ucast ((all_mem - used_mem) div PG_SIZE - ucast (kernel_free_pages all_mem))"

definition kbm_length :: "u32 \<Rightarrow> u32" where
  "kbm_length all_mem = ucast (kernel_free_pages all_mem) div 8"

definition ubm_length :: "u32 \<Rightarrow> u32" where
  "ubm_length all_mem = ucast (user_free_pages all_mem) div 8"

definition init_kernel_pool :: "u32 \<Rightarrow> pool" where
  "init_kernel_pool all_mem =
     \<lparr>pool_bitmap = \<lparr>btmp_bytes_len = kbm_length all_mem, bits = MEM_BITMAP_BASE\<rparr>,
      phy_addr_start = used_mem, pool_size = ucast (kernel_free_pages all_mem) * PG_SIZE\<rparr>"

definition init_user_pool :: "u32 \<Rightarrow> pool" where
  "init_user_pool all_mem =
     \<lparr>pool_bitmap = \<lparr>btmp_bytes_len = ubm_length all_mem, bits = MEM_BITMAP_BASE + kbm_length all_mem\<rparr>,
      phy_addr_start = used_mem + ucast (kernel_free_pages all_mem) * PG_SIZE,
      pool_size = ucast (user_free_pages all_mem) * PG_SIZE\<rparr>"

definition init_kernel_vaddr :: "u32 \<Rightarrow> virtual_addr" where
  "init_kernel_vaddr all_mem =
     \<lparr>vaddr_bitmap = \<lparr>btmp_bytes_len = kbm_length all_mem,
        bits = MEM_BITMAP_BASE + kbm_length all_mem + ubm_length all_mem\<rparr>,
      vaddr_start = K_HEAP_START\<rparr>"

definition print_pools :: "'a mems_scheme \<Rightarrow> 'a mems_scheme" where
  "print_pools s =
     (let s = put_str ''    kernel_pool_bitmap_start: '' s;
          s = put_int (bits (pool_bitmap (kernel_pool s))) s;
          s = put_str '' kernel_pool_phy_addr_start: '' s;
          s = put_int (phy_addr_start (kernel_pool s)) s;
          s = put_char 0x0a s;
          s = put_str ''    user_pool_bitmap_start: '' s;
          s = put_int (bits (pool_bitmap (user_pool s))) s;
          s = put_str '' user_pool_phy_addr_start: '' s;
          s = put_int (phy_addr_start (user_pool s)) s
      in put_char 0x0a s)"

text \<open>
  \<open>bitmap_init\<close> clears the bytes of a bitmap, which are in \<open>mem\<close>. A bitmap that reaches into the page
  of the running thread would clear its control block and stack, objects of other stores: the model stops there.
\<close>

definition overlaps_page :: "bitmap \<Rightarrow> addr \<Rightarrow> bool" where
  "overlaps_page btmp p \<longleftrightarrow> btmp_bytes_len btmp \<noteq> 0 \<and> unat (bits btmp) < unat p + 4096 \<and>
     unat p < unat (bits btmp) + unat (btmp_bytes_len btmp)"

definition clear_bitmap :: "bitmap \<Rightarrow> 'a mems_scheme \<Rightarrow> err + 'a mems_scheme" where
  "clear_bitmap btmp s =
     (if overlaps_page btmp (running_thread s) then Inl (Out_Of_Bounds ''pool_bitmap'') else bitmap_init (Some btmp) s)"

definition mem_pool_init :: "u32 \<Rightarrow> 'a mems_scheme \<Rightarrow> err + 'a mems_scheme" where
  "mem_pool_init all_mem s =
     (let s = put_str ''mem_pool_init start'' s;
          s = s\<lparr>kernel_pool := init_kernel_pool all_mem, user_pool := init_user_pool all_mem\<rparr>;
          s = print_pools s
      in bindE (clear_bitmap (pool_bitmap (kernel_pool s)) s) (\<lambda>s.
         bindE (clear_bitmap (pool_bitmap (user_pool s)) s) (\<lambda>s.
         let s = lock_init kernel_pool_lock s;
             s = lock_init user_pool_lock s;
             s = s\<lparr>kernel_vaddr := init_kernel_vaddr all_mem\<rparr>
         in bindE (clear_bitmap (vaddr_bitmap (kernel_vaddr s)) s) (\<lambda>s.
            Inr (put_str (''  mem_pool_init done'' @ [CHR 0x0a]) s)))))"

definition mem_init :: "'a mems_scheme \<Rightarrow> err + 'a mems_scheme" where
  "mem_init s =
     (let s = put_str (''mem_init start.'' @ [CHR 0x0a]) s
      in bindE (vload32 0xb00 s) (\<lambda>mem_bytes_total.
         bindE (mem_pool_init mem_bytes_total s) (\<lambda>s.
         Inr (put_str (''mem_init done.'' @ [CHR 0x0a]) s))))"

section \<open>Allocation in a table of bits\<close>

text \<open>
  What the allocators need of a table of used bits: marking an index changes that bit alone. A run
  is marked index by index.
\<close>

locale bit_table =
  fixes ok :: "'s \<Rightarrow> bool" and size :: nat and used :: "'s \<Rightarrow> nat \<Rightarrow> bool" and grab :: "nat \<Rightarrow> 's \<Rightarrow> 's"
  assumes grab_ok: "ok s \<Longrightarrow> i < size \<Longrightarrow> ok (grab i s)"
    and grab_used: "ok s \<Longrightarrow> i < size \<Longrightarrow> j < size \<Longrightarrow> used (grab i s) j \<longleftrightarrow> j = i \<or> used s j"
begin

lemma grab_run:
  "ok s \<Longrightarrow> k + n \<le> size \<Longrightarrow> ok (fold grab [k..<k + n] s) \<and>
     (\<forall>j < size. used (fold grab [k..<k + n] s) j \<longleftrightarrow> k \<le> j \<and> j < k + n \<or> used s j)"
proof (induction n)
  case (Suc n)
  then show ?case by (auto simp: grab_ok grab_used)
qed auto

lemma free_after_grab:
  assumes "ok s" "i < size" "\<not> used s i"
  shows "{j. j < size \<and> \<not> used (grab i s) j} = {j. j < size \<and> \<not> used s j} - {i}"
  using assms by (auto simp: grab_used)

lemma card_free_after_grab:
  assumes "ok s" "i < size" "\<not> used s i"
  shows "Suc (card {j. j < size \<and> \<not> used (grab i s) j}) = card {j. j < size \<and> \<not> used s j}"
  unfolding free_after_grab [OF assms] using assms by (intro card.remove [symmetric]) auto

end

interpretation bt: bit_table "\<lambda>m. bm_wf b" "bm_bits b" "\<lambda>m. bm_used m b" "\<lambda>i. bm_upd b i True" for b
  by unfold_locales (auto simp: bm_used_upd)

definition free_idx :: "bitmap \<Rightarrow> (addr \<Rightarrow> u8) \<Rightarrow> nat set" where
  "free_idx b m = {i. i < bm_bits b \<and> \<not> bm_used m b i}"

lemma free_idx_first_fit:
  assumes "bm_wf b"
  shows "bitmap_scan (Some b) 1 s =
    Inr (if free_idx b (mem s) = {} then - 1 else of_nat (Min (free_idx b (mem s))))"
proof -
  let ?F = "free_idx b (mem s)" and ?free = "\<lambda>i. \<not> bm_used (mem s) b i"
  have fits: "fits ?free (Suc 0) k \<longleftrightarrow> ?free k" for k by (simp add: fits_def)
  have fin: "finite ?F" by (simp add: free_idx_def)
  show ?thesis
  proof (cases "first_fit ?free (bm_bits b) 1")
    case None
    then have "?F = {}" by (auto simp: first_fit_None fits free_idx_def Suc_le_eq)
    with None bitmap_scan_first_fit [OF assms, of 1 s] show ?thesis by simp
  next
    case (Some k)
    with first_fit_Some [OF Some] have "k \<in> ?F" "\<forall>j \<in> ?F. k \<le> j"
      by (auto simp: free_idx_def fits Suc_le_eq not_less [symmetric])
    then have "Min ?F = k" "?F \<noteq> {}" using fin by (auto intro: Min_eqI)
    with Some bitmap_scan_first_fit [OF assms, of 1 s] show ?thesis by simp
  qed
qed

lemma set_bits_run:
  assumes "bm_wf b" "k + n \<le> bm_bits b" "j \<le> n"
  shows "set_bits b (of_nat k) (of_nat j) (of_nat n) s =
    Inr (s\<lparr>mem := fold (\<lambda>i. bm_upd b i True) [k + j..<k + n] (mem s)\<rparr>)"
  using assms(3)
proof (induction "n - j" arbitrary: j s)
  case 0
  have "n < 2 ^ 32" using assms(1,2) by (simp add: bm_wf_def)
  with 0 show ?case by (subst set_bits.simps) (simp add: word_less_nat_alt unat_of_nat_u32)
next
  case (Suc d)
  have n: "n < 4294967296" "j < n" using assms(1,2) Suc by (simp_all add: bm_wf_def)
  then have "(of_nat j :: u32) < of_nat n" by (simp add: word_less_nat_alt unat_of_nat_u32)
  moreover have "bitmap_set b (of_nat k + of_nat j) 1 s = Inr (s\<lparr>mem := bm_upd b (k + j) True (mem s)\<rparr>)"
    using bitmap_set_eq [OF assms(1), of "k + j" True s] n(2) assms(2) by simp
  moreover have "set_bits b (of_nat k) (of_nat j + 1) (of_nat n) t =
      Inr (t\<lparr>mem := fold (\<lambda>i. bm_upd b i True) [k + j + 1..<k + n] (mem t)\<rparr>)" for t :: "'a bytemem_scheme"
    using Suc.hyps(1) [of "j + 1" t] Suc.hyps(2) n(2) by (simp add: add.commute)
  ultimately show ?case
    using n(2) by (subst set_bits.simps) (simp add: upt_conv_Cons)
qed

section \<open>Frames\<close>

definition pool_frame :: "pool \<Rightarrow> nat \<Rightarrow> addr" where
  "pool_frame p i = of_nat i * PG_SIZE + phy_addr_start p"

text \<open>
  A pool is well formed if its frames are page-aligned, nonzero and do not wrap around the
  address space.
\<close>

definition pool_ok :: "pool \<Rightarrow> bool" where
  "pool_ok p \<longleftrightarrow> bm_wf (pool_bitmap p) \<and> page_aligned (phy_addr_start p) \<and> phy_addr_start p \<noteq> 0 \<and>
     unat (phy_addr_start p) + 4096 * bm_bits (pool_bitmap p) \<le> 2 ^ 32"

definition free_frames :: "pool \<Rightarrow> (addr \<Rightarrow> u8) \<Rightarrow> addr set" where
  "free_frames p m = pool_frame p ` free_idx (pool_bitmap p) m"

lemma unat_frame:
  assumes "pool_ok p" "i < bm_bits (pool_bitmap p)"
  shows "unat (pool_frame p i) = unat (phy_addr_start p) + 4096 * i"
proof -
  have i: "4096 * i + unat (phy_addr_start p) < 4294967296" 
    using assms by (auto simp: pool_ok_def)
  then have "unat (of_nat i * PG_SIZE) = 4096 * i"
    by (simp add: PG_SIZE_def unat_word_ariths unat_of_nat_u32 mult.commute)
  with i show ?thesis by (simp add: pool_frame_def unat_add_u32)
qed

lemma frame_facts:
  assumes "pool_ok p" "i < bm_bits (pool_bitmap p)"
  shows "page_aligned (pool_frame p i)" "pool_frame p i \<noteq> NULL" "frame_of (pool_frame p i) = pool_frame p i"
proof -
  show "page_aligned (pool_frame p i)"
    using assms by (simp add: page_aligned_dvd unat_frame) (simp add: pool_ok_def page_aligned_dvd)
  then show "frame_of (pool_frame p i) = pool_frame p i" by (rule aligned_frame_of)
  have "unat (pool_frame p i) \<noteq> 0"
    using assms by (simp add: unat_frame pool_ok_def unat_eq_0)
  then show "pool_frame p i \<noteq> NULL" by auto
qed

lemma frame_inj:
  assumes "pool_ok p" "i < bm_bits (pool_bitmap p)" "j < bm_bits (pool_bitmap p)"
  shows "pool_frame p i = pool_frame p j \<longleftrightarrow> i = j"
  unfolding word_unat_eq_iff unat_frame [OF assms(1,2)] unat_frame [OF assms(1,3)] by simp

lemma palloc_eq:
  assumes "pool_ok p"
  shows "palloc p s =
    (let F = free_idx (pool_bitmap p) (mem s)
     in if F = {} then Inr (NULL, put_str (''palloc failed'' @ [CHR 0x0a]) s)
        else Inr (pool_frame p (Min F), s\<lparr>mem := bm_upd (pool_bitmap p) (Min F) True (mem s)\<rparr>))"
proof (cases "free_idx (pool_bitmap p) (mem s) = {}")
  case True
  with assms show ?thesis by (simp add: palloc_def free_idx_first_fit pool_ok_def)
next
  case False
  let ?b = "pool_bitmap p" and ?i = "Min (free_idx (pool_bitmap p) (mem s))"
  have wf: "bm_wf ?b" using assms by (simp add: pool_ok_def)
  have i: "?i \<in> free_idx ?b (mem s)" using False by (intro Min_in) (auto simp: free_idx_def)
  then have lt: "?i < bm_bits ?b" by (simp add: free_idx_def)
  then have "(of_nat ?i :: u32) \<noteq> - 1"
    using wf of_nat_u32_eq_iff [of ?i "0xffffffff"] by (auto simp: bm_wf_def)
  moreover have "bitmap_set ?b (of_nat ?i) 1 s = Inr (s\<lparr>mem := bm_upd ?b ?i True (mem s)\<rparr>)"
    using bitmap_set_eq [OF wf lt, of True s] by simp
  ultimately show ?thesis
    using False wf by (simp add: palloc_def free_idx_first_fit pool_frame_def Let_def)
qed

lemma palloc_cases:
  assumes "pool_ok p"
  obtains (none) "free_idx (pool_bitmap p) (mem s) = {}"
      "palloc p s = Inr (NULL, put_str (''palloc failed'' @ [CHR 0x0a]) s)"
    | (some) i where "i \<in> free_idx (pool_bitmap p) (mem s)" "i < bm_bits (pool_bitmap p)"
      "palloc p s = Inr (pool_frame p i, s\<lparr>mem := bm_upd (pool_bitmap p) i True (mem s)\<rparr>)"
proof (cases "free_idx (pool_bitmap p) (mem s) = {}")
  case True
  with palloc_eq [OF assms, of s] none show ?thesis by simp
next
  case False
  then have "Min (free_idx (pool_bitmap p) (mem s)) \<in> free_idx (pool_bitmap p) (mem s)"
    by (intro Min_in) (auto simp: free_idx_def)
  then show ?thesis
  proof (rule some)
    show "Min (free_idx (pool_bitmap p) (mem s)) < bm_bits (pool_bitmap p)"
      using \<open>Min (free_idx (pool_bitmap p) (mem s)) \<in> free_idx (pool_bitmap p) (mem s)\<close> by (simp add: free_idx_def)
  qed (use False palloc_eq [OF assms, of s] in \<open>simp add: Let_def\<close>)
qed

section \<open>Adding a mapping\<close>

lemma page_flags: "(p :: u32) OR PG_US_U OR PG_RW_W OR PG_P_1 = p OR 7"
  by (simp add: PG_US_U_def PG_RW_W_def PG_P_1_def or.assoc)

lemma present_mask: "e AND 0x01 \<noteq> 0 \<longleftrightarrow> present e"
  by (simp add: present_def)

text \<open>With the table of the address in place.\<close>

lemma page_table_add_present:
  assumes "pm_ok s" "pte_loc (pmem s) (cr3 s) v = Some loc" "translate s v = None" "v \<noteq> NULL" "p \<noteq> NULL"
  shows "page_table_add v p s = Inr (s\<lparr>pmem := (pmem s)(loc := p OR 7)\<rparr>)"
proof -
  have "present (pde_at s v)" using assms(2) by (auto simp: pte_loc_def Let_def split: if_splits)
  moreover have "\<not> present (pmem s loc)"
    using assms(2,3) by (auto simp: translate_def walk_pte_loc split: if_splits)
  ultimately show ?thesis
    unfolding page_table_add_def Let_def page_flags present_mask
    using assms by (simp add: vload_pde vload_pte vstore_pte)
qed

text \<open>Without it: a frame \<open>t\<close> of the kernel pool becomes the table.\<close>

lemma page_table_add_absent:
  assumes "tables_ok (pmem s) (cr3 s)" "\<not> present (pde_at s v)" "\<not> in_window v" "v \<noteq> NULL" "p \<noteq> NULL"
    "palloc (kernel_pool s) s = Inr (t, s\<lparr>mem := m\<rparr>)" "page_aligned t" "t \<notin> mapped (pmem s) (cr3 s)"
  shows "page_table_add v p s = Inr (cleared (pte_ptr v AND 0xfffff000)
    (s\<lparr>mem := m, pmem := (with_table (pmem s) (cr3 s) v (t OR 7))(pte_slot (t OR 7) v := p OR 7)\<rparr>))"
proof -
  let ?D = "cr3 s" and ?e = "t OR 7" and ?w = "pte_ptr v AND 0xfffff000"
  let ?pm = "(pmem s)(pde_slot ?D v := ?e)" and ?pm' = "with_table (pmem s) ?D v ?e"
  let ?s = "s\<lparr>mem := m, pmem := ?pm\<rparr>" and ?s' = "cleared ?w (s\<lparr>mem := m, pmem := ?pm'\<rparr>)"
  have e: "present ?e" "frame_of ?e = t" using assms(7) by (simp_all add: low_flags aligned_frame_of)
  have self: "pm_ok s" using assms(1) by (simp add: tables_ok_def)
  note add = add_table [OF assms(1,3,2) e(1), unfolded e(2), OF assms(8)]
  have "pde_slot ?D v \<noteq> pde_slot ?D 0xfffff000"
    using assms(3) window_top by (simp add: pde_slot_eq_iff in_window_def)
  then have self': "self_mapped ?pm ?D" using self by (simp add: self_mapped_top)
  have "translate ?s ?w = Some t"
    using walk_pte_ptr_page [OF self', of v] e by (simp add: translate_def)
  then have "clear_page ?w ?s = Inr ?s'"
    by (simp add: clear_page_eq with_table_def e cleared_pmem cong del: if_weak_cong)
  moreover have "?w \<noteq> NULL"
    using unat_pte_ptr_page [of v] by (metis add_eq_0_iff_both_eq_0 unat_0 zero_neq_numeral)
  ultimately have "memset_pages ?w 1 ?s = Inr ?s'" by (simp add: memset_pages_def)
  moreover have "pm_ok ?s'" "pte_loc (pmem ?s') (cr3 ?s') v = Some (pte_slot ?e v)" "pmem ?s' (pte_slot ?e v) = 0"
    using add(1-3) by (simp_all add: tables_ok_def)
  ultimately show ?thesis
    unfolding page_table_add_def Let_def page_flags present_mask
    using assms self by (simp add: vload_pde vstore_pde vload_pte vstore_pte) (simp add: present_def cleared_pmem)
qed

end
