(* ===== verification/Kernel_Pages.thy ===== *)
theory Kernel_Pages
  imports Memory
begin

text \<open>
  The invariant of the memory management and the allocation of kernel pages: no free frame is mapped,
  bitmaps and pools are apart, and the free addresses of the heap are unmapped. \<open>page_table_add\<close> maps
  one page and leaves the others, and \<open>get_kernel_pages\<close> maps a run of pages to distinct free frames.
\<close>

section \<open>The invariant of the memory\<close>

text \<open>
  \<open>vm_core\<close>: the page tables are well formed, the frames of the two pools and the bytes of the three
  bitmaps are apart, the bitmaps lie below the heap, and no free frame is mapped anywhere, which
  includes the frames used as page tables.
\<close>

definition pool_bitmaps :: "'a mems_scheme \<Rightarrow> bitmap list" where
  "pool_bitmaps s = [pool_bitmap (kernel_pool s), pool_bitmap (user_pool s), vaddr_bitmap (kernel_vaddr s)]"

definition bitmaps_apart :: "bitmap list \<Rightarrow> bool" where
  "bitmaps_apart bs \<longleftrightarrow>
     (\<forall>i < length bs. bm_wf (bs ! i) \<and> (\<forall>a. in_bytes (bs ! i) a \<longrightarrow> a < K_HEAP_START) \<and>
        (\<forall>j < length bs. i \<noteq> j \<longrightarrow> (\<forall>a. \<not> (in_bytes (bs ! i) a \<and> in_bytes (bs ! j) a))))"

definition all_free :: "'a mems_scheme \<Rightarrow> addr set" where
  "all_free s = free_frames (kernel_pool s) (mem s) \<union> free_frames (user_pool s) (mem s)"

definition vm_core :: "'a mems_scheme \<Rightarrow> bool" where
  "vm_core s \<longleftrightarrow> tables_ok (pmem s) (cr3 s) \<and> pool_ok (kernel_pool s) \<and> pool_ok (user_pool s) \<and>
     (\<forall>i < bm_bits (pool_bitmap (kernel_pool s)). \<forall>j < bm_bits (pool_bitmap (user_pool s)).
        pool_frame (kernel_pool s) i \<noteq> pool_frame (user_pool s) j) \<and>
     bitmaps_apart (pool_bitmaps s) \<and> all_free s \<inter> mapped (pmem s) (cr3 s) = {}"

text \<open>
  \<open>heap_ok\<close>: the page tables of the kernel part exist, the heap lies between 0xc0100000 and the
  window, and no free page of it is mapped.
\<close>

definition heap_page :: "'a mems_scheme \<Rightarrow> nat \<Rightarrow> addr" where
  "heap_page s k = vaddr_start (kernel_vaddr s) + of_nat k * PG_SIZE"

definition heap_bits :: "'a mems_scheme \<Rightarrow> nat" where
  "heap_bits s = bm_bits (vaddr_bitmap (kernel_vaddr s))"

definition heap_ok :: "'a mems_scheme \<Rightarrow> bool" where
  "heap_ok s \<longleftrightarrow> (\<forall>v \<ge> 0xc0000000. present (pde_at s v)) \<and> page_aligned (vaddr_start (kernel_vaddr s)) \<and>
     K_HEAP_START \<le> vaddr_start (kernel_vaddr s) \<and>
     unat (vaddr_start (kernel_vaddr s)) + 4096 * heap_bits s \<le> 0xffc00000 \<and>
     (\<forall>k \<in> free_idx (vaddr_bitmap (kernel_vaddr s)) (mem s). translate s (heap_page s k) = None)"

definition vm_inv :: "'a mems_scheme \<Rightarrow> bool" where
  "vm_inv s \<longleftrightarrow> vm_core s \<and> heap_ok s"

lemma bitmaps_apart_others:
  assumes "bitmaps_apart bs" "i < length bs" "j < length bs" "i \<noteq> j" "k < bm_bits (bs ! i)"
  shows "free_idx (bs ! j) (bm_upd (bs ! i) k v m) = free_idx (bs ! j) m"
proof -
  have "bm_upd (bs ! i) k v m a = m a" if "in_bytes (bs ! j) a" for a
    using assms that unfolding bitmaps_apart_def by (intro bm_upd_outside) blast+
  then show ?thesis
    using assms unfolding free_idx_def bitmaps_apart_def
    by (metis (no_types, lifting) bm_used_frame)
qed

lemma free_idx_upd: "bm_wf b \<Longrightarrow> k < bm_bits b \<Longrightarrow> free_idx b (bm_upd b k True m) = free_idx b m - {k}"
  by (auto simp: free_idx_def bm_used_upd split: if_splits)

text \<open>Taking a frame.\<close>

definition bit_of :: "pool_flags \<Rightarrow> 'a mems_scheme \<Rightarrow> bitmap" where
  "bit_of pf s = pool_bitmap (mem_pool pf s)"

definition taken :: "pool_flags \<Rightarrow> nat \<Rightarrow> 'a mems_scheme \<Rightarrow> 'a mems_scheme" where
  "taken pf i s = s\<lparr>mem := bm_upd (bit_of pf s) i True (mem s)\<rparr>"

lemma taken_simps [simp]:
  "pmem (taken pf i s) = pmem s" "cr3 (taken pf i s) = cr3 s" "kernel_pool (taken pf i s) = kernel_pool s"
  "user_pool (taken pf i s) = user_pool s" "kernel_vaddr (taken pf i s) = kernel_vaddr s"
  "mem_pool pf' (taken pf i s) = mem_pool pf' s" "bit_of pf' (taken pf i s) = bit_of pf' s"
  "translate (taken pf i s) v = translate s v" "heap_page (taken pf i s) k = heap_page s k"
  "heap_bits (taken pf i s) = heap_bits s"
  by (simp_all add: taken_def mem_pool_def bit_of_def translate_def heap_page_def heap_bits_def split: pool_flags.split)

lemma free_idx_taken:
  assumes "bitmaps_apart (pool_bitmaps s)" "i < bm_bits (bit_of pf s)"
  shows "free_idx (bit_of pf' s) (mem (taken pf i s)) = free_idx (bit_of pf' s) (mem s) - (if pf' = pf then {i} else {})"
    and "free_idx (vaddr_bitmap (kernel_vaddr s)) (mem (taken pf i s)) = free_idx (vaddr_bitmap (kernel_vaddr s)) (mem s)"
proof -
  let ?n = "\<lambda>pf. (if pf = PF_KERNEL then 0 else 1) :: nat"
  have n: "pool_bitmaps s ! ?n pf = bit_of pf s" "?n pf < 2" for pf
    by (cases pf; simp add: pool_bitmaps_def bit_of_def mem_pool_def)+
  have l: "length (pool_bitmaps s) = 3" "pool_bitmaps s ! 2 = vaddr_bitmap (kernel_vaddr s)"
    by (simp_all add: pool_bitmaps_def)
  have "bm_wf (pool_bitmaps s ! ?n pf)" using assms(1) l(1) by (simp add: bitmaps_apart_def)
  then have wf: "bm_wf (bit_of pf s)" by (simp only: n)
  show "free_idx (vaddr_bitmap (kernel_vaddr s)) (mem (taken pf i s)) = free_idx (vaddr_bitmap (kernel_vaddr s)) (mem s)"
    using bitmaps_apart_others [OF assms(1), of "?n pf" 2 i] assms(2) n [of pf] l by (simp add: taken_def)
  show "free_idx (bit_of pf' s) (mem (taken pf i s)) = free_idx (bit_of pf' s) (mem s) - (if pf' = pf then {i} else {})"
  proof (cases "pf' = pf")
    case False
    then have "?n pf \<noteq> ?n pf'" by (cases pf; cases pf') auto
    with False show ?thesis
      using bitmaps_apart_others [OF assms(1), of "?n pf" "?n pf'" i] assms(2) n [of pf] n [of pf'] l
      by (simp add: taken_def)
  qed (use free_idx_upd [OF wf assms(2)] in \<open>simp add: taken_def\<close>)
qed

lemma all_free_pools: "all_free s = (\<Union>pf. free_frames (mem_pool pf s) (mem s))"
  by (auto simp: all_free_def mem_pool_def split: pool_flags.splits)

lemma vm_core_pool: "vm_core s \<Longrightarrow> pool_ok (mem_pool pf s)"
  by (simp add: vm_core_def mem_pool_def split: pool_flags.split)

lemma vm_core_frame_eq:
  assumes "vm_core s" "i < bm_bits (bit_of pf s)" "j < bm_bits (bit_of pf' s)"
    "pool_frame (mem_pool pf s) i = pool_frame (mem_pool pf' s) j"
  shows "pf = pf' \<and> i = j"
proof -
  have "pf = pf'"
    using assms by (cases pf; cases pf') (auto simp: vm_core_def bit_of_def mem_pool_def dest: sym)
  with assms show ?thesis using frame_inj [OF vm_core_pool [OF assms(1), of pf]] by (simp add: bit_of_def)
qed

lemma all_free_taken:
  assumes "vm_core s" "i < bm_bits (bit_of pf s)"
  shows "all_free (taken pf i s) = all_free s - {pool_frame (mem_pool pf s) i}"
proof -
  have "bitmaps_apart (pool_bitmaps s)" using assms(1) by (simp add: vm_core_def)
  note free = free_idx_taken(1) [OF this assms(2), unfolded bit_of_def]
  have "free_frames (mem_pool pf' s) (mem (taken pf i s)) =
      free_frames (mem_pool pf' s) (mem s) - {pool_frame (mem_pool pf s) i}" for pf'
  proof -
    have "pool_frame (mem_pool pf' s) j = pool_frame (mem_pool pf s) i \<longleftrightarrow> pf' = pf \<and> j = i"
      if "j \<in> free_idx (pool_bitmap (mem_pool pf' s)) (mem s)" for j
      using vm_core_frame_eq [OF assms, of j pf'] that by (auto simp: free_idx_def bit_of_def)
    then show ?thesis unfolding free_frames_def free by auto
  qed
  then show ?thesis by (auto simp: all_free_pools)
qed

lemma vm_core_taken:
  assumes "vm_core s" "i < bm_bits (bit_of pf s)"
  shows "vm_core (taken pf i s)"
  using assms all_free_taken [OF assms] by (auto simp: vm_core_def pool_bitmaps_def)

lemma all_free_pmem [simp]: "all_free (s\<lparr>pmem := pm\<rparr>) = all_free s"
  by (simp add: all_free_def)

lemma vm_core_pmem:
  assumes "vm_core s" "tables_ok pm (cr3 s)" "mapped pm (cr3 s) \<subseteq> insert f (mapped (pmem s) (cr3 s))" "f \<notin> all_free s"
  shows "vm_core (s\<lparr>pmem := pm\<rparr>)"
  using assms by (auto simp: vm_core_def pool_bitmaps_def)

text \<open>Clearing a page of the heap or of the window does not touch the bitmaps.\<close>

lemma unat_in_page_mono: "unat (v AND 0xfffff000) \<le> unat (v :: u32)"
  by (simp only: unat_page_mask)

lemma free_idx_cleared:
  assumes "bm_wf b" "\<And>a. in_bytes b a \<Longrightarrow> a < K_HEAP_START" "K_HEAP_START \<le> w"
  shows "free_idx b (mem (cleared w s)) = free_idx b (mem s)"
proof -
  have "a AND 0xfffff000 \<noteq> w" if "in_bytes b a" for a
    using assms(2) [OF that] assms(3) unat_in_page_mono [of a] by (auto simp: word_less_nat_alt word_le_nat_alt)
  then have "mem (cleared w s) a = mem s a" if "in_bytes b a" for a
    using that by (simp add: cleared_def)
  then have "bm_used (mem (cleared w s)) b i = bm_used (mem s) b i" if "i < bm_bits b" for i
    using that assms(1) by (intro bm_used_frame) auto
  then show ?thesis by (auto simp: free_idx_def)
qed

lemma cleared_mems [simp]:
  "kernel_pool (cleared w s) = kernel_pool s" "user_pool (cleared w s) = user_pool s"
  "kernel_vaddr (cleared w s) = kernel_vaddr s" "translate (cleared w s) v = translate s v"
  "mem_pool pf (cleared w s) = mem_pool pf s" "bit_of pf (cleared w s) = bit_of pf s"
  "heap_page (cleared w s) k = heap_page s k" "heap_bits (cleared w s) = heap_bits s"
  by (simp_all add: cleared_def translate_def mem_pool_def bit_of_def heap_page_def heap_bits_def split: pool_flags.split)

lemma vm_core_bitmap:
  assumes "vm_core s" "b \<in> set (pool_bitmaps s)"
  shows "bm_wf b" "in_bytes b a \<Longrightarrow> a < K_HEAP_START"
  using assms unfolding vm_core_def bitmaps_apart_def in_set_conv_nth by blast+

lemma bit_of_in: "bit_of pf s \<in> set (pool_bitmaps s)" "vaddr_bitmap (kernel_vaddr s) \<in> set (pool_bitmaps s)"
  by (simp_all add: bit_of_def mem_pool_def pool_bitmaps_def split: pool_flags.split)

lemma free_idx_cleared_pools:
  assumes "vm_core s" "K_HEAP_START \<le> w" "b \<in> set (pool_bitmaps s)"
  shows "free_idx b (mem (cleared w s)) = free_idx b (mem s)"
  using vm_core_bitmap [OF assms(1,3)] assms(2) by (intro free_idx_cleared) auto

lemma all_free_cleared:
  assumes "vm_core s" "K_HEAP_START \<le> w"
  shows "all_free (cleared w s) = all_free s"
  using free_idx_cleared_pools [OF assms] bit_of_in(1) [of _ s]
  by (simp add: all_free_pools free_frames_def bit_of_def)

lemma vm_core_cleared: "vm_core s \<Longrightarrow> K_HEAP_START \<le> w \<Longrightarrow> vm_core (cleared w s)"
  using all_free_cleared [of s w] by (simp add: vm_core_def pool_bitmaps_def)

lemma window_above_heap: "K_HEAP_START \<le> pte_ptr v AND 0xfffff000"
  unfolding word_le_nat_alt unat_pte_ptr_page by (simp add: K_HEAP_START_def)

section \<open>What adding a mapping does to the address space\<close>

text \<open>
  The page of \<open>v\<close> shows the frame \<open>f\<close>, and outside the window every other page shows what it did, but
  for the page that shares its entry through directory entries 0 and 768.
\<close>

definition maps_page :: "addr \<Rightarrow> addr \<Rightarrow> 'a paging_scheme \<Rightarrow> 'a paging_scheme \<Rightarrow> bool" where
  "maps_page v f s s' \<longleftrightarrow>
     (\<forall>w. w AND 0xfffff000 = v AND 0xfffff000 \<longrightarrow> translate s' w = Some (f + (w AND 0xfff))) \<and>
     (\<forall>w. \<not> in_window w \<and> \<not> mirrored v w \<longrightarrow> translate s' w = translate s w)"

lemma maps_page_set:
  assumes "tables_ok pm (cr3 s)" "pte_loc pm (cr3 s) v = Some loc" "\<not> in_window v" "page_aligned f"
    "\<And>w. \<not> in_window w \<Longrightarrow> walk pm (cr3 s) w = translate s w"
    "pmem s' = pm(loc := f OR 7)" "cr3 s' = cr3 s"
  shows "maps_page v f s s'"
proof -
  have step: "translate s' w = (if pte_loc pm (cr3 s) w = Some loc then Some (f + (w AND 0xfff)) else walk pm (cr3 s) w)" for w
    using set_pte(4) [OF assms(1,3,2) low_flags(1), of f w] assms(4,6,7)
    by (simp add: translate_def low_flags aligned_frame_of)
  moreover have "pte_loc pm (cr3 s) w = Some loc" if "w AND 0xfffff000 = v AND 0xfffff000" for w
    using same_page_loc [OF that] assms(2) by simp
  moreover have "pte_loc pm (cr3 s) w \<noteq> Some loc" if "\<not> mirrored v w" for w
    using pte_loc_mirrored [OF assms(1,2)] that by blast
  ultimately show ?thesis using assms(5) by (simp add: maps_page_def)
qed

lemma vm_core_set_pte:
  assumes "vm_core s" "pte_loc (pmem s) (cr3 s) v = Some loc" "\<not> in_window v" "page_aligned f" "f \<notin> all_free s"
  shows "vm_core (s\<lparr>pmem := (pmem s)(loc := f OR 7)\<rparr>)"
proof -
  have "tables_ok (pmem s) (cr3 s)" using assms(1) by (simp add: vm_core_def)
  note set = set_pte [OF this assms(3,2) low_flags(1), of f]
  show ?thesis
    using set(5) assms(4,5) by (intro vm_core_pmem [OF assms(1) set(1)]) (simp_all add: low_flags aligned_frame_of)
qed

lemma add_present:
  assumes "vm_core s" "\<not> in_window v" "v \<noteq> NULL" "translate s v = None" "page_aligned f" "f \<noteq> NULL" "f \<notin> all_free s"
    "pte_loc (pmem s) (cr3 s) v = Some loc"
  shows "page_table_add v f s = Inr (s\<lparr>pmem := (pmem s)(loc := f OR 7)\<rparr>)"
    "vm_core (s\<lparr>pmem := (pmem s)(loc := f OR 7)\<rparr>)" "maps_page v f s (s\<lparr>pmem := (pmem s)(loc := f OR 7)\<rparr>)"
proof -
  have "tables_ok (pmem s) (cr3 s)" using assms(1) by (simp add: vm_core_def)
  then show "maps_page v f s (s\<lparr>pmem := (pmem s)(loc := f OR 7)\<rparr>)"
    using assms by (intro maps_page_set [where pm = "pmem s" and loc = loc]) (simp_all add: translate_def)
  show "page_table_add v f s = Inr (s\<lparr>pmem := (pmem s)(loc := f OR 7)\<rparr>)"
    using assms \<open>tables_ok (pmem s) (cr3 s)\<close> by (intro page_table_add_present) (simp_all add: tables_ok_def)
qed (rule vm_core_set_pte [OF assms(1,8,2,5,7)])

lemma palloc_pool_cases:
  assumes "vm_core s"
  obtains (none) "free_idx (bit_of pf s) (mem s) = {}"
      "palloc (mem_pool pf s) s = Inr (NULL, put_str (''palloc failed'' @ [CHR 0x0a]) s)"
    | (some) i where "i \<in> free_idx (bit_of pf s) (mem s)" "i < bm_bits (bit_of pf s)"
      "palloc (mem_pool pf s) s = Inr (pool_frame (mem_pool pf s) i, taken pf i s)"
      "pool_frame (mem_pool pf s) i \<in> all_free s" "page_aligned (pool_frame (mem_pool pf s) i)"
      "pool_frame (mem_pool pf s) i \<noteq> NULL"
proof (cases rule: palloc_cases [OF vm_core_pool [OF assms, of pf], of s])
  case 1
  then show ?thesis by (intro none) (simp_all add: bit_of_def)
next
  case (2 i)
  then show ?thesis
    using frame_facts [OF vm_core_pool [OF assms, of pf], of i]
    by (intro some [of i]) (auto simp: bit_of_def taken_def all_free_pools free_frames_def)
qed

lemma add_absent:
  assumes "vm_core s" "\<not> in_window v" "v \<noteq> NULL" "\<not> present (pde_at s v)" "page_aligned f" "f \<noteq> NULL" "f \<notin> all_free s"
    "free_idx (bit_of PF_KERNEL s) (mem s) \<noteq> {}"
  obtains t s' where "t \<in> free_idx (bit_of PF_KERNEL s) (mem s)"
    "page_table_add v f s = Inr s'" "vm_core s'" "maps_page v f s s'"
    "s' = cleared (pte_ptr v AND 0xfffff000) ((taken PF_KERNEL t s)\<lparr>pmem := pmem s'\<rparr>)"
proof -
  from palloc_pool_cases [OF assms(1), of PF_KERNEL] assms(8) obtain i where i:
    "i \<in> free_idx (bit_of PF_KERNEL s) (mem s)" "i < bm_bits (bit_of PF_KERNEL s)"
    "palloc (kernel_pool s) s = Inr (pool_frame (kernel_pool s) i, taken PF_KERNEL i s)"
    "pool_frame (kernel_pool s) i \<in> all_free s" "page_aligned (pool_frame (kernel_pool s) i)"
    by (auto simp: mem_pool_def)
  define t where "t = pool_frame (kernel_pool s) i"
  define s1 where "s1 = taken PF_KERNEL i s"
  define pm1 where "pm1 = with_table (pmem s) (cr3 s) v (t OR 7)"
  define s2 where "s2 = s1\<lparr>pmem := pm1(pte_slot (t OR 7) v := f OR 7)\<rparr>"
  have T: "tables_ok (pmem s) (cr3 s)" and disj: "all_free s \<inter> mapped (pmem s) (cr3 s) = {}"
    using assms(1) by (simp_all add: vm_core_def)
  have e: "present (t OR 7)" "frame_of (t OR 7) = t" using i(5) by (simp_all add: t_def low_flags aligned_frame_of)
  have fresh: "t \<notin> mapped (pmem s) (cr3 s)" using i(4) disj by (auto simp: t_def)
  have free1: "all_free s1 = all_free s - {t}"
    using all_free_taken [OF assms(1) i(2)] by (simp add: s1_def t_def mem_pool_def)
  note add = add_table [OF T assms(2,4) e(1), unfolded e(2), OF fresh]
  have "vm_core (s1\<lparr>pmem := pm1\<rparr>)"
    using add(1,6) free1 vm_core_taken [OF assms(1) i(2)]
    by (intro vm_core_pmem [where f = t]) (simp_all add: s1_def pm1_def)
  then have core: "vm_core s2"
    using vm_core_set_pte [of "s1\<lparr>pmem := pm1\<rparr>" v "pte_slot (t OR 7) v" f] add(2) assms(2,5,7) free1
    by (simp add: s2_def s1_def pm1_def)
  show ?thesis
  proof
    show "i \<in> free_idx (bit_of PF_KERNEL s) (mem s)" by (fact i(1))
    let ?s' = "cleared (pte_ptr v AND 0xfffff000) s2"
    have "s\<lparr>mem := mem s1\<rparr> = s1" by (simp add: s1_def taken_def)
    then show "page_table_add v f s = Inr ?s'"
      using page_table_add_absent [OF T assms(4,2,3,6), of t "mem s1"] i(3,5) fresh
      by (simp add: s2_def t_def s1_def taken_def pm1_def)
    show "vm_core ?s'" using core window_above_heap by (rule vm_core_cleared)
    show "maps_page v f s ?s'"
      using add(1,2,4) assms(2,5)
      by (intro maps_page_set [where pm = pm1 and loc = "pte_slot (t OR 7) v"])
         (simp_all add: pm1_def s2_def s1_def translate_def)
    show "?s' = cleared (pte_ptr v AND 0xfffff000) ((taken PF_KERNEL i s)\<lparr>pmem := pmem ?s'\<rparr>)"
      by (simp add: s2_def s1_def)
  qed
qed

section \<open>Allocation of kernel pages\<close>

definition heap_geometry :: "'a mems_scheme \<Rightarrow> bool" where
  "heap_geometry s \<longleftrightarrow> (\<forall>v \<ge> 0xc0000000. present (pde_at s v)) \<and> page_aligned (vaddr_start (kernel_vaddr s)) \<and>
     K_HEAP_START \<le> vaddr_start (kernel_vaddr s) \<and>
     unat (vaddr_start (kernel_vaddr s)) + 4096 * heap_bits s \<le> 0xffc00000"

lemma heap_ok_geometry: "heap_ok s \<longleftrightarrow> heap_geometry s \<and>
    (\<forall>k \<in> free_idx (vaddr_bitmap (kernel_vaddr s)) (mem s). translate s (heap_page s k) = None)"
  by (auto simp: heap_ok_def heap_geometry_def)

lemma unat_heap_page:
  assumes "heap_geometry s" "k < heap_bits s"
  shows "unat (heap_page s k) = unat (vaddr_start (kernel_vaddr s)) + 4096 * k"
proof -
  have "unat (vaddr_start (kernel_vaddr s)) + 4096 * k < 4294967296"
    using assms by (simp add: heap_geometry_def)
  then show ?thesis
    by (simp add: heap_page_def PG_SIZE_def unat_add_u32 unat_word_ariths unat_of_nat_u32 mult.commute)
qed

lemma not_in_window: "unat v < 4290772992 \<Longrightarrow> \<not> in_window v"
proof
  assume v: "unat v < 4290772992" and "in_window v"
  then have "unat (drop_bit 22 v) = unat (1023 :: u32)" by (simp only: in_window_def)
  with v show False by (simp add: unat_pde_idx)
qed

lemma heap_page_facts:
  assumes "heap_geometry s" "k < heap_bits s"
  shows "\<not> in_window (heap_page s k)" "heap_page s k \<noteq> NULL" "0xc0100000 \<le> unat (heap_page s k)"
    "page_aligned (heap_page s k)" "heap_page s k AND 0xfffff000 = heap_page s k"
    "present (pde_at s (heap_page s k))"
proof -
  note u = unat_heap_page [OF assms]
  show lo: "0xc0100000 \<le> unat (heap_page s k)"
    using assms(1) u by (simp add: heap_geometry_def word_le_nat_alt K_HEAP_START_def)
  then show "heap_page s k \<noteq> NULL" by auto
  show "\<not> in_window (heap_page s k)"
    using assms u by (intro not_in_window) (simp add: heap_geometry_def)
  show al: "page_aligned (heap_page s k)"
    using assms(1) u by (simp add: page_aligned_dvd heap_geometry_def)
  then show "heap_page s k AND 0xfffff000 = heap_page s k"
    using page_mask_in_page [of "heap_page s k" 0] by simp
  show "present (pde_at s (heap_page s k))"
    using assms(1) lo by (simp add: heap_geometry_def word_le_nat_alt)
qed

lemma heap_page_eq_iff:
  assumes "heap_geometry s" "i < heap_bits s" "j < heap_bits s"
  shows "heap_page s i = heap_page s j \<longleftrightarrow> i = j"
  unfolding word_unat_eq_iff unat_heap_page [OF assms(1,2)] unat_heap_page [OF assms(1,3)] by simp

lemma kernel_mirrored:
  assumes "mirrored v w" "0xc0000000 \<le> unat v" "0xc0000000 \<le> unat w"
  shows "v AND 0xfffff000 = w AND 0xfffff000"
proof -
  have "drop_bit 22 v \<noteq> 0" "drop_bit 22 w \<noteq> 0"
    using assms(2,3) by (simp_all add: word_unat_eq_iff unat_pde_idx)
  then have "drop_bit 22 v = drop_bit 22 w" using assms(1) by (auto simp: mirrored_def shared_idx_def)
  with assms(1) show ?thesis by (rule mirrored_same_page)
qed

text \<open>The effect of mapping \<open>n\<close> pages of the heap from page \<open>k\<close> on to the frames with the indices \<open>fs\<close>.\<close>

definition pages_mapped :: "nat \<Rightarrow> nat list \<Rightarrow> 'a mems_scheme \<Rightarrow> 'a mems_scheme \<Rightarrow> bool" where
  "pages_mapped k fs s s' \<longleftrightarrow>
     (\<forall>j < length fs. \<forall>w. w AND 0xfffff000 = heap_page s (k + j) \<longrightarrow>
        translate s' w = Some (pool_frame (kernel_pool s) (fs ! j) + (w AND 0xfff))) \<and>
     (\<forall>w. \<not> in_window w \<and> (\<forall>j < length fs. \<not> mirrored (heap_page s (k + j)) w) \<longrightarrow>
        translate s' w = translate s w) \<and>
     (\<forall>v. pde_at s' v = pde_at s v)"

lemma pages_mapped_Cons:
  assumes "heap_geometry s" "k + Suc (length fs) \<le> heap_bits s"
    "maps_page (heap_page s k) (pool_frame (kernel_pool s) i) s t" "pages_mapped (Suc k) fs t s'"
    "kernel_pool t = kernel_pool s" "kernel_vaddr t = kernel_vaddr s" "\<And>v. pde_at t v = pde_at s v"
  shows "pages_mapped k (i # fs) s s'"
proof -
  have hp: "heap_page t j = heap_page s j" for j using assms(6) by (simp add: heap_page_def)
  note facts = heap_page_facts [OF assms(1)]
  have "translate s' w = Some (pool_frame (kernel_pool s) i + (w AND 0xfff))"
    if w: "w AND 0xfffff000 = heap_page s k" for w
  proof -
    have "\<not> in_window w"
      using facts(1) [of k] assms(2) w same_page_iff [of w "heap_page s k"] facts(5) [of k] by (simp add: in_window_def)
    moreover have "\<not> mirrored (heap_page s (Suc k + j)) w" if "j < length fs" for j
    proof
      assume m: "mirrored (heap_page s (Suc k + j)) w"
      have "unat (heap_page s k) \<le> unat w" using unat_in_page_mono [of w] w by simp
      with m facts(3) [of k] facts(3) [of "Suc k + j"] that assms(2)
      have "heap_page s (Suc k + j) AND 0xfffff000 = w AND 0xfffff000" by (intro kernel_mirrored) auto
      with w facts(5) [of "Suc k + j"] that assms(2) have "heap_page s (Suc k + j) = heap_page s k" by simp
      with heap_page_eq_iff [OF assms(1), of "Suc k + j" k] that assms(2) show False by simp
    qed
    ultimately have "translate s' w = translate t w"
      using assms(4) by (simp add: pages_mapped_def hp)
    also have "\<dots> = Some (pool_frame (kernel_pool s) i + (w AND 0xfff))"
      using assms(2,3) w facts(5) [of k] by (simp add: maps_page_def)
    finally show ?thesis .
  qed
  then show ?thesis
    using assms(3,4,5,7) unfolding pages_mapped_def maps_page_def hp
    by (simp add: All_less_Suc2)
qed

lemma mems_upd [simp]:
  "heap_bits (s\<lparr>mem := m\<rparr>) = heap_bits s" "heap_bits (s\<lparr>pmem := pm\<rparr>) = heap_bits s"
  "heap_page (s\<lparr>mem := m\<rparr>) j = heap_page s j" "heap_page (s\<lparr>pmem := pm\<rparr>) j = heap_page s j"
  "mem_pool pf (s\<lparr>mem := m\<rparr>) = mem_pool pf s" "mem_pool pf (s\<lparr>pmem := pm\<rparr>) = mem_pool pf s"
  "bit_of pf (s\<lparr>mem := m\<rparr>) = bit_of pf s" "bit_of pf (s\<lparr>pmem := pm\<rparr>) = bit_of pf s"
  "translate (s\<lparr>mem := m\<rparr>) v = translate s v"
  by (simp_all add: heap_bits_def heap_page_def bit_of_def mem_pool_def translate_def split: pool_flags.split)

lemma heap_not_mirrored:
  assumes "heap_geometry s" "i < heap_bits s" "j < heap_bits s" "i \<noteq> j"
  shows "\<not> mirrored (heap_page s i) (heap_page s j)"
proof
  assume "mirrored (heap_page s i) (heap_page s j)"
  then have "heap_page s i AND 0xfffff000 = heap_page s j AND 0xfffff000"
    using heap_page_facts(3) [OF assms(1,2)] heap_page_facts(3) [OF assms(1,3)] by (intro kernel_mirrored) auto
  then show False
    using assms heap_page_facts(5) [OF assms(1)] heap_page_eq_iff [OF assms(1-3)] by simp
qed

lemma malloc_loop_step:
  assumes "vm_core s" "heap_geometry s" "k < heap_bits s" "translate s (heap_page s k) = None"
    "free_idx (bit_of PF_KERNEL s) (mem s) \<noteq> {}"
  obtains i m pm where "i \<in> free_idx (bit_of PF_KERNEL s) (mem s)"
    "malloc_loop (Suc n) PF_KERNEL (heap_page s k) s =
       malloc_loop n PF_KERNEL (heap_page s (Suc k)) (s\<lparr>mem := m, pmem := pm\<rparr>)"
    "vm_core (s\<lparr>mem := m, pmem := pm\<rparr>)" "heap_geometry (s\<lparr>mem := m, pmem := pm\<rparr>)"
    "maps_page (heap_page s k) (pool_frame (kernel_pool s) i) s (s\<lparr>mem := m, pmem := pm\<rparr>)"
    "m = mem (taken PF_KERNEL i s)" "\<forall>v. pm (pde_slot (cr3 s) v) = pde_at s v"
proof -
  note facts = heap_page_facts [OF assms(2,3)]
  from palloc_pool_cases [OF assms(1), of PF_KERNEL] assms(5) obtain i where i:
    "i \<in> free_idx (bit_of PF_KERNEL s) (mem s)" "i < bm_bits (bit_of PF_KERNEL s)"
    "palloc (kernel_pool s) s = Inr (pool_frame (kernel_pool s) i, taken PF_KERNEL i s)"
    "page_aligned (pool_frame (kernel_pool s) i)" "pool_frame (kernel_pool s) i \<noteq> NULL"
    by (auto simp: mem_pool_def)
  let ?f = "pool_frame (kernel_pool s) i" and ?s1 = "taken PF_KERNEL i s" and ?v = "heap_page s k"
  obtain loc where loc: "pte_loc (pmem s) (cr3 s) ?v = Some loc"
    using facts(6) by (auto simp: pte_loc_def)
  let ?s2 = "?s1\<lparr>pmem := (pmem s)(loc := ?f OR 7)\<rparr>"
  have add: "page_table_add ?v ?f ?s1 = Inr ?s2" "vm_core ?s2" "maps_page ?v ?f ?s1 ?s2"
    using add_present [of ?s1 ?v ?f loc] vm_core_taken [OF assms(1) i(2)] facts(1,2) assms(4) i(4,5) loc
      all_free_taken [OF assms(1) i(2)] by (simp_all add: mem_pool_def)
  have "tables_ok (pmem s) (cr3 s)" using assms(1) by (simp add: vm_core_def)
  note set = set_pte [OF this facts(1) loc low_flags(1), of ?f]
  have pde: "pmem ?s2 (pde_slot (cr3 s) u) = pde_at s u" for u
    using set(2) [of u] by simp
  then have geo: "heap_geometry ?s2"
    using assms(2) by (simp add: heap_geometry_def)
  have "?s2 = s\<lparr>mem := mem ?s1, pmem := pmem ?s2\<rparr>" by (simp add: taken_def)
  with i(1,3,5) add geo pde that [where i = i and m = "mem ?s1" and pm = "pmem ?s2"] show thesis
    by (simp add: mem_pool_def heap_page_def algebra_simps maps_page_def)
qed

lemma free_idx_run:
  assumes "vm_core s" "i \<in> free_idx (bit_of PF_KERNEL s) (mem s)" "m = mem (taken PF_KERNEL i s)"
  shows "free_idx (bit_of PF_KERNEL s) m = free_idx (bit_of PF_KERNEL s) (mem s) - {i}"
    "free_idx (bit_of PF_USER s) m = free_idx (bit_of PF_USER s) (mem s)"
    "free_idx (vaddr_bitmap (kernel_vaddr s)) m = free_idx (vaddr_bitmap (kernel_vaddr s)) (mem s)"
    "Suc (card (free_idx (bit_of PF_KERNEL s) m)) = card (free_idx (bit_of PF_KERNEL s) (mem s))"
proof -
  have "bitmaps_apart (pool_bitmaps s)" "i < bm_bits (bit_of PF_KERNEL s)"
    using assms(1,2) by (simp_all add: vm_core_def free_idx_def)
  note free = free_idx_taken [OF this]
  show "free_idx (bit_of PF_KERNEL s) m = free_idx (bit_of PF_KERNEL s) (mem s) - {i}"
    "free_idx (bit_of PF_USER s) m = free_idx (bit_of PF_USER s) (mem s)"
    "free_idx (vaddr_bitmap (kernel_vaddr s)) m = free_idx (vaddr_bitmap (kernel_vaddr s)) (mem s)"
    using free(1) [of PF_KERNEL] free(1) [of PF_USER] free(2) assms(3) by simp_all
  show "Suc (card (free_idx (bit_of PF_KERNEL s) m)) = card (free_idx (bit_of PF_KERNEL s) (mem s))"
    using bt.card_free_after_grab [where b = "bit_of PF_KERNEL s" and s = "mem s" and i = i] assms(2,3)
      vm_core_bitmap(1) [OF assms(1) bit_of_in(1)] by (simp add: free_idx_def taken_def)
qed

lemma rest_unmapped:
  assumes "heap_geometry s" "k + Suc n \<le> heap_bits s" "\<forall>j < Suc n. translate s (heap_page s (k + j)) = None"
    "maps_page (heap_page s k) f s (s\<lparr>mem := m, pmem := pm\<rparr>)"
  shows "\<forall>j < n. translate (s\<lparr>mem := m, pmem := pm\<rparr>) (heap_page (s\<lparr>mem := m, pmem := pm\<rparr>) (Suc k + j)) = None"
proof (intro allI impI)
  fix j assume j: "j < n"
  have "translate (s\<lparr>mem := m, pmem := pm\<rparr>) (heap_page s (Suc k + j)) = translate s (heap_page s (Suc k + j))"
    using assms(4) heap_page_facts(1) [OF assms(1), of "Suc k + j"] j assms(2)
      heap_not_mirrored [OF assms(1), of k "Suc k + j"] by (simp add: maps_page_def)
  then show "translate (s\<lparr>mem := m, pmem := pm\<rparr>) (heap_page (s\<lparr>mem := m, pmem := pm\<rparr>) (Suc k + j)) = None"
    using spec [OF assms(3), of "Suc j"] j by simp
qed

text \<open>Bytes of the heap are not bytes of the bitmaps.\<close>

lemma above_not_in_bytes: "vm_core s \<Longrightarrow> b \<in> set (pool_bitmaps s) \<Longrightarrow> K_HEAP_START \<le> a \<Longrightarrow> \<not> in_bytes b a"
  using vm_core_bitmap(2) [of s b a] by (auto simp: not_le [symmetric])

lemma taken_above:
  assumes "vm_core s" "i \<in> free_idx (bit_of pf s) (mem s)" "K_HEAP_START \<le> a"
  shows "mem (taken pf i s) a = mem s a"
  using bm_upd_outside [OF vm_core_bitmap(1) [OF assms(1) bit_of_in(1)] _ above_not_in_bytes [OF assms(1) bit_of_in(1) assms(3)]] assms(2)
  by (simp add: taken_def free_idx_def)

lemma malloc_loop_maps:
  assumes "vm_core s" "heap_geometry s" "k + n \<le> heap_bits s" "\<forall>j < n. translate s (heap_page s (k + j)) = None"
    "n \<le> card (free_idx (bit_of PF_KERNEL s) (mem s))"
  shows "\<exists>fs m pm. malloc_loop n PF_KERNEL (heap_page s k) s = Inr (True, s\<lparr>mem := m, pmem := pm\<rparr>) \<and>
    vm_core (s\<lparr>mem := m, pmem := pm\<rparr>) \<and> heap_geometry (s\<lparr>mem := m, pmem := pm\<rparr>) \<and>
    length fs = n \<and> distinct fs \<and> set fs \<subseteq> free_idx (bit_of PF_KERNEL s) (mem s) \<and>
    free_idx (bit_of PF_KERNEL s) m = free_idx (bit_of PF_KERNEL s) (mem s) - set fs \<and>
    free_idx (bit_of PF_USER s) m = free_idx (bit_of PF_USER s) (mem s) \<and>
    free_idx (vaddr_bitmap (kernel_vaddr s)) m = free_idx (vaddr_bitmap (kernel_vaddr s)) (mem s) \<and>
    pages_mapped k fs s (s\<lparr>mem := m, pmem := pm\<rparr>) \<and> (\<forall>a \<ge> K_HEAP_START. m a = mem s a)"
  using assms
proof (induction n arbitrary: k s)
  case 0
  then show ?case
    by (intro exI [of _ "[]"] exI [of _ "mem s"] exI [of _ "pmem s"]) (simp add: pages_mapped_def)
next
  case (Suc n)
  have ne: "free_idx (bit_of PF_KERNEL s) (mem s) \<noteq> {}" using Suc.prems(5) by auto
  have k: "k < heap_bits s" "translate s (heap_page s k) = None" using Suc.prems(3,4) by (simp, metis add_0_right zero_less_Suc)
  obtain i m1 pm1 where step: "i \<in> free_idx (bit_of PF_KERNEL s) (mem s)"
    "malloc_loop (Suc n) PF_KERNEL (heap_page s k) s =
       malloc_loop n PF_KERNEL (heap_page s (Suc k)) (s\<lparr>mem := m1, pmem := pm1\<rparr>)"
    "vm_core (s\<lparr>mem := m1, pmem := pm1\<rparr>)" "heap_geometry (s\<lparr>mem := m1, pmem := pm1\<rparr>)"
    "maps_page (heap_page s k) (pool_frame (kernel_pool s) i) s (s\<lparr>mem := m1, pmem := pm1\<rparr>)"
    "m1 = mem (taken PF_KERNEL i s)" "\<forall>v. pm1 (pde_slot (cr3 s) v) = pde_at s v"
    using malloc_loop_step [OF Suc.prems(1,2) k ne, of n] .
  let ?t = "s\<lparr>mem := m1, pmem := pm1\<rparr>"
  note free = free_idx_run [OF Suc.prems(1) step(1,6)]
  have rest: "\<forall>j < n. translate ?t (heap_page ?t (Suc k + j)) = None"
    by (rule rest_unmapped [OF Suc.prems(2-4) step(5)])
  from Suc.IH [of ?t "Suc k", OF step(3,4) _ rest] Suc.prems(3,5) free(4)
  obtain fs m pm where IH: "malloc_loop n PF_KERNEL (heap_page s (Suc k)) ?t = Inr (True, s\<lparr>mem := m, pmem := pm\<rparr>)"
    "vm_core (s\<lparr>mem := m, pmem := pm\<rparr>)" "heap_geometry (s\<lparr>mem := m, pmem := pm\<rparr>)"
    "length fs = n" "distinct fs" "set fs \<subseteq> free_idx (bit_of PF_KERNEL s) m1"
    "free_idx (bit_of PF_KERNEL s) m = free_idx (bit_of PF_KERNEL s) m1 - set fs"
    "free_idx (bit_of PF_USER s) m = free_idx (bit_of PF_USER s) m1"
    "free_idx (vaddr_bitmap (kernel_vaddr s)) m = free_idx (vaddr_bitmap (kernel_vaddr s)) m1"
    "pages_mapped (Suc k) fs ?t (s\<lparr>mem := m, pmem := pm\<rparr>)" "\<forall>a \<ge> K_HEAP_START. m a = m1 a"
    by auto
  have "pages_mapped k (i # fs) s (s\<lparr>mem := m, pmem := pm\<rparr>)"
    using Suc.prems(2,3) IH(4,10) step(5,7) by (intro pages_mapped_Cons [where t = ?t]) auto
  moreover have "\<forall>a \<ge> K_HEAP_START. m a = mem s a" using IH(11) taken_above [OF Suc.prems(1) step(1)] step(6) by simp
  ultimately show ?case using IH step(1,2) free
    by (intro exI [of _ "i # fs"] exI [of _ m] exI [of _ pm]) auto
qed

subsection \<open>The addresses\<close>

definition marked :: "nat \<Rightarrow> nat \<Rightarrow> 'a mems_scheme \<Rightarrow> 'a mems_scheme" where
  "marked k n s = s\<lparr>mem := fold (\<lambda>i. bm_upd (vaddr_bitmap (kernel_vaddr s)) i True) [k..<k + n] (mem s)\<rparr>"

lemma vaddr_get_kernel:
  assumes "vm_core s" "c \<noteq> 0"
  shows "vaddr_get PF_KERNEL c s =
    (case first_fit (\<lambda>i. \<not> bm_used (mem s) (vaddr_bitmap (kernel_vaddr s)) i) (heap_bits s) (unat c) of
       None \<Rightarrow> Inr (NULL, put_str (''vaddr_get failed'' @ [CHR 0x0a]) s)
     | Some k \<Rightarrow> Inr (heap_page s k, marked k (unat c) s))"
proof -
  let ?b = "vaddr_bitmap (kernel_vaddr s)"
  have wf: "bm_wf ?b" using vm_core_bitmap(1) [OF assms(1) bit_of_in(2)] .
  note scan = bitmap_scan_first_fit [OF wf assms(2), of s]
  show ?thesis
  proof (cases "first_fit (\<lambda>i. \<not> bm_used (mem s) ?b i) (heap_bits s) (unat c)")
    case None
    with scan show ?thesis by (simp add: vaddr_get_def heap_bits_def)
  next
    case (Some k)
    then have k: "k + unat c \<le> bm_bits ?b" using first_fit_Some by (auto simp: heap_bits_def)
    then have "(of_nat k :: u32) \<noteq> - 1"
      using wf of_nat_u32_eq_iff [of k "0xffffffff"] by (auto simp: bm_wf_def)
    with Some scan set_bits_run [OF wf k, of 0 s] show ?thesis
      by (simp add: vaddr_get_def marked_def heap_page_def heap_bits_def)
  qed
qed

lemma fold_upd_outside:
  assumes "bm_wf b" "k + n \<le> bm_bits b" "\<not> in_bytes b a"
  shows "fold (\<lambda>i. bm_upd b i True) [k..<k + n] m a = m a"
  using assms(2)
proof (induction n)
  case (Suc n)
  with assms(1,3) show ?case by (simp add: bm_upd_outside)
qed simp

lemma marked_simps [simp]:
  "pmem (marked k n s) = pmem s" "cr3 (marked k n s) = cr3 s" "kernel_pool (marked k n s) = kernel_pool s"
  "user_pool (marked k n s) = user_pool s" "kernel_vaddr (marked k n s) = kernel_vaddr s"
  "mem_pool pf (marked k n s) = mem_pool pf s" "bit_of pf (marked k n s) = bit_of pf s"
  "translate (marked k n s) v = translate s v" "heap_page (marked k n s) i = heap_page s i"
  "heap_bits (marked k n s) = heap_bits s" "heap_geometry (marked k n s) = heap_geometry s"
  by (simp_all add: marked_def heap_geometry_def)

lemma free_idx_marked:
  assumes "vm_core s" "k + n \<le> heap_bits s"
  shows "free_idx (bit_of pf s) (mem (marked k n s)) = free_idx (bit_of pf s) (mem s)"
    and "free_idx (vaddr_bitmap (kernel_vaddr s)) (mem (marked k n s)) =
      free_idx (vaddr_bitmap (kernel_vaddr s)) (mem s) - {k..<k + n}"
proof -
  let ?b = "vaddr_bitmap (kernel_vaddr s)"
  have wf: "bm_wf ?b" "bm_wf (bit_of pf s)" using vm_core_bitmap(1) [OF assms(1)] bit_of_in by blast+
  let ?n = "(if pf = PF_KERNEL then 0 else 1) :: nat"
  have i: "pool_bitmaps s ! ?n = bit_of pf s" "pool_bitmaps s ! 2 = ?b" "?n \<noteq> 2" "?n < length (pool_bitmaps s)"
    "2 < length (pool_bitmaps s)"
    by (cases pf; simp add: pool_bitmaps_def bit_of_def mem_pool_def)+
  have "bitmaps_apart (pool_bitmaps s)" using assms(1) by (simp add: vm_core_def)
  then have apart: "\<not> in_bytes ?b a" if "in_bytes (bit_of pf s) a" for a
    using i(3-5) that unfolding bitmaps_apart_def i(1) [symmetric] i(2) [symmetric] by blast
  have "mem (marked k n s) a = mem s a" if "in_bytes (bit_of pf s) a" for a
    using fold_upd_outside [OF wf(1) _ apart [OF that], of k n] assms(2) by (simp add: marked_def heap_bits_def)
  then have "bm_used (mem (marked k n s)) (bit_of pf s) i = bm_used (mem s) (bit_of pf s) i"
    if "i < bm_bits (bit_of pf s)" for i using that wf(2) by (intro bm_used_frame) auto
  then show "free_idx (bit_of pf s) (mem (marked k n s)) = free_idx (bit_of pf s) (mem s)"
    by (auto simp: free_idx_def)
  show "free_idx ?b (mem (marked k n s)) = free_idx ?b (mem s) - {k..<k + n}"
    using bt.grab_run [OF wf(1), of k n "mem s"] assms(2) by (auto simp: free_idx_def marked_def heap_bits_def)
qed

lemma all_free_marked:
  "vm_core s \<Longrightarrow> k + n \<le> heap_bits s \<Longrightarrow> all_free (marked k n s) = all_free s"
  using free_idx_marked(1) [of s k n] by (simp add: all_free_pools free_frames_def bit_of_def)

lemma vm_core_marked: "vm_core s \<Longrightarrow> k + n \<le> heap_bits s \<Longrightarrow> vm_core (marked k n s)"
  using all_free_marked [of s k n] by (simp add: vm_core_def pool_bitmaps_def)

lemma marked_above:
  assumes "vm_core s" "k + n \<le> heap_bits s" "K_HEAP_START \<le> a"
  shows "mem (marked k n s) a = mem s a"
  using fold_upd_outside [OF vm_core_bitmap(1) [OF assms(1) bit_of_in(2)] _ above_not_in_bytes [OF assms(1) bit_of_in(2) assms(3)], of k n] assms(2)
  by (simp add: marked_def heap_bits_def)

subsection \<open>Clearing the pages\<close>

definition not_table :: "'a paging_scheme \<Rightarrow> addr \<Rightarrow> bool" where
  "not_table s f \<longleftrightarrow> f \<noteq> frame_of (cr3 s) \<and> (\<forall>v. present (pde_at s v) \<longrightarrow> frame_of (pde_at s v) \<noteq> f)"

text \<open>\<open>s'\<close> is \<open>s\<close> with the objects in the pages \<open>P\<close> cleared; the page tables are as they were.\<close>

definition zero_in :: "addr set \<Rightarrow> 'b \<Rightarrow> (addr \<Rightarrow> 'b) \<Rightarrow> addr \<Rightarrow> 'b" where
  "zero_in P z f a = (if a AND 0xfffff000 \<in> P then z else f a)"

definition wipe :: "addr set \<Rightarrow> 'a paging_scheme \<Rightarrow> 'a paging_scheme" where
  "wipe P s = s\<lparr>mem := zero_in P 0 (mem s), elems := zero_in P zero_elem (elems s),
     tasks := zero_in P zero_task (tasks s), stk := zero_in P 0 (stk s)\<rparr>"

definition wiped :: "addr set \<Rightarrow> 'a paging_scheme \<Rightarrow> 'a paging_scheme \<Rightarrow> bool" where
  "wiped P s s' \<longleftrightarrow> s' = (wipe P s)\<lparr>pmem := pmem s'\<rparr> \<and>
     (\<forall>v. pde_at s' v = pde_at s v) \<and> (\<forall>v. translate s' v = translate s v) \<and> (\<forall>a. pmem s' a = pmem s a \<or> pmem s' a = 0) \<and>
     (\<forall>v \<in> P. \<forall>a. translate s v = Some (a AND 0xfffff000) \<longrightarrow> pmem s' a = 0)"

lemma clear_frame:
  assumes "not_table s f" and "pmem s' = (\<lambda>a. if a AND 0xfffff000 = f then 0 else pmem s a)" "cr3 s' = cr3 s"
  shows "pde_at s' v = pde_at s v" "translate s' v = translate s v"
proof -
  have keep: "pmem s' a = pmem s a" if "frame_of a \<noteq> f" for a
    using assms(2) that by (simp add: frame_of_def)
  show pde: "pde_at s' v = pde_at s v"
    using assms(1,3) not_sym by (intro trans [OF keep]) (auto simp: not_table_def frame_of_pde_slot)
  have "pmem s' (pte_slot (pde_at s v) v) = pmem s (pte_slot (pde_at s v) v)" if "present (pde_at s v)"
    using assms(1) that by (intro keep) (simp add: not_table_def frame_of_pte_slot)
  then show "translate s' v = translate s v"
    using pde assms(3) by (simp add: translate_def walk_def Let_def)
qed

lemma zero_in_empty [simp]: "zero_in {} z f = f"
  by (simp add: fun_eq_iff zero_in_def)

lemma zero_in_zero_in [simp]: "zero_in Q z (zero_in P z f) = zero_in (P \<union> Q) z f"
  by (simp add: fun_eq_iff zero_in_def)

lemma wiped_refl: "wiped {} s s"
  by (simp add: wiped_def wipe_def)

lemma wiped_trans:
  assumes "wiped P s t" "wiped Q t u"
  shows "wiped (P \<union> Q) s u"
proof -
  have "t = (wipe P s)\<lparr>pmem := pmem t\<rparr>" "u = (wipe Q t)\<lparr>pmem := pmem u\<rparr>"
    using assms by (simp_all add: wiped_def)
  moreover have "(wipe Q ((wipe P s)\<lparr>pmem := p\<rparr>))\<lparr>pmem := q\<rparr> = (wipe (P \<union> Q) s)\<lparr>pmem := q\<rparr>" for p q
    by (simp add: wipe_def)
  ultimately have "u = (wipe (P \<union> Q) s)\<lparr>pmem := pmem u\<rparr>" by metis
  moreover have "\<forall>a. pmem u a = pmem s a \<or> pmem u a = 0" "\<forall>v \<in> P \<union> Q. \<forall>a. translate s v = Some (a AND 0xfffff000) \<longrightarrow> pmem u a = 0"
    using assms unfolding wiped_def by (metis, metis Un_iff)
  ultimately show ?thesis using assms by (simp add: wiped_def)
qed

lemma zero_in_single: "(\<lambda>a. if a AND 0xfffff000 = v then z else f a) = zero_in {v} z f"
  by (simp add: fun_eq_iff zero_in_def)

lemma cleared_wipe: "cleared v s = wipe {v} s"
  by (simp only: cleared_def wipe_def zero_in_single)

lemma clear_page_wiped:
  assumes "translate s v = Some f" "not_table s f"
  obtains s' where "clear_page v s = Inr s'" "wiped {v} s s'"
proof
  let ?s' = "(cleared v s)\<lparr>pmem := (\<lambda>a. if a AND 0xfffff000 = f then 0 else pmem s a)\<rparr>"
  show "clear_page v s = Inr ?s'" using assms(1) by (rule clear_page_eq)
  have "pde_at ?s' u = pde_at s u" "translate ?s' u = translate s u" for u
    using clear_frame [OF assms(2), of ?s'] by simp_all
  then show "wiped {v} s ?s'" using assms(1) by (simp add: wiped_def cleared_wipe)
qed

lemma wiped_frame:
  assumes "wiped P s s'"
  shows "cr3 s' = cr3 s" "translate s' v = translate s v" "pmem s' (pde_slot (cr3 s) v) = pde_at s v"
    "mem s' = zero_in P 0 (mem s)" "tasks s' = zero_in P zero_task (tasks s)"
    "elems s' = zero_in P zero_elem (elems s)" "stk s' = zero_in P 0 (stk s)"
    "running_thread s' = running_thread s" "main_thread s' = main_thread s" "link_kernel_thread s' = link_kernel_thread s"
proof -
  obtain p where t: "s' = (wipe P s)\<lparr>pmem := p\<rparr>" using assms by (auto simp: wiped_def)
  then show "cr3 s' = cr3 s" "mem s' = zero_in P 0 (mem s)" "tasks s' = zero_in P zero_task (tasks s)"
    "elems s' = zero_in P zero_elem (elems s)" "stk s' = zero_in P 0 (stk s)"
    "running_thread s' = running_thread s" "main_thread s' = main_thread s" "link_kernel_thread s' = link_kernel_thread s"
    by (simp_all add: wipe_def running_thread_def)
  then show "translate s' v = translate s v" "pmem s' (pde_slot (cr3 s) v) = pde_at s v"
    using assms unfolding wiped_def by metis+
qed

lemma wiped_mems:
  assumes "wiped P s s'"
  shows "kernel_pool s' = kernel_pool s" "user_pool s' = user_pool s" "kernel_vaddr s' = kernel_vaddr s"
    "heap_page s' k = heap_page s k" "heap_bits s' = heap_bits s" "bit_of pf s' = bit_of pf s" "mem_pool pf s' = mem_pool pf s"
proof -
  obtain p where "s' = (wipe P s)\<lparr>pmem := p\<rparr>" using assms by (auto simp: wiped_def)
  then show "kernel_pool s' = kernel_pool s" "user_pool s' = user_pool s" "kernel_vaddr s' = kernel_vaddr s"
    "heap_page s' k = heap_page s k" "heap_bits s' = heap_bits s" "bit_of pf s' = bit_of pf s" "mem_pool pf s' = mem_pool pf s"
    by (simp_all add: wipe_def heap_page_def heap_bits_def bit_of_def mem_pool_def split: pool_flags.split)
qed

lemma clear_pages_heap:
  "\<forall>j < n. \<exists>f. translate s (heap_page s (k + j)) = Some f \<and> not_table s f \<Longrightarrow>
     \<exists>s'. clear_pages n (heap_page s k) s = Inr s' \<and> wiped (heap_page s ` {k..<k + n}) s s'"
proof (induction n arbitrary: k s)
  case 0
  then show ?case by (simp add: wiped_refl)
next
  case (Suc n)
  then obtain f where f: "translate s (heap_page s k) = Some f" "not_table s f" by (metis add_0_right zero_less_Suc)
  obtain t where t: "clear_page (heap_page s k) s = Inr t" "wiped {heap_page s k} s t"
    using clear_page_wiped [OF f] .
  note w = wiped_frame [OF t(2)] wiped_mems [OF t(2)]
  have nt: "not_table t g = not_table s g" for g by (simp add: not_table_def w(1,3))
  have "\<forall>j < n. \<exists>g. translate t (heap_page t (Suc k + j)) = Some g \<and> not_table t g"
    using Suc.prems nt w by (metis Suc_less_eq add_Suc_shift)
  from Suc.IH [OF this] obtain u where u: "clear_pages n (heap_page t (Suc k)) t = Inr u"
      "wiped (heap_page t ` {Suc k..<Suc k + n}) t u" by auto
  have hp: "heap_page t = heap_page s" using w by (simp add: fun_eq_iff)
  have "heap_page s k + 4096 = heap_page t (Suc k)"
    using w by (simp add: heap_page_def PG_SIZE_def algebra_simps)
  moreover have "insert (heap_page s k) (heap_page s ` {Suc k..<Suc k + n}) = heap_page s ` {k..<k + Suc n}"
    by (subst image_insert [symmetric]) (rule arg_cong [of _ _ "image _"], auto)
  ultimately show ?case
    using t(1) u(1) wiped_trans [OF t(2) u(2)] by (auto simp: hp)
qed

lemma wiped_free_idx:
  assumes "vm_core s" "wiped P s s'" "\<forall>p \<in> P. K_HEAP_START \<le> p" "b \<in> set (pool_bitmaps s)"
  shows "free_idx b (mem s') = free_idx b (mem s)"
proof -
  note b = vm_core_bitmap [OF assms(1,4)]
  have "mem s' a = mem s a" if "in_bytes b a" for a
  proof -
    have "a AND 0xfffff000 < K_HEAP_START"
      using b(2) [OF that] unat_in_page_mono [of a] by (simp add: word_less_nat_alt)
    with assms(3) have "a AND 0xfffff000 \<notin> P" by (auto simp: not_le [symmetric])
    then show ?thesis by (simp add: wiped_frame [OF assms(2)] zero_in_def)
  qed
  then have "bm_used (mem s') b i = bm_used (mem s) b i" if "i < bm_bits b" for i
    using that b(1) by (intro bm_used_frame) auto
  then show ?thesis by (auto simp: free_idx_def)
qed

lemma wiped_vm_core:
  assumes "vm_core s" "wiped P s s'" "\<forall>p \<in> P. K_HEAP_START \<le> p"
  shows "vm_core s'"
proof -
  note w = wiped_frame [OF assms(2)] wiped_mems [OF assms(2)]
  have "all_free s' = all_free s"
    using wiped_free_idx [OF assms] bit_of_in(1) [of _ s] w
    by (simp add: all_free_pools free_frames_def bit_of_def)
  moreover have "mapped (pmem s') (cr3 s) = mapped (pmem s) (cr3 s)"
    using w(1,2) by (simp add: mapped_def translate_def)
  moreover have "tables_ok (pmem s') (cr3 s) = tables_ok (pmem s) (cr3 s)"
    by (simp add: tables_ok_def self_mapped_top w(3))
  ultimately show ?thesis using assms(1) w by (simp add: vm_core_def pool_bitmaps_def)
qed

lemma wiped_geometry: "wiped P s s' \<Longrightarrow> heap_geometry s' = heap_geometry s"
  using wiped_frame [of P s s'] wiped_mems [of P s s'] by (simp add: heap_geometry_def)

lemma free_not_table:
  assumes "vm_core s" "f \<in> all_free s"
  shows "not_table s f"
proof -
  have self: "pm_ok s" and "f \<notin> mapped (pmem s) (cr3 s)"
    using assms by (auto simp: vm_core_def tables_ok_def)
  with dir_mapped [OF self] table_mapped [OF self] show ?thesis by (auto simp: not_table_def)
qed

text \<open>A free run of addresses and enough free frames: \<open>malloc_page\<close> maps the pages.\<close>

lemma malloc_page_kernel:
  assumes "vm_inv s" "0 < c" "c < 3840" "unat c \<le> card (free_idx (bit_of PF_KERNEL s) (mem s))"
    "first_fit (\<lambda>i. \<not> bm_used (mem s) (vaddr_bitmap (kernel_vaddr s)) i) (heap_bits s) (unat c) = Some k"
  obtains fs m pm where "malloc_page PF_KERNEL c s = Inr (heap_page s k, s\<lparr>mem := m, pmem := pm\<rparr>)"
    "vm_core (s\<lparr>mem := m, pmem := pm\<rparr>)" "heap_geometry (s\<lparr>mem := m, pmem := pm\<rparr>)"
    "length fs = unat c" "distinct fs" "set fs \<subseteq> free_idx (bit_of PF_KERNEL s) (mem s)"
    "free_idx (bit_of PF_KERNEL s) m = free_idx (bit_of PF_KERNEL s) (mem s) - set fs"
    "free_idx (bit_of PF_USER s) m = free_idx (bit_of PF_USER s) (mem s)"
    "free_idx (vaddr_bitmap (kernel_vaddr s)) m = free_idx (vaddr_bitmap (kernel_vaddr s)) (mem s) - {k..<k + unat c}"
    "pages_mapped k fs s (s\<lparr>mem := m, pmem := pm\<rparr>)" "k + unat c \<le> heap_bits s" "\<forall>a \<ge> K_HEAP_START. m a = mem s a"
proof -
  let ?n = "unat c" and ?t = "marked k (unat c) s"
  have core: "vm_core s" and heap: "heap_ok s" using assms(1) by (simp_all add: vm_inv_def)
  then have geo: "heap_geometry s" by (simp add: heap_ok_geometry)
  have k: "k + ?n \<le> heap_bits s" "fits (\<lambda>i. \<not> bm_used (mem s) (vaddr_bitmap (kernel_vaddr s)) i) ?n k"
    using first_fit_Some [OF assms(5)] by simp_all
  have "\<forall>j < ?n. k + j \<in> free_idx (vaddr_bitmap (kernel_vaddr s)) (mem s)"
    using k by (simp add: fits_def free_idx_def heap_bits_def)
  then have "\<forall>j < ?n. translate ?t (heap_page ?t (k + j)) = None"
    using heap by (simp add: heap_ok_geometry)
  from malloc_loop_maps [of ?t k ?n, OF _ _ _ this] vm_core_marked [OF core k(1)] geo k(1) assms(4)
    free_idx_marked [OF core k(1)]
  obtain fs m pm where r: "malloc_loop ?n PF_KERNEL (heap_page s k) ?t = Inr (True, ?t\<lparr>mem := m, pmem := pm\<rparr>)"
    "vm_core (?t\<lparr>mem := m, pmem := pm\<rparr>)" "heap_geometry (?t\<lparr>mem := m, pmem := pm\<rparr>)"
    "length fs = ?n" "distinct fs" "set fs \<subseteq> free_idx (bit_of PF_KERNEL s) (mem s)"
    "free_idx (bit_of PF_KERNEL s) m = free_idx (bit_of PF_KERNEL s) (mem s) - set fs"
    "free_idx (bit_of PF_USER s) m = free_idx (bit_of PF_USER s) (mem s)"
    "free_idx (vaddr_bitmap (kernel_vaddr s)) m = free_idx (vaddr_bitmap (kernel_vaddr s)) (mem s) - {k..<k + ?n}"
    "pages_mapped k fs ?t (?t\<lparr>mem := m, pmem := pm\<rparr>)" "\<forall>a \<ge> K_HEAP_START. m a = mem s a"
    using marked_above [OF core k(1)] by auto
  have "?t\<lparr>mem := m, pmem := pm\<rparr> = s\<lparr>mem := m, pmem := pm\<rparr>" by (simp add: marked_def)
  moreover have "c \<noteq> 0" using assms(2) by auto
  ultimately show thesis
    using r assms(2,3,5) k(1) vaddr_get_kernel [OF core]
    by (intro that [where m = m and pm = pm and fs = fs]) (simp_all add: malloc_page_def pages_mapped_def)
qed

lemma get_kernel_pages_maps:
  assumes "vm_inv s" "0 < c" "c < 3840" "unat c \<le> card (free_idx (bit_of PF_KERNEL s) (mem s))"
    "first_fit (\<lambda>i. \<not> bm_used (mem s) (vaddr_bitmap (kernel_vaddr s)) i) (heap_bits s) (unat c) = Some k"
  obtains fs t s' where "get_kernel_pages c s = Inr (heap_page s k, s')" "vm_inv s'"
    "length fs = unat c" "distinct fs" "set fs \<subseteq> free_idx (bit_of PF_KERNEL s) (mem s)"
    "free_idx (bit_of PF_KERNEL s) (mem s') = free_idx (bit_of PF_KERNEL s) (mem s) - set fs"
    "free_idx (bit_of PF_USER s) (mem s') = free_idx (bit_of PF_USER s) (mem s)"
    "free_idx (vaddr_bitmap (kernel_vaddr s)) (mem s') = free_idx (vaddr_bitmap (kernel_vaddr s)) (mem s) - {k..<k + unat c}"
    "pages_mapped k fs s s'" "k + unat c \<le> heap_bits s"
    "t = s\<lparr>mem := mem t, pmem := pmem t\<rparr>" "wiped (heap_page s ` {k..<k + unat c}) t s'"
    "\<forall>a \<ge> K_HEAP_START. mem t a = mem s a"
proof -
  let ?n = "unat c" and ?P = "heap_page s ` {k..<k + unat c}" and ?vb = "vaddr_bitmap (kernel_vaddr s)"
  have core: "vm_core s" and heap: "heap_ok s" using assms(1) by (simp_all add: vm_inv_def)
  then have geo: "heap_geometry s" by (simp add: heap_ok_geometry)
  obtain fs m pm where r: "malloc_page PF_KERNEL c s = Inr (heap_page s k, s\<lparr>mem := m, pmem := pm\<rparr>)"
    "vm_core (s\<lparr>mem := m, pmem := pm\<rparr>)" "heap_geometry (s\<lparr>mem := m, pmem := pm\<rparr>)"
    "length fs = unat c" "distinct fs" "set fs \<subseteq> free_idx (bit_of PF_KERNEL s) (mem s)"
    "free_idx (bit_of PF_KERNEL s) m = free_idx (bit_of PF_KERNEL s) (mem s) - set fs"
    "free_idx (bit_of PF_USER s) m = free_idx (bit_of PF_USER s) (mem s)"
    "free_idx ?vb m = free_idx ?vb (mem s) - {k..<k + ?n}"
    "pages_mapped k fs s (s\<lparr>mem := m, pmem := pm\<rparr>)" "k + unat c \<le> heap_bits s" "\<forall>a \<ge> K_HEAP_START. m a = mem s a"
    using malloc_page_kernel [OF assms] .
  let ?t = "s\<lparr>mem := m, pmem := pm\<rparr>"
  have "\<forall>j < ?n. \<exists>f. translate ?t (heap_page ?t (k + j)) = Some f \<and> not_table ?t f"
  proof (intro allI impI exI conjI)
    fix j assume j: "j < ?n"
    let ?f = "pool_frame (kernel_pool s) (fs ! j)"
    note page = heap_page_facts [OF geo, of "k + j"]
    have "heap_page s (k + j) AND 0xfff = 0" using page(4) j r(11) by (simp add: page_aligned_def)
    then show "translate ?t (heap_page ?t (k + j)) = Some ?f"
      using r(4,10) j r(11) page(5) by (simp add: pages_mapped_def)
    have "fs ! j \<in> free_idx (bit_of PF_KERNEL s) (mem s)" using r(4,6) j by (metis nth_mem subsetD)
    then have "?f \<in> all_free s" by (auto simp: all_free_def free_frames_def bit_of_def mem_pool_def)
    then show "not_table ?t ?f"
      using free_not_table [OF core] r(10) by (simp add: not_table_def pages_mapped_def)
  qed
  from clear_pages_heap [OF this] obtain s' where s': "clear_pages ?n (heap_page s k) ?t = Inr s'" "wiped ?P ?t s'"
    by auto
  have P: "\<forall>p \<in> ?P. K_HEAP_START \<le> p"
    using heap_page_facts(3) [OF geo] r(11) by (auto simp: word_le_nat_alt K_HEAP_START_def)
  have free: "free_idx b (mem s') = free_idx b m" if "b \<in> set (pool_bitmaps s)" for b
    using wiped_free_idx [OF r(2) s'(2) P] that by (simp add: pool_bitmaps_def)
  note w = wiped_frame [OF s'(2)] wiped_mems [OF s'(2)]
  have unmapped: "translate s' (heap_page s' i) = None" if "i \<in> free_idx (vaddr_bitmap (kernel_vaddr s')) (mem s')" for i
  proof -
    have i: "i \<in> free_idx ?vb (mem s)" "i < heap_bits s" "i \<notin> {k..<k + ?n}"
      using that free [OF bit_of_in(2)] r(9) w by (auto simp: free_idx_def heap_bits_def)
    then have "\<not> mirrored (heap_page s (k + j)) (heap_page s i)" if "j < ?n" for j
      using heap_not_mirrored [OF geo, of "k + j" i] that r(11) by auto
    then have "translate ?t (heap_page s i) = translate s (heap_page s i)"
      using r(4,10) heap_page_facts(1) [OF geo i(2)] by (simp add: pages_mapped_def)
    with i(1) heap show ?thesis using w by (simp add: heap_ok_geometry)
  qed
  have "vm_inv s'"
    using wiped_vm_core [OF r(2) s'(2) P] wiped_geometry [OF s'(2)] r(3) unmapped by (simp add: vm_inv_def heap_ok_geometry)
  moreover have "get_kernel_pages c s = Inr (heap_page s k, s')"
    using r(1,11) s'(1) heap_page_facts(2) [OF geo, of k] assms(2) by (simp add: get_kernel_pages_def memset_pages_def word_less_nat_alt)
  moreover have "pages_mapped k fs s s'"
    using r(10) w(1-3) by (simp add: pages_mapped_def)
  ultimately show thesis
    using that [where s' = s' and fs = fs and t = ?t] r(4-9,11,12) s'(2) free bit_of_in(1) [of _ s] bit_of_in(2) [of s] by simp
qed

end
