(* ===== verification/Memory_Init.thy ===== *)
theory Memory_Init
  imports Kernel_Pages
begin

text \<open>
  \<open>mem_pool_init\<close> and \<open>mem_init\<close> of kernel/memory.c: where the pools and their bitmaps lie for any
  memory size, that the invariant of the memory holds afterwards on the page tables of the loader, and
  the properties of the memory management.
\<close>

section \<open>The layout of the pools\<close>

lemma unat_u16: "unat (x :: u16) < 65536"
  using unsigned_less [of x, where ?'a = nat] by simp

lemma unat_ucast_u16: "unat (ucast (x :: u16) :: u32) = unat x"
  using unat_u16 [of x] by (simp add: unsigned_ucast_eq take_bit_nat_eq_self)

lemma unat_bm_lengths:
  "unat (kbm_length M) = unat (kernel_free_pages M) div 8" "unat (ubm_length M) = unat (user_free_pages M) div 8"
  by (simp_all add: kbm_length_def ubm_length_def unat_div unat_ucast_u16)

lemma bm_lengths_less: "unat (kbm_length M) < 8192" "unat (ubm_length M) < 8192"
  using unat_u16 [of "kernel_free_pages M"] unat_u16 [of "user_free_pages M"] by (simp_all add: unat_bm_lengths)

lemma in_bytes_range:
  assumes "unat (bits b) + unat (btmp_bytes_len b) \<le> 4294967296"
  shows "in_bytes b a \<longleftrightarrow> unat (bits b) \<le> unat a \<and> unat a < unat (bits b) + unat (btmp_bytes_len b)"
proof (cases "unat (bits b) \<le> unat a")
  case True
  then show ?thesis by (auto simp: in_bytes_def unat_diff_u32)
next
  case False
  then have "unat (a - bits b) = 4294967296 + unat a - unat (bits b)"
    using unat_less_2p32 [of a] unat_less_2p32 [of "bits b"] by (simp add: unat_sub_if_size word_size)
  with False assms show ?thesis by (simp add: in_bytes_def)
qed

lemma init_bitmap_starts:
  "unat MEM_BITMAP_BASE = 3221856256"
  "unat (MEM_BITMAP_BASE + kbm_length M) = 3221856256 + unat (kbm_length M)"
  "unat (MEM_BITMAP_BASE + kbm_length M + ubm_length M) = 3221856256 + unat (kbm_length M) + unat (ubm_length M)"
  using bm_lengths_less [of M] by (simp_all add: MEM_BITMAP_BASE_def unat_add_u32)

definition init_bitmaps :: "u32 \<Rightarrow> bitmap list" where
  "init_bitmaps M = [pool_bitmap (init_kernel_pool M), pool_bitmap (init_user_pool M), vaddr_bitmap (init_kernel_vaddr M)]"

lemma init_bitmaps_nth: "i < 3 \<Longrightarrow> init_bitmaps M ! i \<in> set (init_bitmaps M)"
  by (rule nth_mem) (simp add: init_bitmaps_def)

lemma init_bitmap_bytes:
  "in_bytes (pool_bitmap (init_kernel_pool M)) a \<longleftrightarrow> 3221856256 \<le> unat a \<and> unat a < 3221856256 + unat (kbm_length M)"
  "in_bytes (pool_bitmap (init_user_pool M)) a \<longleftrightarrow>
     3221856256 + unat (kbm_length M) \<le> unat a \<and> unat a < 3221856256 + unat (kbm_length M) + unat (ubm_length M)"
  "in_bytes (vaddr_bitmap (init_kernel_vaddr M)) a \<longleftrightarrow>
     3221856256 + unat (kbm_length M) + unat (ubm_length M) \<le> unat a \<and>
     unat a < 3221856256 + 2 * unat (kbm_length M) + unat (ubm_length M)"
  using bm_lengths_less [of M]
  by (subst in_bytes_range; auto simp: init_kernel_pool_def init_user_pool_def init_kernel_vaddr_def init_bitmap_starts)+

lemma init_bitmaps_apart: "bitmaps_apart (init_bitmaps M)"
proof -
  have "bm_wf b" if "b \<in> set (init_bitmaps M)" for b
    using that bm_lengths_less [of M]
    by (auto simp: init_bitmaps_def init_kernel_pool_def init_user_pool_def init_kernel_vaddr_def bm_wf_def bm_bits_def)
  moreover have "a < K_HEAP_START" if "b \<in> set (init_bitmaps M)" "in_bytes b a" for a b
    using that bm_lengths_less [of M]
    by (auto simp: init_bitmaps_def init_bitmap_bytes word_less_nat_alt K_HEAP_START_def)
  moreover have "\<not> (in_bytes (init_bitmaps M ! i) a \<and> in_bytes (init_bitmaps M ! j) a)" if "i < 3" "j < 3" "i \<noteq> j" for i j a
  proof -
    have "i \<in> {0, 1, 2}" "j \<in> {0, 1, 2}" using that by auto
    with that(3) show ?thesis by (auto simp: init_bitmaps_def init_bitmap_bytes)
  qed
  moreover have "length (init_bitmaps M) = 3" by (simp add: init_bitmaps_def)
  ultimately show ?thesis unfolding bitmaps_apart_def by (metis nth_mem)
qed

lemma unat_used_mem: "unat used_mem = 2097152"
  by (simp add: used_mem_def PG_SIZE_def)

lemma unat_up_start: "unat (phy_addr_start (init_user_pool M)) = 2097152 + 4096 * unat (kernel_free_pages M)"
proof -
  have "unat (ucast (kernel_free_pages M) * PG_SIZE) = 4096 * unat (kernel_free_pages M)"
    using unat_u16 [of "kernel_free_pages M"] by (simp add: unat_word_ariths unat_ucast_u16 PG_SIZE_def)
  then show ?thesis
    using unat_u16 [of "kernel_free_pages M"] by (simp add: init_user_pool_def unat_add_u32 unat_used_mem)
qed

lemma init_pool_bits:
  "bm_bits (pool_bitmap (init_kernel_pool M)) \<le> unat (kernel_free_pages M)"
  "bm_bits (pool_bitmap (init_user_pool M)) \<le> unat (user_free_pages M)"
  by (simp_all add: bm_bits_def init_kernel_pool_def init_user_pool_def unat_bm_lengths)

lemma init_pools_ok: "pool_ok (init_kernel_pool M)" "pool_ok (init_user_pool M)"
proof -
  have wf: "bm_wf (pool_bitmap (init_kernel_pool M))" "bm_wf (pool_bitmap (init_user_pool M))"
    using bm_lengths_less [of M] by (simp_all add: init_kernel_pool_def init_user_pool_def bm_wf_def bm_bits_def)
  have k: "unat (phy_addr_start (init_kernel_pool M)) = 2097152" by (simp add: init_kernel_pool_def unat_used_mem)
  then have nz: "phy_addr_start (init_kernel_pool M) \<noteq> 0" "phy_addr_start (init_user_pool M) \<noteq> 0"
    using unat_up_start [of M] by auto
  show "pool_ok (init_kernel_pool M)" "pool_ok (init_user_pool M)"
    using wf nz init_pool_bits [of M] unat_u16 [of "kernel_free_pages M"] unat_u16 [of "user_free_pages M"]
    by (simp_all add: pool_ok_def page_aligned_dvd k unat_up_start)
qed

lemma init_pools_apart:
  assumes "i < bm_bits (pool_bitmap (init_kernel_pool M))" "j < bm_bits (pool_bitmap (init_user_pool M))"
  shows "pool_frame (init_kernel_pool M) i \<noteq> pool_frame (init_user_pool M) j"
proof
  assume "pool_frame (init_kernel_pool M) i = pool_frame (init_user_pool M) j"
  then have "2097152 + 4096 * i = 2097152 + 4096 * unat (kernel_free_pages M) + 4096 * j"
    using unat_frame [OF init_pools_ok(1) assms(1)] unat_frame [OF init_pools_ok(2) assms(2)]
    by (simp add: unat_up_start) (simp add: init_kernel_pool_def unat_used_mem)
  with assms(1) init_pool_bits(1) [of M] show False by simp
qed

section \<open>The state after initialisation\<close>

text \<open>
  What the loader leaves in the page tables: the tables of the kernel part exist, all mapped frames
  lie below 2 MB (the first megabyte, the directory and the tables), and nothing is mapped between
  0xc0100000 and the window.
\<close>

definition boot_tables :: "'a paging_scheme \<Rightarrow> bool" where
  "boot_tables s \<longleftrightarrow> tables_ok (pmem s) (cr3 s) \<and> (\<forall>v \<ge> 0xc0000000. present (pde_at s v)) \<and>
     (\<forall>f \<in> mapped (pmem s) (cr3 s). unat f < 0x200000) \<and>
     (\<forall>v. 0xc0100000 \<le> v \<and> v < 0xffc00000 \<longrightarrow> translate s v = None)"

lemma bitmap_init_apart:
  assumes "bitmaps_apart bs" "i < length bs" "bits (bs ! i) \<noteq> NULL"
  shows "\<exists>m. bitmap_init (Some (bs ! i)) s = Inr (s\<lparr>mem := m\<rparr>) \<and> free_idx (bs ! i) m = {..<bm_bits (bs ! i)} \<and>
    (\<forall>j < length bs. j \<noteq> i \<longrightarrow> free_idx (bs ! j) m = free_idx (bs ! j) (mem s))"
proof -
  have wf: "bm_wf (bs ! i)" using assms(1,2) by (simp add: bitmaps_apart_def)
  obtain m where m: "bitmap_init (Some (bs ! i)) s = Inr (s\<lparr>mem := m\<rparr>)"
    "\<forall>k < bm_bits (bs ! i). \<not> bm_used m (bs ! i) k" "\<forall>a. \<not> in_bytes (bs ! i) a \<longrightarrow> m a = mem s a"
    using bitmap_init_clears [OF assms(3) wf, of s] by blast
  have "free_idx (bs ! j) m = free_idx (bs ! j) (mem s)" if j: "j < length bs" "j \<noteq> i" for j
  proof -
    have "bm_wf (bs ! j)" "\<And>a. in_bytes (bs ! j) a \<Longrightarrow> m a = mem s a"
      using assms(1,2) j m(3) unfolding bitmaps_apart_def by blast+
    then have "bm_used m (bs ! j) k = bm_used (mem s) (bs ! j) k" if "k < bm_bits (bs ! j)" for k
      using that by (intro bm_used_frame) auto
    then show ?thesis by (auto simp: free_idx_def)
  qed
  with m show ?thesis by (intro exI [of _ m]) (auto simp: free_idx_def)
qed

text \<open>
  The three bitmaps lie one behind the other from 0xc009a000 on. They fit if they leave alone the page of the
  running thread, which at this time is the one at 0xc009e000.
\<close>

definition bitmaps_fit :: "u32 \<Rightarrow> addr \<Rightarrow> bool" where
  "bitmaps_fit M p \<longleftrightarrow> (\<forall>b \<in> set (init_bitmaps M). \<not> overlaps_page b p)"

lemma bitmaps_fit_outside:
  assumes "unat p + 4096 \<le> 3221856256 \<or> 3221856256 + 2 * unat (kbm_length M) + unat (ubm_length M) \<le> unat p"
  shows "bitmaps_fit M p"
  using assms by (auto simp: bitmaps_fit_def init_bitmaps_def overlaps_page_def init_kernel_pool_def init_user_pool_def
      init_kernel_vaddr_def init_bitmap_starts)

lemma bitmaps_fit_main: "bitmaps_fit M 0xc009e000 \<longleftrightarrow> 2 * unat (kbm_length M) + unat (ubm_length M) \<le> 0x4000"
proof
  show "bitmaps_fit M 0xc009e000 \<Longrightarrow> 2 * unat (kbm_length M) + unat (ubm_length M) \<le> 0x4000"
    using bm_lengths_less [of M]
    by (auto simp: bitmaps_fit_def init_bitmaps_def overlaps_page_def init_kernel_pool_def init_user_pool_def
        init_kernel_vaddr_def init_bitmap_starts unat_gt_0 [symmetric])
qed (rule bitmaps_fit_outside, simp)

text \<open>So they fit up to 343 MB of memory.\<close>

lemma bitmaps_fit_343:
  assumes "used_mem \<le> M" "M \<le> 0x15700000"
  shows "bitmaps_fit M 0xc009e000"
proof -
  let ?A = "unat ((M - used_mem) div PG_SIZE)"
  have "unat (M - used_mem) \<le> 357564416"
    using assms by (simp add: unat_diff_u32 word_le_nat_alt unat_used_mem)
  then have A: "?A \<le> 87296" by (simp add: unat_div PG_SIZE_def)
  then have k: "unat (kernel_free_pages M) = ?A div 2"
    by (simp add: kernel_free_pages_def unsigned_ucast_eq unat_div take_bit_eq_mod)
  then have "unat (user_free_pages M) = ?A - ?A div 2"
    using A by (simp add: user_free_pages_def unsigned_ucast_eq take_bit_eq_mod unat_diff_u32 unat_ucast_u16)
  then show ?thesis using A k by (simp add: bitmaps_fit_main unat_bm_lengths)
qed

lemma clear_bitmap_fits:
  assumes "bitmaps_fit M (running_thread s)" "i < 3"
  shows "clear_bitmap (init_bitmaps M ! i) s = bitmap_init (Some (init_bitmaps M ! i)) s"
  using init_bitmaps_nth [OF assms(2)] assms(1) by (auto simp: clear_bitmap_def bitmaps_fit_def)

lemma print_pools_screen: "\<exists>v. print_pools s = s\<lparr>screen := v\<rparr>"
  by (simp add: print_pools_def put_str_def put_int_def put_char_def Let_def) blast

definition pool_locks_init :: "'a syncs_scheme \<Rightarrow> 'a syncs_scheme" where
  "pool_locks_init s = lock_init user_pool_lock (lock_init kernel_pool_lock s)"

lemma lock_init_run:
  "lock_init l s = s\<lparr>elems := elems (lock_init l s), sem_value := (sem_value s)(lock_sema l := 1),
     lock_holder := (lock_holder s)(l := NULL), lock_repeat := (lock_repeat s)(l := 0)\<rparr>"
  by (simp add: lock_init_def sema_init_def list_init_def set_next_def set_prev_def Let_def)

lemma elems_lock_init: "elems s = elems t \<Longrightarrow> elems (lock_init l s) = elems (lock_init l t)"
  by (simp add: lock_init_def sema_init_def list_init_def set_next_def set_prev_def Let_def)

lemma pool_locks_init_eq:
  "pool_locks_init s = s\<lparr>elems := elems (pool_locks_init s),
     sem_value := (sem_value s)(lock_sema kernel_pool_lock := 1, lock_sema user_pool_lock := 1),
     lock_holder := (lock_holder s)(kernel_pool_lock := NULL, user_pool_lock := NULL),
     lock_repeat := (lock_repeat s)(kernel_pool_lock := 0, user_pool_lock := 0)\<rparr>"
proof -
  define t where "t = lock_init kernel_pool_lock s"
  have t: "t = s\<lparr>elems := elems t, sem_value := (sem_value s)(lock_sema kernel_pool_lock := 1),
     lock_holder := (lock_holder s)(kernel_pool_lock := NULL), lock_repeat := (lock_repeat s)(kernel_pool_lock := 0)\<rparr>"
    unfolding t_def by (rule lock_init_run)
  have "sem_value t = (sem_value s)(lock_sema kernel_pool_lock := 1)" "lock_holder t = (lock_holder s)(kernel_pool_lock := NULL)"
    "lock_repeat t = (lock_repeat s)(kernel_pool_lock := 0)" by (subst t, simp)+
  then have "pool_locks_init s = t\<lparr>elems := elems (pool_locks_init s),
     sem_value := (sem_value s)(lock_sema kernel_pool_lock := 1, lock_sema user_pool_lock := 1),
     lock_holder := (lock_holder s)(kernel_pool_lock := NULL, user_pool_lock := NULL),
     lock_repeat := (lock_repeat s)(kernel_pool_lock := 0, user_pool_lock := 0)\<rparr>"
    using lock_init_run [of user_pool_lock t] by (simp add: pool_locks_init_def t_def)
  then show ?thesis by (subst (asm) t) simp
qed

definition lock_free :: "addr \<Rightarrow> 'a syncs_scheme \<Rightarrow> bool" where
  "lock_free l s \<longleftrightarrow> sem_value s (lock_sema l) = 1 \<and> lock_holder s l = NULL \<and> lock_repeat s l = 0 \<and>
     running_thread s \<noteq> NULL \<and> is_list (elems s) (waiters (lock_sema l)) []"

lemma pool_lists_init:
  "is_list (elems (pool_locks_init s)) (waiters (lock_sema kernel_pool_lock)) []"
  "is_list (elems (pool_locks_init s)) (waiters (lock_sema user_pool_lock)) []"
  by (simp_all add: pool_locks_init_def lock_init_def sema_init_def list_init_def set_next_def set_prev_def Let_def
      is_list_def list_nodes_def list_head_def list_tail_def waiters_def lock_sema_def kernel_pool_lock_def user_pool_lock_def)

lemma pool_locks_free:
  assumes "running_thread s \<noteq> NULL" "running_thread s' = running_thread s" "elems s' = elems (pool_locks_init s)"
    "sem_value s' = sem_value (pool_locks_init s)" "lock_holder s' = lock_holder (pool_locks_init s)"
    "lock_repeat s' = lock_repeat (pool_locks_init s)"
  shows "lock_free kernel_pool_lock s'" "lock_free user_pool_lock s'"
proof -
  have "sem_value (pool_locks_init s) = (sem_value s)(lock_sema kernel_pool_lock := 1, lock_sema user_pool_lock := 1)"
    "lock_holder (pool_locks_init s) = (lock_holder s)(kernel_pool_lock := NULL, user_pool_lock := NULL)"
    "lock_repeat (pool_locks_init s) = (lock_repeat s)(kernel_pool_lock := 0, user_pool_lock := 0)"
    by (subst pool_locks_init_eq, simp)+
  then show "lock_free kernel_pool_lock s'" "lock_free user_pool_lock s'"
    using assms pool_lists_init [of s] by (simp_all add: lock_free_def)
qed

lemma mem_pool_init_run:
  assumes "bitmaps_fit M (running_thread s)"
  obtains v m where "mem_pool_init M s = Inr ((pool_locks_init s)\<lparr>screen := v, mem := m, kernel_pool := init_kernel_pool M, user_pool := init_user_pool M,
      kernel_vaddr := init_kernel_vaddr M\<rparr>)"
    "\<forall>i < 3. free_idx (init_bitmaps M ! i) m = {..<bm_bits (init_bitmaps M ! i)}"
proof -
  let ?bs = "init_bitmaps M"
  note apart = init_bitmaps_apart [of M]
  have len: "length ?bs = 3" by (simp add: init_bitmaps_def)
  have nth: "?bs ! 0 = pool_bitmap (init_kernel_pool M)" "?bs ! Suc 0 = pool_bitmap (init_user_pool M)"
    "?bs ! 2 = vaddr_bitmap (init_kernel_vaddr M)" by (simp_all add: init_bitmaps_def)
  have "unat (bits (?bs ! i)) \<noteq> 0" if "i < 3" for i
  proof -
    have "i \<in> {0, 1, 2}" using that by auto
    then show ?thesis by (auto simp: nth init_kernel_pool_def init_user_pool_def init_kernel_vaddr_def init_bitmap_starts)
  qed
  then have nn: "bits (?bs ! i) \<noteq> NULL" if "i < 3" for i using that by force
  have init: "\<exists>m. clear_bitmap (?bs ! i) t = Inr (t\<lparr>mem := m\<rparr>) \<and> free_idx (?bs ! i) m = {..<bm_bits (?bs ! i)} \<and>
      (\<forall>j < 3. j \<noteq> i \<longrightarrow> free_idx (?bs ! j) m = free_idx (?bs ! j) (mem t))"
    if "i < 3" "running_thread t = running_thread s" for i and t :: "'a mems_scheme"
    using bitmap_init_apart [OF apart, of i t] nn [OF that(1)] that assms clear_bitmap_fits [of M t i] by (simp add: len)
  let ?s0 = "s\<lparr>screen := put_str_vga (cstr ''mem_pool_init start'') (screen s), kernel_pool := init_kernel_pool M, user_pool := init_user_pool M\<rparr>"
  obtain v1 where v1: "print_pools ?s0 = ?s0\<lparr>screen := v1\<rparr>" using print_pools_screen by blast
  let ?s1 = "?s0\<lparr>screen := v1\<rparr>"
  have run: "running_thread ?s1 = running_thread s" by (simp add: running_thread_def)
  obtain m1 where m1: "clear_bitmap (?bs ! 0) ?s1 = Inr (?s1\<lparr>mem := m1\<rparr>)"
    "free_idx (?bs ! 0) m1 = {..<bm_bits (?bs ! 0)}"
    using init [OF _ run, of 0] by auto
  let ?s2 = "?s1\<lparr>mem := m1\<rparr>"
  have run: "running_thread ?s2 = running_thread s" by (simp add: running_thread_def)
  obtain m2 where m2: "clear_bitmap (?bs ! Suc 0) ?s2 = Inr (?s2\<lparr>mem := m2\<rparr>)"
    "free_idx (?bs ! 1) m2 = {..<bm_bits (?bs ! 1)}" "free_idx (?bs ! 0) m2 = free_idx (?bs ! 0) m1"
    using init [OF _ run, of "Suc 0"] by (auto simp: eval_nat_numeral)
  let ?s3 = "?s2\<lparr>mem := m2\<rparr>"
  let ?s5 = "(pool_locks_init s)\<lparr>screen := v1, mem := m2, kernel_pool := init_kernel_pool M,
    user_pool := init_user_pool M, kernel_vaddr := init_kernel_vaddr M\<rparr>"
  have locks: "(pool_locks_init ?s3)\<lparr>kernel_vaddr := init_kernel_vaddr M\<rparr> = ?s5"
    by (simp add: pool_locks_init_def lock_init_def sema_init_def list_init_def set_next_def set_prev_def Let_def)
  have "esp (pool_locks_init s) = esp s" by (subst pool_locks_init_eq) simp
  then have run: "running_thread ?s5 = running_thread s" by (simp add: running_thread_def)
  obtain m3 where m3: "clear_bitmap (?bs ! 2) ?s5 = Inr (?s5\<lparr>mem := m3\<rparr>)"
    "free_idx (?bs ! 2) m3 = {..<bm_bits (?bs ! 2)}" "free_idx (?bs ! 0) m3 = free_idx (?bs ! 0) m2"
    "free_idx (?bs ! 1) m3 = free_idx (?bs ! 1) m2"
    using init [OF _ run, of 2] by (auto simp: eval_nat_numeral)
  show thesis
  proof (rule that)
    show "mem_pool_init M s = Inr ((pool_locks_init s)\<lparr>screen := put_str_vga (cstr (''  mem_pool_init done'' @ [CHR 0x0a])) v1, mem := m3, kernel_pool := init_kernel_pool M, user_pool := init_user_pool M,
      kernel_vaddr := init_kernel_vaddr M\<rparr>)"
      using v1 m1(1) m2(1) m3(1) locks
      by (simp add: mem_pool_init_def put_str_def Let_def nth pool_locks_init_def)
    show "\<forall>i < 3. free_idx (?bs ! i) m3 = {..<bm_bits (?bs ! i)}"
    proof (intro allI impI)
      fix i :: nat assume "i < 3"
      then have "i \<in> {0, 1, 2}" by auto
      then show "free_idx (?bs ! i) m3 = {..<bm_bits (?bs ! i)}" using m1 m2 m3 by auto
    qed
  qed
qed

text \<open>When they do not fit, the initialisation stops at the first bitmap that runs into the page.\<close>

lemma mem_pool_init_overruns:
  assumes "\<not> bitmaps_fit M p" "p = running_thread s"
  shows "mem_pool_init M s = Inl (Out_Of_Bounds ''pool_bitmap'')"
proof -
  have "bits (init_bitmaps M ! i) \<noteq> NULL" "bm_wf (init_bitmaps M ! i)" if "i < 3" for i
  proof -
    have "i \<in> {0, 1, 2}" using that by auto
    moreover have "unat (bits (init_bitmaps M ! i)) \<noteq> 0" if "i \<in> {0, 1, 2}"
      using that by (auto simp: init_bitmaps_def init_kernel_pool_def init_user_pool_def init_kernel_vaddr_def init_bitmap_starts)
    ultimately show "bits (init_bitmaps M ! i) \<noteq> NULL" by force
    show "bm_wf (init_bitmaps M ! i)" using init_bitmaps_apart [of M] that by (simp add: bitmaps_apart_def init_bitmaps_def)
  qed
  note ok = this
  have over: "clear_bitmap b t = Inl (Out_Of_Bounds ''pool_bitmap'')" if "overlaps_page b p" "running_thread t = p"
    for b and t :: "'a mems_scheme"
    using that by (simp add: clear_bitmap_def)
  have clear: "\<exists>m. clear_bitmap (init_bitmaps M ! i) t = Inr (t\<lparr>mem := m\<rparr>)"
    if "i < 3" "\<not> overlaps_page (init_bitmaps M ! i) p" "running_thread t = p" for i and t :: "'a mems_scheme"
  proof -
    have "clear_bitmap (init_bitmaps M ! i) t = bitmap_init (Some (init_bitmaps M ! i)) t" using that(2,3) by (simp add: clear_bitmap_def)
    then show ?thesis using bitmap_init_clears [OF ok(1,2) [OF that(1)], of t] by metis
  qed
  let ?b = "\<lambda>i. init_bitmaps M ! i"
  have nth: "?b 0 = pool_bitmap (init_kernel_pool M)" "?b 1 = pool_bitmap (init_user_pool M)"
    "?b 2 = vaddr_bitmap (init_kernel_vaddr M)" by (simp_all add: init_bitmaps_def)
  let ?s0 = "s\<lparr>screen := put_str_vga (cstr ''mem_pool_init start'') (screen s), kernel_pool := init_kernel_pool M, user_pool := init_user_pool M\<rparr>"
  obtain v1 where v1: "print_pools ?s0 = ?s0\<lparr>screen := v1\<rparr>" using print_pools_screen by blast
  let ?s1 = "?s0\<lparr>screen := v1\<rparr>"
  have run: "running_thread (?s1\<lparr>mem := m\<rparr>) = p" "running_thread ?s1 = p" for m
    by (simp_all add: assms(2) running_thread_def)
  have "esp (pool_locks_init t) = esp t" for t :: "'a mems_scheme" by (subst pool_locks_init_eq) simp
  then have lock: "running_thread ((pool_locks_init (?s1\<lparr>mem := m\<rparr>))\<lparr>kernel_vaddr := w\<rparr>) = p" for m w
    by (simp add: assms(2) running_thread_def)
  note unf = mem_pool_init_def put_str_def Let_def v1 nth(1,2) [symmetric]
  show ?thesis
  proof (cases "overlaps_page (?b 0) p")
    case True
    then show ?thesis using over [OF _ run(2)] by (simp add: unf)
  next
    case b0: False
    obtain m where m: "clear_bitmap (?b 0) ?s1 = Inr (?s1\<lparr>mem := m\<rparr>)" using clear [OF _ b0 run(2)] by auto
    show ?thesis
    proof (cases "overlaps_page (?b 1) p")
      case True
      then show ?thesis using over [OF _ run(1)] m by (simp add: unf)
    next
      case b1: False
      obtain m' where m': "clear_bitmap (?b 1) (?s1\<lparr>mem := m\<rparr>) = Inr (?s1\<lparr>mem := m'\<rparr>)" using clear [OF _ b1 run(1)] by auto
      have "overlaps_page (vaddr_bitmap (init_kernel_vaddr M)) p"
        using assms(1) b0 b1 by (auto simp: bitmaps_fit_def init_bitmaps_def)
      then show ?thesis using over [OF _ lock, of _ "init_kernel_vaddr M" m'] m m' by (simp add: unf pool_locks_init_def)
    qed
  qed
qed

lemma unat_free_pages:
  assumes "used_mem \<le> M"
  shows "4096 * (unat (kernel_free_pages M) + unat (user_free_pages M)) + 2097152 \<le> unat M"
proof -
  let ?A = "unat ((M - used_mem) div PG_SIZE)"
  have A: "?A = (unat M - 2097152) div 4096"
    using assms by (simp add: unat_div PG_SIZE_def unat_diff_u32 word_le_nat_alt unat_used_mem)
  have lt: "?A < 1048576" unfolding A using unat_less_2p32 [of M] by simp
  have "unat (kernel_free_pages M) = ?A div 2 mod 65536"
    by (simp add: kernel_free_pages_def unsigned_ucast_eq unat_div take_bit_eq_mod)
  then have k: "unat (kernel_free_pages M) \<le> ?A"
    by (metis div_le_dividend le_trans mod_less_eq_dividend)
  have "unat (user_free_pages M) = (?A - unat (kernel_free_pages M)) mod 65536"
    using k unat_u16 [of "kernel_free_pages M"]
    by (simp add: user_free_pages_def unsigned_ucast_eq take_bit_eq_mod unat_diff_u32)
  then have "unat (kernel_free_pages M) + unat (user_free_pages M) \<le> ?A"
    using k mod_less_eq_dividend [of "?A - unat (kernel_free_pages M)" 65536] by linarith
  moreover have "2097152 \<le> unat M" using assms by (simp add: word_le_nat_alt unat_used_mem)
  ultimately show ?thesis unfolding A by (simp add: less_eq_div_iff_mult_less_eq)
qed

lemma init_frames_in_memory:
  assumes "used_mem \<le> M"
  shows "i < bm_bits (pool_bitmap (init_kernel_pool M)) \<Longrightarrow>
      2097152 \<le> unat (pool_frame (init_kernel_pool M) i) \<and> unat (pool_frame (init_kernel_pool M) i) + 4096 \<le> unat M"
    and "i < bm_bits (pool_bitmap (init_user_pool M)) \<Longrightarrow>
      2097152 \<le> unat (pool_frame (init_user_pool M) i) \<and> unat (pool_frame (init_user_pool M) i) + 4096 \<le> unat M"
proof -
  note lim = unat_free_pages [OF assms] and bits = init_pool_bits [of M]
  have k: "unat (phy_addr_start (init_kernel_pool M)) = 2097152" by (simp add: init_kernel_pool_def unat_used_mem)
  show "2097152 \<le> unat (pool_frame (init_kernel_pool M) i) \<and> unat (pool_frame (init_kernel_pool M) i) + 4096 \<le> unat M"
    if "i < bm_bits (pool_bitmap (init_kernel_pool M))"
    using unat_frame [OF init_pools_ok(1) that] that lim bits k by auto
  show "2097152 \<le> unat (pool_frame (init_user_pool M) i) \<and> unat (pool_frame (init_user_pool M) i) + 4096 \<le> unat M"
    if "i < bm_bits (pool_bitmap (init_user_pool M))"
    using unat_frame [OF init_pools_ok(2) that] that lim bits unat_up_start [of M] by auto
qed

lemma frames_above:
  "i < bm_bits (pool_bitmap (init_kernel_pool M)) \<Longrightarrow> 2097152 \<le> unat (pool_frame (init_kernel_pool M) i)"
  "i < bm_bits (pool_bitmap (init_user_pool M)) \<Longrightarrow> 2097152 \<le> unat (pool_frame (init_user_pool M) i)"
  using unat_frame [OF init_pools_ok(1), of i M] unat_frame [OF init_pools_ok(2), of i M] unat_up_start [of M]
  by (simp_all add: init_kernel_pool_def unat_used_mem)

lemma mem_pool_init_vm_inv:
  assumes "boot_tables s" "bitmaps_fit M (running_thread s)"
  obtains s' where "mem_pool_init M s = Inr s'" "vm_inv s'"
    "kernel_pool s' = init_kernel_pool M" "user_pool s' = init_user_pool M" "kernel_vaddr s' = init_kernel_vaddr M"
    "free_idx (bit_of PF_KERNEL s') (mem s') = {..<bm_bits (bit_of PF_KERNEL s')}"
    "free_idx (bit_of PF_USER s') (mem s') = {..<bm_bits (bit_of PF_USER s')}"
    "free_idx (vaddr_bitmap (kernel_vaddr s')) (mem s') = {..<heap_bits s'}"
    "heap_bits s' = 8 * unat (kbm_length M)" "pmem s' = pmem s" "cr3 s' = cr3 s"
    "tasks s' = tasks s" "stk s' = stk s" "main_thread s' = main_thread s" "esp s' = esp s"
    "running_thread s \<noteq> NULL \<Longrightarrow> lock_free kernel_pool_lock s' \<and> lock_free user_pool_lock s'"
proof -
  obtain v m where r: "mem_pool_init M s = Inr ((pool_locks_init s)\<lparr>screen := v, mem := m, kernel_pool := init_kernel_pool M, user_pool := init_user_pool M,
      kernel_vaddr := init_kernel_vaddr M\<rparr>)" (is "_ = Inr ?s'")
    and free: "\<forall>i < 3. free_idx (init_bitmaps M ! i) m = {..<bm_bits (init_bitmaps M ! i)}"
    using mem_pool_init_run [OF assms(2)] .
  have L: "pmem (pool_locks_init s) = pmem s" "cr3 (pool_locks_init s) = cr3 s" "tasks (pool_locks_init s) = tasks s"
    "stk (pool_locks_init s) = stk s" "main_thread (pool_locks_init s) = main_thread s" "esp (pool_locks_init s) = esp s"
    by (subst pool_locks_init_eq, simp)+
  have f: "free_idx (pool_bitmap (init_kernel_pool M)) m = {..<bm_bits (pool_bitmap (init_kernel_pool M))}"
    "free_idx (pool_bitmap (init_user_pool M)) m = {..<bm_bits (pool_bitmap (init_user_pool M))}"
    "free_idx (vaddr_bitmap (init_kernel_vaddr M)) m = {..<bm_bits (vaddr_bitmap (init_kernel_vaddr M))}"
    using spec [OF free, of 0] spec [OF free, of 1] spec [OF free, of 2] by (simp_all add: init_bitmaps_def)
  have hb: "heap_bits ?s' = 8 * unat (kbm_length M)" by (simp add: heap_bits_def bm_bits_def init_kernel_vaddr_def)
  have "2097152 \<le> unat f" if "f \<in> all_free ?s'" for f
    using that frames_above [of _ M] by (auto simp: all_free_def free_frames_def f)
  then have "all_free ?s' \<inter> mapped (pmem s) (cr3 s) = {}"
    using assms by (fastforce simp: boot_tables_def)
  moreover have "pool_bitmaps ?s' = init_bitmaps M" by (simp add: pool_bitmaps_def init_bitmaps_def)
  ultimately have core: "vm_core ?s'"
    using assms init_bitmaps_apart [of M] init_pools_ok [of M] init_pools_apart [of _ M]
    by (simp add: vm_core_def boot_tables_def L)
  have geo: "heap_geometry ?s'"
    using assms bm_lengths_less(1) [of M] hb
    by (simp add: heap_geometry_def boot_tables_def init_kernel_vaddr_def K_HEAP_START_def page_aligned_def L)
  have "translate ?s' (heap_page ?s' k) = None" if "k < heap_bits ?s'" for k
  proof -
    have "unat (heap_page ?s' k) = 3222274048 + 4096 * k"
      using unat_heap_page [OF geo that] by (simp add: init_kernel_vaddr_def K_HEAP_START_def)
    then show ?thesis
      using assms that hb bm_lengths_less(1) [of M]
      by (simp add: boot_tables_def translate_def word_le_nat_alt word_less_nat_alt L)
  qed
  then have "vm_inv ?s'" using core geo by (simp add: vm_inv_def heap_ok_geometry f heap_bits_def)
  moreover have "lock_free kernel_pool_lock ?s' \<and> lock_free user_pool_lock ?s'" if "running_thread s \<noteq> NULL"
    using pool_locks_free [OF that, of ?s'] by (simp add: running_thread_def L)
  ultimately show thesis using r f hb by (intro that [of ?s']) (simp_all add: bit_of_def mem_pool_def heap_bits_def L)
qed

section \<open>A state with the page tables of the loader\<close>

definition table0 :: "nat \<Rightarrow> addr" where
  "table0 i = (if i = 1023 then 0x100000 else of_nat (0x101000 + 4096 * (i - 768)))"

text \<open>
  The directory at 1 MB with the entries 0 and 768 to 1023, the table of the first megabyte behind it,
  and the size of the memory (32 MB) where the loader stores it.
\<close>

definition dir_idx :: "nat \<Rightarrow> nat" where
  "dir_idx i = (if i = 0 then 768 else i)"

definition pm0 :: "addr \<Rightarrow> u32" where
  "pm0 a =
     (if a AND 0xfffff000 = 0x100000 then
        let i = unat (a - 0x100000) div 4 in if 768 \<le> dir_idx i then table0 (dir_idx i) + 7 else 0
      else if a AND 0xfffff000 = 0x101000 then
        let j = unat (a - 0x101000) div 4 in if j < 256 then of_nat (4096 * j) + 7 else 0
      else if a = 0xb00 then 0x2000000 else 0)"

definition mems0 :: "nodes \<Rightarrow> mems" where
  "mems0 h = paging.extend (syncs.extend (syncs0 2 h (\<lambda>_. 0) (\<lambda>_. 0) (\<lambda>_. 0)) (paging.fields pm0))
     (mems.fields \<lparr>pool_bitmap = \<lparr>btmp_bytes_len = 0, bits = 0\<rparr>, phy_addr_start = 0, pool_size = 0\<rparr>
        \<lparr>pool_bitmap = \<lparr>btmp_bytes_len = 0, bits = 0\<rparr>, phy_addr_start = 0, pool_size = 0\<rparr>
        \<lparr>vaddr_bitmap = \<lparr>btmp_bytes_len = 0, bits = 0\<rparr>, vaddr_start = 0\<rparr>)"

lemma mems0_simps [simp]:
  "pmem (mems0 h) = pm0" "cr3 (mems0 h) = 0x100000" "elems (mems0 h) = h" "tasks (mems0 h) = tasks0"
  "esp (mems0 h) = 0xc009ef00" "main_thread (mems0 h) = 0xc009e000" "eflags (mems0 h) = 2"
  by (simp_all add: mems0_def paging.extend_def syncs.extend_def paging.fields_def mems.fields_def syncs0_def clock.extend_def syncs.fields_def clock0_def intr.extend_def clock.fields_def intr0_def
      threads.extend_def intr.fields_def threads0_def liststore.extend_def threads.fields_def liststore0_def bytemem.extend_def
      liststore.fields_def bytemem0_def machine.extend_def bytemem.fields_def machine0_def)

lemma slot_index:
  assumes "page_aligned p" "i < 1024"
  shows "unat (p + 4 * of_nat i - p) div 4 = i" "(p + 4 * of_nat i) AND 0xfffff000 = p"
proof -
  have "unat (of_nat i :: u32) = i" using assms(2) by (simp add: unat_of_nat_u32)
  then show "unat (p + 4 * of_nat i - p) div 4 = i" "(p + 4 * of_nat i) AND 0xfffff000 = p"
    using assms slot_offset(1) [of "of_nat i"] slot_in_frame [of p "of_nat i"] by simp_all
qed

lemma pm0_dir: "i < 1024 \<Longrightarrow> pm0 (0x100000 + 4 * of_nat i) = (if 768 \<le> dir_idx i then table0 (dir_idx i) + 7 else 0)"
  using slot_index [of "0x100000" i] by (simp add: pm0_def Let_def page_aligned_def)

lemma pm0_low: "j < 1024 \<Longrightarrow> pm0 (0x101000 + 4 * of_nat j) = (if j < 256 then of_nat (4096 * j) + 7 else 0)"
  using slot_index [of "0x101000" j] by (simp add: pm0_def Let_def page_aligned_def)

lemma unat_table0:
  assumes "768 \<le> i" "i < 1024"
  shows "unat (table0 i) = (if i = 1023 then 1048576 else 1052672 + 4096 * (i - 768))"
proof -
  have "1052672 + 4096 * (i - 768) < 4294967296" using assms by linarith
  from unat_of_nat_u32 [OF this] show ?thesis by (simp only: table0_def split: if_split) simp
qed

lemma present_odd: "present e \<longleftrightarrow> odd (unat e)"
proof -
  have "unat (e AND 1) = unat e mod 2" by (simp add: and_one_eq unat_mod)
  then show ?thesis by (metis present_def unat_eq_0 even_iff_mod_2_eq_zero)
qed

lemma table0_flags:
  assumes "768 \<le> i" "i < 1024"
  shows "present (table0 i + 7)" "frame_of (table0 i + 7) = table0 i"
proof -
  have d: "4096 dvd unat (table0 i)" using assms by (auto simp: unat_table0)
  then have al: "page_aligned (table0 i)" by (simp add: page_aligned_dvd)
  then show "frame_of (table0 i + 7) = table0 i"
    using page_mask_in_page [OF al, of 7] by (simp add: frame_of_def)
  have "unat (table0 i + 7) = unat (table0 i) + 7" using assms by (simp add: unat_add_u32 unat_table0)
  then show "present (table0 i + 7)" using d by (auto simp: present_odd elim!: dvdE)
qed

lemma in_window_unat: "in_window v \<longleftrightarrow> unat (drop_bit 22 v) = 1023"
  using word_unat_eq_iff [of "drop_bit 22 v" 1023] by (simp add: in_window_def)

abbreviation didx :: "u32 \<Rightarrow> nat" where
  "didx v \<equiv> dir_idx (unat (drop_bit 22 v))"

lemma didx_less: "didx v < 1024"
  using pde_idx_less [of v] by (simp add: dir_idx_def)

lemma pde0: "pm0 (pde_slot 0x100000 v) = (if 768 \<le> didx v then table0 (didx v) + 7 else 0)"
proof -
  have "pde_slot 0x100000 v = 0x100000 + 4 * of_nat (unat (drop_bit 22 v))"
    by (simp add: pde_slot_def frame_of_def unat_of_nat_self)
  then show ?thesis using pm0_dir [OF pde_idx_less [of v]] by simp
qed

lemma pde0_present: "present (pm0 (pde_slot 0x100000 v)) \<longleftrightarrow> 768 \<le> didx v"
  using table0_flags [of "didx v"] didx_less [of v] by (simp add: pde0 present_def)

lemma pde0_frame: "768 \<le> didx v \<Longrightarrow> frame_of (pm0 (pde_slot 0x100000 v)) = table0 (didx v)"
  using table0_flags(2) [OF _ didx_less] by (simp add: pde0)

lemma table0_inj:
  assumes "768 \<le> i" "i < 1024" "768 \<le> j" "j < 1024" "table0 i = table0 j"
  shows "i = j"
  using arg_cong [OF assms(5), of unat] assms(1,3)
  unfolding unat_table0 [OF assms(1,2)] unat_table0 [OF assms(3,4)] by (simp split: if_splits)

lemma table0_values: "table0 1023 = 0x100000" "table0 768 = 0x101000"
  by (simp_all add: table0_def)

lemma in_window_didx: "in_window v \<longleftrightarrow> didx v = 1023"
  by (auto simp: in_window_unat dir_idx_def)

lemma tables_ok0: "tables_ok pm0 0x100000"
proof -
  have "didx 0xfffff000 = 1023" by (simp add: unat_pde_idx dir_idx_def)
  moreover have "frame_of 0x100000 = 0x100000" by (simp add: frame_of_def)
  moreover have "shared_idx (drop_bit 22 v) (drop_bit 22 w)" if "didx v = didx w" for v w
  proof (cases "unat (drop_bit 22 v) = unat (drop_bit 22 w)")
    case False
    with that have "unat (drop_bit 22 v) \<in> {0, 768}" "unat (drop_bit 22 w) \<in> {0, 768}"
      by (auto simp: dir_idx_def split: if_splits)
    then have "drop_bit 22 v \<in> {0, 768}" "drop_bit 22 w \<in> {0, 768}"
      using word_unat_eq_iff [of "drop_bit 22 v" 768] word_unat_eq_iff [of "drop_bit 22 w" 768]
      by (auto simp: unat_eq_0)
    then show ?thesis by (simp add: shared_idx_def)
  qed (simp add: shared_idx_def word_unat_eq_iff)
  ultimately show ?thesis
    unfolding tables_ok_def self_mapped_top
    using pde0_present pde0_frame table0_inj [OF _ didx_less _ didx_less] by (auto simp: table0_values)
qed

text \<open>An entry outside the window is empty or one of the first 256 of the table of the first megabyte.\<close>

lemma entry0:
  assumes "pte_loc pm0 0x100000 v = Some p" "\<not> in_window v"
  shows "pm0 p = (if didx v = 768 \<and> unat v div 4096 mod 1024 < 256 then of_nat (4096 * (unat v div 4096 mod 1024)) + 7 else 0)"
proof -
  let ?j = "unat v div 4096 mod 1024"
  have p: "768 \<le> didx v" "p = pte_slot (pm0 (pde_slot 0x100000 v)) v"
    using assms(1) pde0_present [of v] by (auto simp: pte_loc_def Let_def split: if_splits)
  then have f: "frame_of p = table0 (didx v)" by (simp add: frame_of_pte_slot pde0_frame)
  have "unat (table0 (didx v)) \<noteq> 0" using unat_table0 [OF p(1) didx_less] by simp
  then have "frame_of p \<noteq> frame_of 0xb00" using f by (auto simp: frame_of_def [of "0xb00"])
  then have "p \<noteq> 0xb00" by auto
  moreover have "table0 (didx v) \<noteq> 0x100000"
    using table0_inj [OF p(1) didx_less, of 1023] assms(2) by (auto simp: in_window_didx table0_values)
  moreover have "table0 (didx v) = 0x101000 \<longleftrightarrow> didx v = 768"
    using table0_inj [OF p(1) didx_less, of 768] by (auto simp: table0_values)
  moreover have "p = 0x101000 + 4 * of_nat ?j" if "didx v = 768"
    using p pde0_frame [OF p(1)] that unat_pte_idx [of v]
    by (simp add: pte_slot_def table0_values) (metis unat_of_nat_self)
  ultimately show ?thesis
    using f pm0_low [of ?j] by (auto simp: pm0_def frame_of_def)
qed

section \<open>Running out\<close>

lemma malloc_loop_exhausted:
  assumes "vm_core s" "heap_geometry s" "k + n \<le> heap_bits s" "\<forall>j < n. translate s (heap_page s (k + j)) = None"
    "card (free_idx (bit_of PF_KERNEL s) (mem s)) < n"
  shows "\<exists>s'. malloc_loop n PF_KERNEL (heap_page s k) s = Inr (False, s') \<and>
    free_idx (bit_of PF_KERNEL s) (mem s') = {} \<and>
    free_idx (vaddr_bitmap (kernel_vaddr s)) (mem s') = free_idx (vaddr_bitmap (kernel_vaddr s)) (mem s)"
  using assms
proof (induction n arbitrary: k s)
  case (Suc n)
  show ?case
  proof (cases "free_idx (bit_of PF_KERNEL s) (mem s) = {}")
    case True
    then have "palloc (mem_pool PF_KERNEL s) s = Inr (NULL, put_str (''palloc failed'' @ [CHR 0x0a]) s)"
      using palloc_eq [OF vm_core_pool [OF Suc.prems(1), of PF_KERNEL], of s] by (simp add: bit_of_def)
    with True show ?thesis by (simp add: put_str_def)
  next
    case False
    have k: "k < heap_bits s" "translate s (heap_page s k) = None"
      using Suc.prems(3) spec [OF Suc.prems(4), of 0] by simp_all
    obtain i m1 pm1 where step: "i \<in> free_idx (bit_of PF_KERNEL s) (mem s)"
      "malloc_loop (Suc n) PF_KERNEL (heap_page s k) s =
         malloc_loop n PF_KERNEL (heap_page s (Suc k)) (s\<lparr>mem := m1, pmem := pm1\<rparr>)"
      "vm_core (s\<lparr>mem := m1, pmem := pm1\<rparr>)" "heap_geometry (s\<lparr>mem := m1, pmem := pm1\<rparr>)"
      "maps_page (heap_page s k) (pool_frame (kernel_pool s) i) s (s\<lparr>mem := m1, pmem := pm1\<rparr>)"
      "m1 = mem (taken PF_KERNEL i s)" "\<forall>v. pm1 (pde_slot (cr3 s) v) = pde_at s v"
      using malloc_loop_step [OF Suc.prems(1,2) k False, of n] .
    let ?t = "s\<lparr>mem := m1, pmem := pm1\<rparr>"
    note free = free_idx_run [OF Suc.prems(1) step(1,6)]
    have rest: "\<forall>j < n. translate ?t (heap_page ?t (Suc k + j)) = None"
      by (rule rest_unmapped [OF Suc.prems(2-4) step(5)])
    from Suc.IH [OF step(3,4) _ rest] Suc.prems(3,5) free(4) obtain s' where
      "malloc_loop n PF_KERNEL (heap_page s (Suc k)) ?t = Inr (False, s')"
      "free_idx (bit_of PF_KERNEL s) (mem s') = {}"
      "free_idx (vaddr_bitmap (kernel_vaddr s)) (mem s') = free_idx (vaddr_bitmap (kernel_vaddr s)) m1"
      by auto
    with step(2) free(3) show ?thesis by auto
  qed
qed simp

lemma get_kernel_pages_short:
  assumes "vm_inv s" "0 < c" "c < 3840" "card (free_idx (bit_of PF_KERNEL s) (mem s)) < unat c"
    "first_fit (\<lambda>i. \<not> bm_used (mem s) (vaddr_bitmap (kernel_vaddr s)) i) (heap_bits s) (unat c) = Some k"
  shows "\<exists>s'. get_kernel_pages c s = Inr (NULL, s') \<and> free_idx (bit_of PF_KERNEL s) (mem s') = {} \<and>
    free_idx (vaddr_bitmap (kernel_vaddr s)) (mem s') = free_idx (vaddr_bitmap (kernel_vaddr s)) (mem s) - {k..<k + unat c}"
proof -
  let ?n = "unat c" and ?t = "marked k (unat c) s"
  have core: "vm_core s" and heap: "heap_ok s" using assms(1) by (simp_all add: vm_inv_def)
  have k: "k + ?n \<le> heap_bits s" "fits (\<lambda>i. \<not> bm_used (mem s) (vaddr_bitmap (kernel_vaddr s)) i) ?n k"
    using first_fit_Some [OF assms(5)] by simp_all
  have "\<forall>j < ?n. k + j \<in> free_idx (vaddr_bitmap (kernel_vaddr s)) (mem s)"
    using k by (simp add: fits_def free_idx_def heap_bits_def)
  then have "\<forall>j < ?n. translate ?t (heap_page ?t (k + j)) = None"
    using heap by (simp add: heap_ok_geometry)
  from malloc_loop_exhausted [of ?t k ?n, OF _ _ _ this] vm_core_marked [OF core k(1)] heap k(1) assms(4)
    free_idx_marked [OF core k(1)] obtain s' where
    "malloc_loop ?n PF_KERNEL (heap_page s k) ?t = Inr (False, s')" "free_idx (bit_of PF_KERNEL s) (mem s') = {}"
    "free_idx (vaddr_bitmap (kernel_vaddr s)) (mem s') = free_idx (vaddr_bitmap (kernel_vaddr s)) (mem s) - {k..<k + ?n}"
    by (auto simp: heap_ok_geometry)
  moreover have "c \<noteq> 0" using assms(2) by auto
  ultimately show ?thesis
    using assms(2,3,5) vaddr_get_kernel [OF core]
    by (intro exI [of _ "put_str ''get_kernel_pages failed'' s'"]) (simp add: get_kernel_pages_def malloc_page_def put_str_def)
qed

lemma get_kernel_pages_no_run:
  assumes "vm_inv s" "0 < c" "c < 3840"
    "first_fit (\<lambda>i. \<not> bm_used (mem s) (vaddr_bitmap (kernel_vaddr s)) i) (heap_bits s) (unat c) = None"
  shows "if free_idx (bit_of PF_KERNEL s) (mem s) = {} then \<exists>v. get_kernel_pages c s = Inr (NULL, s\<lparr>screen := v\<rparr>)
    else get_kernel_pages c s = Inl (Panic ''kernel/memory.c'' 101 ''page_table_add'' ''_vaddr != NULL'')"
proof -
  let ?t = "put_str (''vaddr_get failed'' @ [CHR 0x0a]) s"
  have core: "vm_core s" using assms(1) by (simp add: vm_inv_def)
  obtain n where n: "unat c = Suc n" using assms(2) by (cases "unat c") (auto simp: word_less_nat_alt)
  have "c \<noteq> 0" using assms(2) by auto
  then have v: "vaddr_get PF_KERNEL c s = Inr (NULL, ?t)" using vaddr_get_kernel [OF core, of c] assms(4) by simp
  have ok: "pool_ok (kernel_pool s)" using vm_core_pool [OF core, of PF_KERNEL] by (simp add: mem_pool_def)
  have same: "mem_pool PF_KERNEL (put_str q u) = mem_pool PF_KERNEL u" "mem_pool PF_KERNEL s = kernel_pool s"
    for q and u :: "'a mems_scheme" by (simp_all add: put_str_def mem_pool_def)
  have F: "free_idx (bit_of PF_KERNEL s) (mem s) = free_idx (pool_bitmap (kernel_pool s)) (mem ?t)"
    by (simp add: bit_of_def mem_pool_def put_str_def)
  show ?thesis
  proof (cases rule: palloc_cases [OF ok, of ?t])
    case 1
    then have "malloc_page PF_KERNEL c s = Inr (NULL, put_str (''palloc failed'' @ [CHR 0x0a]) ?t)"
      using assms(2,3) by (simp add: malloc_page_def v n same)
    then have "get_kernel_pages c s = Inr (NULL, put_str ''get_kernel_pages failed'' (put_str (''palloc failed'' @ [CHR 0x0a]) ?t))"
      by (simp add: get_kernel_pages_def)
    with 1(1) F show ?thesis by (auto simp: put_str_def)
  next
    case (2 i)
    then have "pool_frame (kernel_pool s) i \<noteq> NULL" using frame_facts(2) [OF ok] by blast
    then have "get_kernel_pages c s = Inl (Panic ''kernel/memory.c'' 101 ''page_table_add'' ''_vaddr != NULL'')"
      using assms(2,3) 2(3) by (simp add: get_kernel_pages_def malloc_page_def v n same page_table_add_def)
    with 2(1) F show ?thesis by auto
  qed
qed

lemma boot_tables0: "boot_tables (mems0 h)"
proof -
  have none: "translate (mems0 h) v = None" if "0xc0100000 \<le> v" "v < 0xffc00000" for v
  proof -
    have v: "3222274048 \<le> unat v" "unat v < 4290772992" using that by (simp_all add: word_le_nat_alt word_less_nat_alt)
    then have "\<not> in_window v" by (intro not_in_window)
    moreover have "\<not> unat v div 4096 mod 1024 < 256" if "didx v = 768"
    proof -
      have "unat v div 4194304 = 768" using that v(1) by (auto simp: dir_idx_def unat_pde_idx split: if_splits)
      then have "unat v div 4096 div 1024 = 768" by (simp add: div_mult2_eq [symmetric])
      moreover have "786688 \<le> unat v div 4096" using div_le_mono [OF v(1), of 4096] by simp
      ultimately show ?thesis using div_mult_mod_eq [of "unat v div 4096" 1024] by linarith
    qed
    ultimately have "pm0 p = 0" if "pte_loc pm0 0x100000 v = Some p" for p
      using entry0 [OF that] by auto
    then show ?thesis by (auto simp: translate_def walk_pte_loc present_def split: option.split)
  qed
  have low: "unat f < 0x200000" if m: "f \<in> mapped pm0 0x100000" for f
  proof -
    obtain v p where p: "pte_loc pm0 0x100000 v = Some p" "present (pm0 p)" "frame_of (pm0 p) = f"
      using m by (auto simp: mapped_page)
    show ?thesis
    proof (cases "in_window v")
      case True
      then obtain u where u: "p = pde_slot 0x100000 u"
        using window_loc [of pm0 "0x100000" v] tables_ok0 p(1) by (auto simp: tables_ok_def)
      then have "768 \<le> didx u" using p(2) pde0_present by simp
      then have "unat f = unat (table0 (didx u))" "unat (table0 (didx u)) < 0x200000"
        using u p(3) pde0_frame unat_table0 [OF _ didx_less, of u] didx_less [of u] by (auto split: if_splits)
      then show ?thesis by simp
    next
      case False
      let ?j = "unat v div 4096 mod 1024"
      have "?j < 256" "pm0 p = of_nat (4096 * ?j) + 7"
        using entry0 [OF p(1) False] p(2) by (auto simp: present_def split: if_splits)
      then have "unat (pm0 p) = 4096 * ?j + 7" "?j < 256"
        by (simp_all only: unat_add_u32) (simp add: unat_of_nat_u32 del: of_nat_mult)
      then have "unat (pm0 p) < 0x200000" by simp
      then show ?thesis using p(3) unat_in_page_mono [of "pm0 p"] by (auto simp: frame_of_def)
    qed
  qed
  have "768 \<le> didx v" if "0xc0000000 \<le> v" for v
    using that div_le_mono [of 3221225472 "unat v" 4194304] by (simp add: unat_pde_idx word_le_nat_alt dir_idx_def)
  then show ?thesis using tables_ok0 none low pde0_present by (simp add: boot_tables_def)
qed

lemma walk_b00: "walk pm0 0x100000 0xb00 = Some 0xb00"
proof -
  have v: "\<not> in_window 0xb00" "didx 0xb00 = 768" "unat (0xb00 :: u32) div 4096 mod 1024 = 0"
    by (simp_all add: in_window_unat unat_pde_idx dir_idx_def)
  obtain p where p: "pte_loc pm0 0x100000 0xb00 = Some p"
    using pde0_present [of "0xb00"] v(2) by (auto simp: pte_loc_def)
  have "pm0 p = 7" using entry0 [OF p v(1)] v(2,3) by simp
  with p show ?thesis by (simp add: walk_pte_loc present_def frame_of_def)
qed

lemma unat_pcb: "0xc0000000 \<le> unat (0xc009e000 :: u32)"
  by simp

lemma walk_pcb: "walk pm0 0x100000 0xc009e000 \<noteq> None"
proof -
  have v: "\<not> in_window 0xc009e000" "didx 0xc009e000 = 768" "unat (0xc009e000 :: u32) div 4096 mod 1024 = 158"
    by (simp_all add: in_window_unat unat_pde_idx dir_idx_def)
  obtain p where p: "pte_loc pm0 0x100000 0xc009e000 = Some p"
    using pde0_present [of "0xc009e000"] v(2) by (auto simp: pte_loc_def)
  have "pm0 p = 0x9e007" using entry0 [OF p v(1)] v(2,3) by simp
  with p show ?thesis by (simp add: walk_pte_loc present_def)
qed

lemma size_word0: "vload32 0xb00 (mems0 h) = Inr 0x2000000"
  using walk_b00 by (simp add: vload32_def translate_def pm0_def)

lemma first_fit_all_free:
  assumes "free_idx b m = {..<bm_bits b}" "cnt \<le> bm_bits b"
  shows "first_fit (\<lambda>i. \<not> bm_used m b i) (bm_bits b) cnt = Some 0"
proof -
  have "\<not> bm_used m b i" if "i < bm_bits b" for i using assms(1) that by (auto simp: free_idx_def)
  then have "fits (\<lambda>i. \<not> bm_used m b i) cnt 0" using assms(2) by (simp add: fits_def)
  moreover have "[0..<bm_bits b + 1 - cnt] = 0 # [1..<bm_bits b + 1 - cnt]"
    using assms(2) by (simp add: upt_conv_Cons)
  ultimately show ?thesis by (simp add: first_fit_def)
qed

text \<open>The state after initialisation, for the witnesses.\<close>

lemma lengths_32mb: "kbm_length 0x2000000 = 480" "ubm_length 0x2000000 = 480"
  by (simp_all add: kbm_length_def ubm_length_def user_free_pages_def kernel_free_pages_def used_mem_def PG_SIZE_def)

lemma length_small: "kbm_length 0x210000 = 1"
  by (simp add: kbm_length_def kernel_free_pages_def used_mem_def PG_SIZE_def)

lemma fit0: "bitmaps_fit 0x2000000 0xc009e000" "bitmaps_fit 0x210000 0xc009e000"
  by (simp_all add: bitmaps_fit_343 used_mem_def PG_SIZE_def)

lemma running_mems0: "running_thread (mems0 h) = 0xc009e000"
  by (simp add: running_thread_def)

lemma init_ready:
  assumes "bitmaps_fit M 0xc009e000"
  obtains s where "mem_pool_init M (mems0 h) = Inr s" "vm_inv s" "heap_page s 0 = 0xc0100000"
    "heap_bits s = 8 * unat (kbm_length M)" "free_idx (bit_of PF_KERNEL s) (mem s) = {..<8 * unat (kbm_length M)}"
    "free_idx (vaddr_bitmap (kernel_vaddr s)) (mem s) = {..<heap_bits s}"
    "kernel_pool s = init_kernel_pool M" "lock_free kernel_pool_lock s" "tasks s = tasks0" "running_thread s = 0xc009e000"
    "heap_page s 1 = 0xc0101000" "pmem s = pm0" "cr3 s = 0x100000"
proof -
  have run: "running_thread (mems0 h) = 0xc009e000" by (simp add: running_thread_def)
  obtain s where s: "mem_pool_init M (mems0 h) = Inr s" "vm_inv s"
    "kernel_pool s = init_kernel_pool M" "kernel_vaddr s = init_kernel_vaddr M"
    "free_idx (bit_of PF_KERNEL s) (mem s) = {..<bm_bits (bit_of PF_KERNEL s)}"
    "free_idx (vaddr_bitmap (kernel_vaddr s)) (mem s) = {..<heap_bits s}" "heap_bits s = 8 * unat (kbm_length M)"
    "tasks s = tasks0" "esp s = 0xc009ef00" "lock_free kernel_pool_lock s" "pmem s = pm0" "cr3 s = 0x100000"
    by (rule mem_pool_init_vm_inv [OF boot_tables0, of M h]) (use run assms in \<open>simp_all add: mems0_simps\<close>)
  have "bm_bits (bit_of PF_KERNEL s) = 8 * unat (kbm_length M)"
    by (simp add: bit_of_def mem_pool_def s(3) bm_bits_def init_kernel_pool_def)
  moreover have "heap_page s 0 = 0xc0100000" "heap_page s 1 = 0xc0101000"
    by (simp_all add: heap_page_def s(4) init_kernel_vaddr_def K_HEAP_START_def PG_SIZE_def)
  ultimately show thesis using s by (intro that [of s]) (simp_all add: running_thread_def)
qed

lemma mems_upd_cr3: "t = s\<lparr>mem := m, pmem := pm\<rparr> \<Longrightarrow> cr3 t = cr3 s"
  by simp

text \<open>Pages with the same entry as a mapped one show the same frame.\<close>

lemma pages_mapped_alias:
  assumes "vm_inv s" "pages_mapped k fs s s'" "j < length fs" "k + length fs \<le> heap_bits s" "cr3 s' = cr3 s"
    "pte_loc (pmem s) (cr3 s) w = pte_loc (pmem s) (cr3 s) (heap_page s (k + j))" "fs ! j \<in> free_idx (bit_of PF_KERNEL s) (mem s)"
  shows "translate s' w = Some (pool_frame (kernel_pool s) (fs ! j) + (w AND 0xfff))"
proof -
  let ?p = "heap_page s (k + j)" and ?f = "pool_frame (kernel_pool s) (fs ! j)"
  have geo: "heap_geometry s" and core: "vm_core s" using assms(1) by (simp_all add: vm_inv_def heap_ok_geometry)
  have j: "k + j < heap_bits s" using assms(3,4) by simp
  note hp = heap_page_facts [OF geo j]
  have loc: "pte_loc (pmem s') (cr3 s') v = pte_loc (pmem s) (cr3 s) v" for v
    using assms(2,5) by (simp add: pages_mapped_def pte_loc_def)
  have "?p AND 0xfff = 0" using hp(4) by (simp add: page_aligned_def)
  then have "translate s' ?p = Some ?f" using assms(2,3) hp(5) by (simp add: pages_mapped_def)
  then obtain q where q: "pte_loc (pmem s) (cr3 s) ?p = Some q" "present (pmem s' q)" "frame_of (pmem s' q) = ?f"
    using loc [of ?p] \<open>?p AND 0xfff = 0\<close> by (auto simp: translate_def walk_pte_loc split: option.splits if_splits)
  then show ?thesis using loc [of w] assms(6) by (simp add: translate_def walk_pte_loc)
qed

lemma mem_init_fits:
  assumes "boot_tables s" "vload32 0xb00 s = Inr M" "used_mem \<le> M" "running_thread s = 0xc009e000" "bitmaps_fit M 0xc009e000"
  shows "\<exists>s'. mem_init s = Inr s' \<and> vm_inv s' \<and>
      (\<forall>pf. free_idx (bit_of pf s') (mem s') = {..<bm_bits (bit_of pf s')} \<and>
         (\<forall>i < bm_bits (bit_of pf s'). 0x200000 \<le> unat (pool_frame (mem_pool pf s') i) \<and>
            unat (pool_frame (mem_pool pf s') i) + 4096 \<le> unat M)) \<and>
      free_idx (vaddr_bitmap (kernel_vaddr s')) (mem s') = {..<heap_bits s'} \<and>
      tasks s' = tasks s \<and> stk s' = stk s \<and> (\<forall>v. translate s' v = translate s v)"
proof -
  let ?s = "put_str (''mem_init start.'' @ [CHR 0x0a]) s"
  have bt: "boot_tables ?s" using assms(1) by (simp add: boot_tables_def put_str_def translate_def)
  have run: "running_thread ?s = 0xc009e000" using assms(4) by (simp add: put_str_def running_thread_def)
  have load: "vload32 0xb00 ?s = Inr M" using assms(2) by (simp add: vload32_def put_str_def translate_def split: option.splits)
  obtain t where t: "mem_pool_init M ?s = Inr t" "vm_inv t"
    "kernel_pool t = init_kernel_pool M" "user_pool t = init_user_pool M"
    "free_idx (bit_of PF_KERNEL t) (mem t) = {..<bm_bits (bit_of PF_KERNEL t)}"
    "free_idx (bit_of PF_USER t) (mem t) = {..<bm_bits (bit_of PF_USER t)}"
    "free_idx (vaddr_bitmap (kernel_vaddr t)) (mem t) = {..<heap_bits t}"
    "pmem t = pmem ?s" "cr3 t = cr3 ?s" "tasks t = tasks ?s" "stk t = stk ?s"
    by (rule mem_pool_init_vm_inv [OF bt, of M]) (use run assms(4,5) in simp_all)
  define s' where "s' = put_str (''mem_init done.'' @ [CHR 0x0a]) t"
  have run': "mem_init s = Inr s'" using t(1) load by (simp add: mem_init_def s'_def)
  have inv: "vm_inv s'"
    using t(2) by (simp add: vm_inv_def vm_core_def pool_bitmaps_def all_free_def heap_ok_def heap_bits_def heap_page_def translate_def put_str_def s'_def)
  have free: "free_idx (bit_of pf t) (mem t) = {..<bm_bits (bit_of pf t)}" for pf using t(5,6) by (cases pf) auto
  have frames: "0x200000 \<le> unat (pool_frame (mem_pool pf t) i) \<and> unat (pool_frame (mem_pool pf t) i) + 4096 \<le> unat M"
    if "i < bm_bits (bit_of pf t)" for pf i
    using init_frames_in_memory [OF assms(3), of i] that t(3,4) by (cases pf) (simp_all add: bit_of_def mem_pool_def)
  have same: "bit_of pf s' = bit_of pf t" "mem_pool pf s' = mem_pool pf t" "heap_bits s' = heap_bits t" "mem s' = mem t"
    "kernel_vaddr s' = kernel_vaddr t" "tasks s' = tasks s" "stk s' = stk s" "translate s' v = translate s v" for pf v
    using t(8-11) by (simp_all add: s'_def put_str_def bit_of_def mem_pool_def heap_bits_def translate_def split: pool_flags.split)
  show ?thesis
    by (rule exI [of _ s'], intro conjI allI impI) (simp_all only: run' inv free frames same t(7))
qed

lemma mem_init_overruns:
  assumes "vload32 0xb00 s = Inr M" "running_thread s = 0xc009e000" "\<not> bitmaps_fit M 0xc009e000"
  shows "mem_init s = Inl (Out_Of_Bounds ''pool_bitmap'')"
proof -
  let ?s = "put_str (''mem_init start.'' @ [CHR 0x0a]) s"
  have run: "0xc009e000 = running_thread ?s" using assms(2) by (simp add: put_str_def running_thread_def)
  have load: "vload32 0xb00 ?s = Inr M" using assms(1) by (simp add: vload32_def put_str_def translate_def split: option.splits)
  show ?thesis
    unfolding mem_init_def Let_def load by (simp only: bindE_Inr bindE_Inl mem_pool_init_overruns [OF assms(3) run])
qed

section \<open>Properties\<close>

text \<open>
  C13: \<open>page_table_add\<close> on an unmapped address outside the window and a frame that is not free returns
  and maps the page to the frame. Every other page outside the window translates as before (but for the
  page that shares the entry through the directory entries 0 and 768), and no free frame is mapped.
  It holds when the page table exists and when it has to be made from a frame of the kernel pool.
\<close>

theorem page_table_add_maps:
  assumes "vm_core s" "\<not> in_window v" "v \<noteq> NULL" "translate s v = None" "page_aligned f" "f \<noteq> NULL" "f \<notin> all_free s"
    "present (pde_at s v) \<or> free_idx (bit_of PF_KERNEL s) (mem s) \<noteq> {}"
  shows "\<exists>s'. page_table_add v f s = Inr s' \<and> vm_core s' \<and> maps_page v f s s'"
proof (cases "present (pde_at s v)")
  case True
  then obtain loc where "pte_loc (pmem s) (cr3 s) v = Some loc" by (auto simp: pte_loc_def)
  from add_present [OF assms(1-7) this] show ?thesis by blast
next
  case False
  with assms show ?thesis using add_absent [of s v f] by metis
qed

theorem page_table_add_maps_witness:
  "\<exists>s s'. mem_pool_init 0x2000000 (mems0 nodes_ready) = Inr s \<and> page_table_add 0x8048000 0xb8000 s = Inr s' \<and>
     translate s 0x8048123 = None \<and> translate s' 0x8048123 = Some 0xb8123"
proof -
  obtain s where s: "mem_pool_init 0x2000000 (mems0 nodes_ready) = Inr s" "vm_inv s"
    "kernel_pool s = init_kernel_pool 0x2000000" "user_pool s = init_user_pool 0x2000000"
    "free_idx (bit_of PF_KERNEL s) (mem s) = {..<bm_bits (bit_of PF_KERNEL s)}"
    "pmem s = pm0" "cr3 s = 0x100000"
    using mem_pool_init_vm_inv [OF boot_tables0, of "0x2000000" nodes_ready] fit0(1) by (metis mems0_simps(1,2) running_mems0)
  have idx: "didx 0x8048000 = 32" "didx 0x8048123 = 32"
    by (simp_all add: unat_pde_idx dir_idx_def)
  then have pde: "\<not> present (pm0 (pde_slot 0x100000 0x8048000))" "\<not> present (pm0 (pde_slot 0x100000 0x8048123))"
    by (simp_all add: pde0_present del: drop_bit_numeral_bit0)
  then have tr: "translate s 0x8048000 = None" "translate s 0x8048123 = None"
    by (simp_all add: translate_def s(6,7) walk_def Let_def)
  have ne: "free_idx (bit_of PF_KERNEL s) (mem s) \<noteq> {}"
    using s(5) by (simp add: bit_of_def mem_pool_def s(3) bm_bits_def init_kernel_pool_def lengths_32mb lessThan_empty_iff)
  have "2097152 \<le> unat f" if "f \<in> all_free s" for f
    using that frames_above [of _ "0x2000000"] by (auto simp: all_free_def free_frames_def free_idx_def s(3,4))
  from this [of "0xb8000"] have "0xb8000 \<notin> all_free s" by auto
  moreover have "\<not> in_window 0x8048000" using idx by (simp add: in_window_didx)
  moreover have "vm_core s" using s(2) by (simp add: vm_inv_def)
  ultimately obtain s' where s': "page_table_add 0x8048000 0xb8000 s = Inr s'" "maps_page 0x8048000 0xb8000 s s'"
    using page_table_add_maps [of s "0x8048000" "0xb8000"] tr(1) ne by (auto simp: page_aligned_def)
  have "(0x8048123 :: u32) AND 0xfffff000 = 0x8048000 AND 0xfffff000" by simp
  with s'(2) have "translate s' 0x8048123 = Some (0xb8000 + (0x8048123 AND 0xfff))" unfolding maps_page_def by blast
  with s(1) s'(1) tr(2) show ?thesis by auto
qed

text \<open>
  C4: \<open>get_kernel_pages\<close> for more than 0 and fewer than 3840 pages, with \<open>c\<close> free frames and a run of \<open>c\<close> free
  addresses, returns the virtual address of the first fit. The pages of the run are mapped to \<open>c\<close> distinct frames
  that were free, are cleared, and are no longer free. Any address whose page has the same entry in the page
  tables as a page of the run shows the same frame; these are the low addresses that share the first table of
  the kernel through the directory entries 0 and 768. Every other page outside the window of the page tables keeps
  its translation, and the invariant of the memory holds again.
\<close>

theorem get_kernel_pages_allocates:
  assumes "vm_inv s" "0 < c" "c < 3840" "unat c \<le> card (free_idx (bit_of PF_KERNEL s) (mem s))"
    "first_fit (\<lambda>i. \<not> bm_used (mem s) (vaddr_bitmap (kernel_vaddr s)) i) (heap_bits s) (unat c) = Some k"
  shows "\<exists>fs s'. get_kernel_pages c s = Inr (heap_page s k, s') \<and> vm_inv s' \<and> pages_mapped k fs s s' \<and>
    (\<forall>j < unat c. \<forall>w. pte_loc (pmem s) (cr3 s) w = pte_loc (pmem s) (cr3 s) (heap_page s (k + j)) \<longrightarrow>
       translate s' w = Some (pool_frame (kernel_pool s) (fs ! j) + (w AND 0xfff))) \<and>
    length fs = unat c \<and> distinct fs \<and> set fs \<subseteq> free_idx (bit_of PF_KERNEL s) (mem s) \<and>
    free_idx (bit_of PF_KERNEL s) (mem s') = free_idx (bit_of PF_KERNEL s) (mem s) - set fs \<and>
    free_idx (vaddr_bitmap (kernel_vaddr s)) (mem s') = free_idx (vaddr_bitmap (kernel_vaddr s)) (mem s) - {k..<k + unat c} \<and>
    (\<forall>a. a AND 0xfffff000 \<in> heap_page s ` {k..<k + unat c} \<longrightarrow> mem s' a = 0 \<and> stk s' a = 0 \<and> tasks s' a = zero_task)"
proof -
  obtain fs t s' where r: "get_kernel_pages c s = Inr (heap_page s k, s')" "vm_inv s'"
    "length fs = unat c" "distinct fs" "set fs \<subseteq> free_idx (bit_of PF_KERNEL s) (mem s)"
    "free_idx (bit_of PF_KERNEL s) (mem s') = free_idx (bit_of PF_KERNEL s) (mem s) - set fs"
    "free_idx (vaddr_bitmap (kernel_vaddr s)) (mem s') = free_idx (vaddr_bitmap (kernel_vaddr s)) (mem s) - {k..<k + unat c}"
    "pages_mapped k fs s s'" "wiped (heap_page s ` {k..<k + unat c}) t s'" "cr3 t = cr3 s" "k + unat c \<le> heap_bits s"
    using get_kernel_pages_maps [OF assms] by (metis mems_upd_cr3)
  have cr3: "cr3 s' = cr3 s" using r(10) wiped_frame(1) [OF r(9)] by simp
  have aka: "translate s' w = Some (pool_frame (kernel_pool s) (fs ! j) + (w AND 0xfff))"
    if "j < unat c" "pte_loc (pmem s) (cr3 s) w = pte_loc (pmem s) (cr3 s) (heap_page s (k + j))" for j w
  proof (rule pages_mapped_alias [OF assms(1) r(8) _ _ cr3 that(2)])
    show "j < length fs" "k + length fs \<le> heap_bits s" "fs ! j \<in> free_idx (bit_of PF_KERNEL s) (mem s)"
      using that(1) r(3,5,11) nth_mem [of j fs] by auto
  qed
  show ?thesis
    using r(1-8) aka wiped_frame(4,5,7) [OF r(9)] by (intro exI [of _ fs] exI [of _ s']) (simp add: zero_in_def)
qed

theorem get_kernel_pages_allocates_witness:
  "\<exists>s s'. mem_pool_init 0x2000000 (mems0 nodes_ready) = Inr s \<and> get_kernel_pages 2 s = Inr (0xc0100000, s') \<and> vm_inv s' \<and>
     (\<exists>fs. distinct fs \<and> length fs = 2 \<and> pages_mapped 0 fs s s')"
proof -
  obtain s where s: "mem_pool_init 0x2000000 (mems0 nodes_ready) = Inr s" "vm_inv s" "heap_page s 0 = 0xc0100000"
    "heap_bits s = 8 * unat (kbm_length 0x2000000)" "free_idx (bit_of PF_KERNEL s) (mem s) = {..<8 * unat (kbm_length 0x2000000)}"
    "free_idx (vaddr_bitmap (kernel_vaddr s)) (mem s) = {..<heap_bits s}"
    using init_ready [OF fit0(1), of nodes_ready] by metis
  have "first_fit (\<lambda>i. \<not> bm_used (mem s) (vaddr_bitmap (kernel_vaddr s)) i) (heap_bits s) (unat (2 :: u32)) = Some 0"
    using first_fit_all_free [of "vaddr_bitmap (kernel_vaddr s)" "mem s" 2] s(4,6) by (simp add: lengths_32mb heap_bits_def)
  from get_kernel_pages_allocates [OF s(2) _ _ _ this] s show ?thesis by (auto simp: lengths_32mb)
qed

text \<open>
  C38: \<open>get_kernel_pages\<close> for more than 0 and fewer than 3840 pages when the kernel pool has fewer than \<open>c\<close> free
  frames. With a run of \<open>c\<close> free addresses it returns \<open>NULL\<close> without rolling back: all the frames that were left
  are taken, and the \<open>c\<close> addresses stay marked. Without such a run it does not notice that \<open>vaddr_get\<close> failed:
  it returns \<open>NULL\<close> with nothing taken if no frame is left at all, and otherwise panics in \<open>page_table_add\<close>.
\<close>

theorem get_kernel_pages_leaks:
  assumes "vm_inv s" "0 < c" "c < 3840" "card (free_idx (bit_of PF_KERNEL s) (mem s)) < unat c"
  shows "case first_fit (\<lambda>i. \<not> bm_used (mem s) (vaddr_bitmap (kernel_vaddr s)) i) (heap_bits s) (unat c) of
      Some k \<Rightarrow> \<exists>s'. get_kernel_pages c s = Inr (NULL, s') \<and> free_idx (bit_of PF_KERNEL s) (mem s') = {} \<and>
        free_idx (vaddr_bitmap (kernel_vaddr s)) (mem s') = free_idx (vaddr_bitmap (kernel_vaddr s)) (mem s) - {k..<k + unat c}
    | None \<Rightarrow> if free_idx (bit_of PF_KERNEL s) (mem s) = {} then \<exists>v. get_kernel_pages c s = Inr (NULL, s\<lparr>screen := v\<rparr>)
        else get_kernel_pages c s = Inl (Panic ''kernel/memory.c'' 101 ''page_table_add'' ''_vaddr != NULL'')"
proof (cases "first_fit (\<lambda>i. \<not> bm_used (mem s) (vaddr_bitmap (kernel_vaddr s)) i) (heap_bits s) (unat c)")
  case None
  then show ?thesis using get_kernel_pages_no_run [OF assms(1-3)] by simp
next
  case (Some k)
  then show ?thesis using get_kernel_pages_short [OF assms] by simp
qed

theorem get_kernel_pages_leaks_witness:
  "\<exists>s s1 s'. mem_pool_init 0x210000 (mems0 nodes_ready) = Inr s \<and> palloc (kernel_pool s) s = Inr (0x200000, s1) \<and>
     get_kernel_pages 8 s1 = Inr (NULL, s') \<and> free_idx (bit_of PF_KERNEL s1) (mem s') = {}"
proof -
  obtain s where s: "mem_pool_init 0x210000 (mems0 nodes_ready) = Inr s" "vm_inv s"
    "heap_bits s = 8 * unat (kbm_length 0x210000)" "free_idx (bit_of PF_KERNEL s) (mem s) = {..<8 * unat (kbm_length 0x210000)}"
    "free_idx (vaddr_bitmap (kernel_vaddr s)) (mem s) = {..<heap_bits s}"
    "kernel_pool s = init_kernel_pool 0x210000"
    using init_ready [OF fit0(2), of nodes_ready] by metis
  let ?s1 = "taken PF_KERNEL 0 s"
  have core: "vm_core s" and heap: "heap_ok s" using s(2) by (simp_all add: vm_inv_def)
  have free: "free_idx (bit_of PF_KERNEL s) (mem s) = {..<8}" using s(4) by (simp add: length_small)
  then have 0: "0 \<in> free_idx (bit_of PF_KERNEL s) (mem s)" by simp
  note f = free_idx_run [OF core 0 refl]
  have "Min {..<8 :: nat} = 0" by (intro Min_eqI) auto
  then have pa: "palloc (kernel_pool s) s = Inr (0x200000, ?s1)"
    using palloc_eq [OF vm_core_pool [OF core, of PF_KERNEL], of s] free
    by (simp add: bit_of_def mem_pool_def taken_def pool_frame_def s(6) init_kernel_pool_def used_mem_def PG_SIZE_def Let_def lessThan_empty_iff)
  have "vm_core ?s1" using vm_core_taken [OF core, of 0 PF_KERNEL] 0 by (simp add: free_idx_def)
  then have inv: "vm_inv ?s1"
    using heap f(3) by (simp add: vm_inv_def heap_ok_geometry heap_geometry_def)
  have "first_fit (\<lambda>i. \<not> bm_used (mem ?s1) (vaddr_bitmap (kernel_vaddr s)) i) (heap_bits s) 8 = Some 0"
    using f(3) first_fit_all_free [of "vaddr_bitmap (kernel_vaddr s)" "mem ?s1" 8] s(3,5)
    by (simp add: heap_bits_def length_small)
  then show ?thesis
    using get_kernel_pages_leaks [OF inv, of 8] f(3,4) free s(1) pa by auto
qed

text \<open>
  C20: \<open>mem_init\<close> on the page tables of the loader, in the main thread, with the size \<open>M\<close> of the memory at 0xb00 and
  at least 2 MB. If the three bitmaps end at or before the page 0xc009e000 of the main thread, as they do up to
  343 MB, all frames of both pools lie behind the first 2 MB and inside the memory, all of them and all addresses of the
  heap are free, the invariant of the memory holds, and the control blocks, the stacks and the translation of every
  address are as before. If they do not, the initialisation runs over the page of the main thread.
\<close>

theorem mem_init_establishes:
  assumes "boot_tables s" "vload32 0xb00 s = Inr M" "used_mem \<le> M" "running_thread s = 0xc009e000"
  shows "(if 2 * unat (kbm_length M) + unat (ubm_length M) \<le> 0x4000 then
      \<exists>s'. mem_init s = Inr s' \<and> vm_inv s' \<and>
      (\<forall>pf. free_idx (bit_of pf s') (mem s') = {..<bm_bits (bit_of pf s')} \<and>
         (\<forall>i < bm_bits (bit_of pf s'). 0x200000 \<le> unat (pool_frame (mem_pool pf s') i) \<and>
            unat (pool_frame (mem_pool pf s') i) + 4096 \<le> unat M)) \<and>
      free_idx (vaddr_bitmap (kernel_vaddr s')) (mem s') = {..<heap_bits s'} \<and>
      tasks s' = tasks s \<and> stk s' = stk s \<and> (\<forall>v. translate s' v = translate s v)
    else mem_init s = Inl (Out_Of_Bounds ''pool_bitmap'')) \<and>
    (M \<le> 0x15700000 \<longrightarrow> 2 * unat (kbm_length M) + unat (ubm_length M) \<le> 0x4000)"
proof (cases "bitmaps_fit M 0xc009e000")
  case True
  then have "2 * unat (kbm_length M) + unat (ubm_length M) \<le> 0x4000" by (simp only: bitmaps_fit_main)
  then show ?thesis using mem_init_fits [OF assms True] by simp
next
  case False
  then have "\<not> 2 * unat (kbm_length M) + unat (ubm_length M) \<le> 0x4000" by (simp only: bitmaps_fit_main not_False_eq_True)
  moreover have "\<not> M \<le> 0x15700000" using False bitmaps_fit_343 [OF assms(3)] by blast
  ultimately show ?thesis using mem_init_overruns [OF assms(2,4) False] by simp
qed

theorem mem_init_establishes_witness:
  "\<exists>s'. mem_init (mems0 nodes_ready) = Inr s' \<and> vm_inv s' \<and> (\<forall>i < bm_bits (bit_of PF_KERNEL s'). i \<in> free_idx (bit_of PF_KERNEL s') (mem s'))"
proof -
  have "used_mem \<le> 0x2000000" by (simp add: used_mem_def PG_SIZE_def)
  note e = mem_init_establishes [OF boot_tables0 size_word0 this running_mems0, of nodes_ready]
  have "2 * unat (kbm_length 0x2000000) + unat (ubm_length 0x2000000) \<le> 0x4000" by (simp add: lengths_32mb)
  then obtain s' where s': "mem_init (mems0 nodes_ready) = Inr s'" "vm_inv s'"
    "\<forall>pf. free_idx (bit_of pf s') (mem s') = {..<bm_bits (bit_of pf s')}"
    using e by (simp only: if_True) blast
  then have "i \<in> free_idx (bit_of PF_KERNEL s') (mem s')" if "i < bm_bits (bit_of PF_KERNEL s')" for i using that by simp
  with s' show ?thesis by blast
qed

text \<open>
  C31: \<open>addr_v2p\<close>, which reads the entry of the page through the recursive mapping, returns the physical
  address to which the processor translates any mapped address.
\<close>

theorem addr_v2p_translates:
  assumes "tables_ok (pmem s) (cr3 s)" "translate s v = Some p"
  shows "addr_v2p v s = Inr p"
proof -
  have "self_mapped (pmem s) (cr3 s)" using assms(1) by (simp add: tables_ok_def)
  from addr_v2p_walk [OF this] assms(2) show ?thesis
    by (auto simp: translate_def walk_pte_loc split: option.splits if_splits)
qed

theorem addr_v2p_translates_witness: "addr_v2p 0xb00 (mems0 nodes_ready) = Inr 0xb00"
proof -
  have "translate (mems0 nodes_ready) 0xb00 = Some 0xb00"
    using walk_b00 by (simp add: translate_def)
  then show ?thesis using addr_v2p_translates [of "mems0 nodes_ready"] tables_ok0 by simp
qed

end
