(* ===== verification/Single_Page.thy ===== *)
theory Single_Page
  imports Memory_Init
begin

text \<open>
  \<open>get_a_page\<close> of kernel/memory.c: a page at an address that the caller chooses, taken under the lock of
  the pool, with the case in which no frame is left.
\<close>

section \<open>Pages at given addresses\<close>

lemma claim_page_kernel:
  assumes "vm_core s" "heap_geometry s" "0 < k" "k < heap_bits s" "pgdir (tasks s (running_thread s)) = NULL"
  shows "claim_page PF_KERNEL (heap_page s k) s = Inr (marked k 1 s)"
proof -
  let ?b = "vaddr_bitmap (kernel_vaddr s)"
  have wf: "bm_wf ?b" using vm_core_bitmap(1) [OF assms(1) bit_of_in(2)] .
  have lim: "k < 1048576" using assms(2,4) by (simp add: heap_geometry_def)
  then have k: "unat (of_nat k :: u32) = k" "unat (of_nat k * PG_SIZE) = 4096 * k"
    by (simp_all add: unat_of_nat_u32 unat_word_ariths PG_SIZE_def mult.commute)
  have "(heap_page s k - vaddr_start (kernel_vaddr s)) div PG_SIZE = of_nat k * PG_SIZE div PG_SIZE"
    by (simp add: heap_page_def)
  also have "\<dots> = of_nat k"
    using k by (simp add: word_unat_eq_iff unat_div) (simp add: PG_SIZE_def)
  finally have idx: "(heap_page s k - vaddr_start (kernel_vaddr s)) div PG_SIZE = of_nat k" .
  have "sint (of_nat k :: u32) = int k" using k(1) lim sint_u32_small [of "of_nat k"] by simp
  then have "0 <s (of_nat k :: u32)" using assms(3) by (simp add: word_sless_alt)
  moreover have "bitmap_set ?b (of_nat k) 1 s = Inr (marked k 1 s)"
    using bitmap_set_eq [OF wf, of k True s] assms(4) by (simp add: marked_def heap_bits_def)
  ultimately show ?thesis
    using assms(5) by (simp add: claim_page_def Let_def idx)
qed

text \<open>The state in which the running thread holds the lock of a pool.\<close>

definition holding :: "addr \<Rightarrow> 'a syncs_scheme \<Rightarrow> 'a syncs_scheme" where
  "holding l s = s\<lparr>sem_value := (sem_value s)(lock_sema l := 0),
     lock_holder := (lock_holder s)(l := running_thread s), lock_repeat := (lock_repeat s)(l := 1)\<rparr>"

lemma holding_simps [simp]:
  "running_thread (holding l s) = running_thread s" "mem (holding l s) = mem s" "tasks (holding l s) = tasks s"
  "elems (holding l s) = elems s" "lock_holder (holding l s) l = running_thread s"
  "lock_repeat (holding l s) l = 1" "sem_value (holding l s) (lock_sema l) = 0"
  by (simp_all add: holding_def running_thread_def)

lemma holding_vm [simp]:
  "translate (holding l s) v = translate s v" "kernel_pool (holding l s) = kernel_pool s"
  "kernel_vaddr (holding l s) = kernel_vaddr s" "bit_of pf (holding l s) = bit_of pf s" "pmem (holding l s) = pmem s"
  "cr3 (holding l s) = cr3 s" "mem_pool pf (holding l s) = mem_pool pf s"
  "heap_page (holding l s) k = heap_page s k" "heap_bits (holding l s) = heap_bits s"
  "heap_geometry (holding l s) = heap_geometry s" "vm_core (holding l s) = vm_core s"
  by (simp_all add: holding_def translate_def bit_of_def mem_pool_def heap_page_def heap_bits_def heap_geometry_def
      vm_core_def pool_bitmaps_def all_free_def split: pool_flags.split)

lemma lock_acquire_holding: "lock_free l s \<Longrightarrow> lock_acquire l s = Inr (Finished, holding l s)"
  using lock_acquire_free [of s l] by (simp add: lock_free_def holding_def)

text \<open>
  C32: \<open>get_a_page\<close> for a kernel thread, with the lock of the kernel pool free, on a free page of the heap
  other than the first: if a frame is free it returns the address, mapped to a frame that was free, with
  the lock free again.
\<close>

theorem get_a_page_kernel:
  assumes "vm_inv s" "pgdir (tasks s (running_thread s)) = NULL" "lock_free kernel_pool_lock s"
    "0 < k" "k \<in> free_idx (vaddr_bitmap (kernel_vaddr s)) (mem s)" "free_idx (bit_of PF_KERNEL s) (mem s) \<noteq> {}"
  shows "\<exists>i s'. get_a_page PF_KERNEL (heap_page s k) s = Inr (Returns (heap_page s k), s') \<and>
    lock_free kernel_pool_lock s' \<and> i \<in> free_idx (bit_of PF_KERNEL s) (mem s) \<and>
    maps_page (heap_page s k) (pool_frame (kernel_pool s) i) s s' \<and> vm_core s'"
proof -
  let ?h = "holding kernel_pool_lock s" and ?v = "heap_page s k"
  have core: "vm_core s" and heap: "heap_ok s" using assms(1) by (simp_all add: vm_inv_def)
  then have geo: "heap_geometry s" by (simp add: heap_ok_geometry)
  have k: "k < heap_bits s" "k + 1 \<le> heap_bits s" "translate s ?v = None"
    using assms(5) heap by (simp_all add: free_idx_def heap_bits_def heap_ok_geometry)
  let ?c = "marked k 1 ?h"
  have core1: "vm_core ?c" using vm_core_marked [of ?h k 1] core k(2) by simp
  note facts = heap_page_facts [OF geo k(1)]
  have free: "free_idx (bit_of PF_KERNEL ?h) (mem ?c) = free_idx (bit_of PF_KERNEL s) (mem s)"
    using free_idx_marked(1) [of ?h k 1 PF_KERNEL] core k(2) by simp
  from palloc_pool_cases [OF core1, of PF_KERNEL] assms(6) free obtain i where i:
    "i \<in> free_idx (bit_of PF_KERNEL s) (mem s)" "i < bm_bits (bit_of PF_KERNEL ?c)"
    "palloc (kernel_pool s) ?c = Inr (pool_frame (kernel_pool s) i, taken PF_KERNEL i ?c)"
    "page_aligned (pool_frame (kernel_pool s) i)" "pool_frame (kernel_pool s) i \<noteq> NULL"
    by (auto simp: mem_pool_def)
  let ?f = "pool_frame (kernel_pool s) i" and ?t = "taken PF_KERNEL i ?c"
  obtain loc where loc: "pte_loc (pmem s) (cr3 s) ?v = Some loc" using facts(6) by (auto simp: pte_loc_def)
  let ?u = "?t\<lparr>pmem := (pmem s)(loc := ?f OR 7)\<rparr>"
  have add: "page_table_add ?v ?f ?t = Inr ?u" "vm_core ?u" "maps_page ?v ?f ?t ?u"
    using add_present [of ?t ?v ?f loc] vm_core_taken [OF core1 i(2)] facts(1,2) k(3) i(4,5) loc
      all_free_taken [OF core1 i(2)] by (simp_all add: mem_pool_def)
  let ?s' = "?u\<lparr>sem_value := (sem_value ?u)(lock_sema kernel_pool_lock := 1),
    lock_holder := (lock_holder ?u)(kernel_pool_lock := NULL), lock_repeat := (lock_repeat ?u)(kernel_pool_lock := 0)\<rparr>"
  have same: "running_thread ?u = running_thread s" "elems ?u = elems s" "lock_holder ?u kernel_pool_lock = running_thread s"
    "lock_repeat ?u kernel_pool_lock = 1" "sem_value ?u (lock_sema kernel_pool_lock) = 0"
    by (simp_all add: taken_def marked_def running_thread_def holding_def)
  have rel: "lock_release kernel_pool_lock ?u = Inr ?s'"
    using assms(3) same by (intro lock_release_no_waiter) (simp_all add: lock_free_def)
  have claim: "claim_page PF_KERNEL ?v ?h = Inr ?c"
    using claim_page_kernel [of ?h k] core geo assms(2,4) k(1) by simp
  have "get_a_page PF_KERNEL ?v s = Inr (Returns ?v, ?s')"
    using lock_acquire_holding [OF assms(3)] claim i(3,5) add(1) rel
    by (simp add: get_a_page_def get_a_page_body_def pool_lock_def mem_pool_def)
  moreover have "maps_page ?v ?f s ?s'"
    using add(3) by (simp add: maps_page_def translate_def)
  moreover have "vm_core ?s'" using add(2) by (simp add: vm_core_def pool_bitmaps_def all_free_def)
  moreover have "lock_free kernel_pool_lock ?s'" using assms(3) same by (simp add: lock_free_def)
  ultimately show ?thesis using i(1) by blast
qed

theorem get_a_page_kernel_witness:
  "\<exists>s s'. mem_pool_init 0x2000000 (mems0 nodes_ready) = Inr s \<and>
     get_a_page PF_KERNEL 0xc0101000 s = Inr (Returns 0xc0101000, s') \<and> lock_free kernel_pool_lock s'"
proof -
  obtain s where s: "mem_pool_init 0x2000000 (mems0 nodes_ready) = Inr s" "vm_inv s"
    "heap_bits s = 8 * unat (kbm_length 0x2000000)" "free_idx (bit_of PF_KERNEL s) (mem s) = {..<8 * unat (kbm_length 0x2000000)}"
    "free_idx (vaddr_bitmap (kernel_vaddr s)) (mem s) = {..<heap_bits s}"
    "lock_free kernel_pool_lock s" "tasks s = tasks0" "running_thread s = 0xc009e000" "heap_page s 1 = 0xc0101000"
    using init_ready [OF fit0(1), of nodes_ready] by metis
  have "pgdir (tasks s (running_thread s)) = NULL" by (simp add: s(7,8) tasks0_def started_task_def zero_task_def)
  from get_a_page_kernel [OF s(2) this s(6), of 1] s show ?thesis
    by (auto simp: lengths_32mb lessThan_empty_iff)
qed

text \<open>Taking frame after frame empties the pool.\<close>

lemma drained:
  "vm_inv s \<Longrightarrow> \<exists>m. vm_inv (s\<lparr>mem := m\<rparr>) \<and> free_idx (bit_of PF_KERNEL s) m = {} \<and>
     free_idx (vaddr_bitmap (kernel_vaddr s)) m = free_idx (vaddr_bitmap (kernel_vaddr s)) (mem s)"
proof (induction "card (free_idx (bit_of PF_KERNEL s) (mem s))" arbitrary: s)
  case 0
  have "finite (free_idx (bit_of PF_KERNEL s) (mem s))" by (simp add: free_idx_def)
  with 0 show ?case by (intro exI [of _ "mem s"]) simp
next
  case (Suc n)
  then obtain i where i: "i \<in> free_idx (bit_of PF_KERNEL s) (mem s)" by (metis card.empty equals0I nat.distinct(1))
  have core: "vm_core s" and heap: "heap_ok s" using Suc.prems by (simp_all add: vm_inv_def)
  note f = free_idx_run [OF core i refl]
  have inv: "vm_inv (taken PF_KERNEL i s)"
    using vm_core_taken [OF core, of i PF_KERNEL] i heap f(3)
    by (simp add: vm_inv_def heap_ok_geometry heap_geometry_def free_idx_def)
  have "n = card (free_idx (bit_of PF_KERNEL (taken PF_KERNEL i s)) (mem (taken PF_KERNEL i s)))"
    using f(4) Suc.hyps(2) by simp
  from Suc.hyps(1) [OF this inv] f(3) show ?case by (simp add: taken_def)
qed

text \<open>
  C39: If the kernel pool has no free frame, the same call returns \<open>NULL\<close> and leaves the lock of the pool
  held by the calling thread.
\<close>

theorem get_a_page_keeps_lock:
  assumes "vm_inv s" "pgdir (tasks s (running_thread s)) = NULL" "lock_free kernel_pool_lock s"
    "0 < k" "k \<in> free_idx (vaddr_bitmap (kernel_vaddr s)) (mem s)" "free_idx (bit_of PF_KERNEL s) (mem s) = {}"
  shows "\<exists>s'. get_a_page PF_KERNEL (heap_page s k) s = Inr (Returns NULL, s') \<and>
    lock_holder s' kernel_pool_lock = running_thread s' \<and> lock_repeat s' kernel_pool_lock = 1 \<and>
    sem_value s' (lock_sema kernel_pool_lock) = 0"
proof -
  let ?h = "holding kernel_pool_lock s" and ?c = "marked k 1 (holding kernel_pool_lock s)"
  have core: "vm_core s" and geo: "heap_geometry s" using assms(1) by (simp_all add: vm_inv_def heap_ok_geometry)
  have k: "k < heap_bits s" "k + 1 \<le> heap_bits s" using assms(5) by (simp_all add: free_idx_def heap_bits_def)
  have core1: "vm_core ?c" using vm_core_marked [of ?h k 1] core k(2) by simp
  have "free_idx (bit_of PF_KERNEL ?h) (mem ?c) = {}"
    using free_idx_marked(1) [of ?h k 1 PF_KERNEL] core k(2) assms(6) by simp
  then have "palloc (mem_pool PF_KERNEL ?c) ?c = Inr (NULL, put_str (''palloc failed'' @ [CHR 0x0a]) ?c)"
    using palloc_eq [OF vm_core_pool [OF core1, of PF_KERNEL], of ?c] by (simp add: bit_of_def)
  moreover have "claim_page PF_KERNEL (heap_page s k) ?h = Inr ?c"
    using claim_page_kernel [of ?h k] core geo assms(2,4) k(1) by simp
  ultimately show ?thesis
    using lock_acquire_holding [OF assms(3)]
    by (simp add: get_a_page_def get_a_page_body_def pool_lock_def put_str_def marked_def running_thread_def holding_def)
qed

theorem get_a_page_keeps_lock_witness:
  "\<exists>(s :: mems) s'. vm_inv s \<and> running_thread s = 0xc009e000 \<and> get_a_page PF_KERNEL 0xc0101000 s = Inr (Returns NULL, s') \<and>
     lock_holder s' kernel_pool_lock = running_thread s'"
proof -
  obtain s :: mems where s: "vm_inv s" "heap_bits s = 8 * unat (kbm_length 0x2000000)"
    "free_idx (vaddr_bitmap (kernel_vaddr s)) (mem s) = {..<heap_bits s}"
    "lock_free kernel_pool_lock s" "tasks s = tasks0" "running_thread s = 0xc009e000" "heap_page s 1 = 0xc0101000"
    using init_ready [OF fit0(1), of nodes_ready] by metis
  obtain m where m: "vm_inv (s\<lparr>mem := m\<rparr>)" "free_idx (bit_of PF_KERNEL s) m = {}"
    "free_idx (vaddr_bitmap (kernel_vaddr s)) m = free_idx (vaddr_bitmap (kernel_vaddr s)) (mem s)"
    using drained [OF s(1)] by blast
  let ?t = "s\<lparr>mem := m\<rparr>"
  have run: "running_thread ?t = 0xc009e000" using s(6) by (simp add: running_thread_def)
  have "pgdir (tasks ?t (running_thread ?t)) = NULL" by (simp add: s(5) run tasks0_def started_task_def zero_task_def)
  moreover have "lock_free kernel_pool_lock ?t" using s(4,6) run by (simp add: lock_free_def)
  ultimately obtain s' where "get_a_page PF_KERNEL 0xc0101000 ?t = Inr (Returns NULL, s')"
    "lock_holder s' kernel_pool_lock = running_thread s'"
    using get_a_page_keeps_lock [OF m(1), of 1] m(2,3) s(2,3,7) by (auto simp: lengths_32mb)
  with m(1) run show ?thesis by blast
qed

end
