(* ===== verification/Thread_Start.thy ===== *)
theory Thread_Start
  imports Single_Page
begin

text \<open>
  \<open>thread_start\<close> of thread/thread.c: a page for the control block and the stack, its initialisation,
  and the two queues. The new thread is at the end of the ready queue with the stack frame from which
  \<open>switch_to\<close> enters its function.
\<close>

section \<open>Operation\<close>

definition thread_start ::
    "u8 list \<Rightarrow> u32 \<Rightarrow> u32 \<Rightarrow> u32 \<Rightarrow> 'a mems_scheme \<Rightarrow> err + addr \<times> 'a mems_scheme" where
  "thread_start nm prio function func_arg s =
     bindE (get_kernel_pages 1 s) (\<lambda>(thread, s).
     bindE (init_thread thread nm prio s) (\<lambda>s.
     let s = thread_create thread function func_arg s
     in bindE (elem_find thread_ready_list (general_tag thread) s) (\<lambda>found.
        ASSERT (\<not> found) ''thread/thread.c'' 78 ''thread_start''
          ''!elem_find(&thread_ready_list, &thread->general_tag)''
       (bindE (elem_find thread_all_list (general_tag thread) s) (\<lambda>found.
        ASSERT (\<not> found) ''thread/thread.c'' 79 ''thread_start''
          ''!elem_find(&thread_all_list, &thread->general_tag)''
       (bindE (list_append thread_ready_list (general_tag thread) s) (\<lambda>s.
        bindE (list_append thread_all_list (all_list_tag thread) s) (\<lambda>s.
        Inr (thread, s)))))))))"

section \<open>The queues\<close>

definition all_inv :: "'a threads_scheme \<Rightarrow> addr list \<Rightarrow> bool" where
  "all_inv s ts \<longleftrightarrow> is_list (elems s) thread_all_list (map all_list_tag ts) \<and> (\<forall>t \<in> set ts. page_aligned t)"

text \<open>The control blocks of all threads lie in mapped pages of the kernel part.\<close>

definition threads_mapped :: "'a paging_scheme \<Rightarrow> addr list \<Rightarrow> bool" where
  "threads_mapped s ts \<longleftrightarrow> (\<forall>t \<in> set ts. 0xc0000000 \<le> unat t \<and> \<not> in_window t \<and> translate s t \<noteq> None)"

abbreviation all_nodes :: "addr list \<Rightarrow> addr set" where
  "all_nodes ts \<equiv> set (list_nodes thread_all_list (map all_list_tag ts))"

lemma tag_page: "page_aligned t \<Longrightarrow> general_tag t AND 0xfffff000 = t" "page_aligned t \<Longrightarrow> all_list_tag t AND 0xfffff000 = t"
  using page_mask_in_page [of t 32] page_mask_in_page [of t 40] by (simp_all add: general_tag_def all_list_tag_def)

lemma tags_differ: "page_aligned t \<Longrightarrow> page_aligned u \<Longrightarrow> general_tag t \<noteq> all_list_tag u"
proof
  assume a: "page_aligned t" "page_aligned u" and e: "general_tag t = all_list_tag u"
  then have "t = u" using tag_page by metis
  with e show False by (simp add: general_tag_def all_list_tag_def)
qed

lemma queue_node_pages:
  "a \<in> set (list_nodes thread_ready_list []) \<union> set (list_nodes thread_all_list []) \<Longrightarrow> a AND 0xfffff000 = 0xc0006000"
  by (auto simp: set_list_nodes list_head_def list_tail_def thread_ready_list_def thread_all_list_def)

lemma queue_nodes_outside:
  assumes "page_aligned p" "p \<noteq> 0xc0006000" "\<forall>t \<in> set ts. page_aligned t" "p \<notin> set ts"
    "a \<in> ready_nodes ts \<or> a \<in> all_nodes ts"
  shows "a AND 0xfffff000 \<noteq> p"
proof -
  from assms(5) consider "a \<in> set (list_nodes thread_ready_list []) \<union> set (list_nodes thread_all_list [])"
    | t where "t \<in> set ts" "a = general_tag t \<or> a = all_list_tag t"
    by (auto simp: set_list_nodes)
  then show ?thesis
    using assms(2-4) queue_node_pages tag_page by cases (metis, metis)
qed

lemma all_tag_inj: "inj all_list_tag"
  by (simp add: inj_def all_list_tag_def)

lemma queues_separate:
  assumes "\<forall>t \<in> set rs \<union> set ts. page_aligned t"
  shows "ready_nodes rs \<inter> all_nodes ts = {}"
proof -
  let ?R = "set (list_nodes thread_ready_list [])" and ?A = "set (list_nodes thread_all_list [])"
  have "ready_nodes rs = ?R \<union> general_tag ` set rs" "all_nodes ts = ?A \<union> all_list_tag ` set ts"
    by (auto simp: set_list_nodes)
  moreover have "general_tag ` set rs \<inter> ?A = {}" "?R \<inter> all_list_tag ` set ts = {}"
    using assms tag_not_sentinel(3,6) by blast+
  moreover have "general_tag ` set rs \<inter> all_list_tag ` set ts = {}"
    using assms tags_differ by blast
  ultimately show ?thesis using lists_apart(1) by (simp add: Int_Un_distrib Int_Un_distrib2)
qed

lemma queues_after_wipe:
  assumes "ready_inv s rs" "all_inv s ts" "set rs \<subseteq> set ts" "page_aligned t" "t \<noteq> 0xc0006000" "t \<notin> set ts"
    "elems s' = zero_in {t} zero_elem (elems s)"
  shows "is_list (elems s') thread_ready_list (map general_tag rs)" "is_list (elems s') thread_all_list (map all_list_tag ts)"
    "general_tag t \<notin> ready_nodes rs \<union> all_nodes ts" "all_list_tag t \<notin> ready_nodes rs \<union> all_nodes ts"
proof -
  have al: "\<forall>u \<in> set ts. page_aligned u" "\<forall>u \<in> set rs. page_aligned u" "t \<notin> set rs"
    using assms(1-3,6) by (auto simp: all_inv_def ready_inv_def)
  have out: "a AND 0xfffff000 \<noteq> t" if "a \<in> ready_nodes rs \<union> all_nodes ts" for a
    using that queue_nodes_outside [OF assms(4,5) al(1) assms(6)] queue_nodes_outside [OF assms(4,5) al(2,3)] by blast
  then show "general_tag t \<notin> ready_nodes rs \<union> all_nodes ts" "all_list_tag t \<notin> ready_nodes rs \<union> all_nodes ts"
    using tag_page [OF assms(4)] by blast+
  have same: "elems s' a = elems s a" if "a \<in> ready_nodes rs \<union> all_nodes ts" for a
    using out [OF that] assms(7) by (simp add: zero_in_def)
  show "is_list (elems s') thread_ready_list (map general_tag rs)"
    by (rule lq.holds_frame [OF ready_list [OF assms(1)]]) (use same in auto)
  show "is_list (elems s') thread_all_list (map all_list_tag ts)"
    using assms(2) by (auto simp: all_inv_def intro: lq.holds_frame same)
qed

lemma enqueue_both:
  assumes "is_list (elems s) thread_ready_list (map general_tag rs)" "is_list (elems s) thread_all_list (map all_list_tag ts)"
    "general_tag t \<notin> ready_nodes rs \<union> all_nodes ts" "all_list_tag t \<notin> ready_nodes rs \<union> all_nodes ts"
    "page_aligned t" "\<forall>u \<in> set rs \<union> set ts. page_aligned u"
  obtains h1 h where "elem_find thread_ready_list (general_tag t) s = Inr False"
    "elem_find thread_all_list (general_tag t) s = Inr False" "elem_find thread_all_list (all_list_tag t) (s\<lparr>elems := h1\<rparr>) = Inr False"
    "list_append thread_ready_list (general_tag t) s = Inr (s\<lparr>elems := h1\<rparr>)"
    "list_append thread_all_list (all_list_tag t) (s\<lparr>elems := h1\<rparr>) = Inr (s\<lparr>elems := h\<rparr>)"
    "is_list h thread_ready_list (map general_tag (rs @ [t]))" "is_list h thread_all_list (map all_list_tag (ts @ [t]))"
    "\<forall>b. b \<notin> ready_nodes rs \<union> all_nodes ts \<union> {general_tag t, all_list_tag t} \<longrightarrow> h b = elems s b"
proof
  let ?g = "general_tag t" and ?a = "all_list_tag t"
  let ?h1 = "h_append thread_ready_list ?g (elems s)"
  let ?h = "h_append thread_all_list ?a ?h1"
  note nn = tag_not_sentinel [OF assms(5)]
  have sep: "ready_nodes rs \<inter> all_nodes ts = {}" using assms(6) by (rule queues_separate)
  have r1: "is_list ?h1 thread_ready_list (map general_tag rs @ [?g])"
    using assms(1,3) nn(2) by (intro lq.enq_last_holds) auto
  have a1: "is_list ?h1 thread_all_list (map all_list_tag ts)"
    using assms(1-3) sep by (intro lq.enq_last_other) auto
  show "elem_find thread_ready_list ?g s = Inr False"
    using elem_find_is_list [OF assms(1) nn(2)] assms(3) by (auto simp: set_list_nodes)
  show "elem_find thread_all_list ?g s = Inr False"
    using elem_find_is_list [OF assms(2) nn(2)] assms(3) by (auto simp: set_list_nodes)
  show "elem_find thread_all_list ?a (s\<lparr>elems := ?h1\<rparr>) = Inr False"
    using elem_find_is_list [of "s\<lparr>elems := ?h1\<rparr>", OF _ nn(5)] a1 assms(4) by (auto simp: set_list_nodes)
  show "list_append thread_ready_list ?g s = Inr (s\<lparr>elems := ?h1\<rparr>)"
    using assms(1) nn(2) by (rule list_append_run)
  show "list_append thread_all_list ?a (s\<lparr>elems := ?h1\<rparr>) = Inr (s\<lparr>elems := ?h\<rparr>)"
    using list_append_run [of "s\<lparr>elems := ?h1\<rparr>", OF _ nn(5)] a1 by simp
  show "\<forall>b. b \<notin> ready_nodes rs \<union> all_nodes ts \<union> {?g, ?a} \<longrightarrow> ?h b = elems s b"
    using append_frame [OF assms(1)] append_frame [OF a1] by (auto simp: h_append_def)
  show "is_list ?h thread_all_list (map all_list_tag (ts @ [t]))"
    using lq.enq_last_holds [OF a1 _ nn(5)] assms(4) by simp
  have "set (list_nodes thread_ready_list (map general_tag rs @ [?g])) = insert ?g (ready_nodes rs)"
    by (auto simp: set_list_nodes)
  then have "is_list ?h thread_ready_list (map general_tag rs @ [?g])"
    using sep assms(3,4) tags_differ [OF assms(5,5)] by (intro lq.enq_last_other [OF a1 r1]) auto
  then show "is_list ?h thread_ready_list (map general_tag (rs @ [t]))" by simp
qed

lemma vm_inv_objects:
  "vm_inv (s\<lparr>elems := h\<rparr>) = vm_inv s" "vm_inv (s\<lparr>tasks := ts\<rparr>) = vm_inv s" "vm_inv (s\<lparr>stk := st\<rparr>) = vm_inv s"
  by (simp_all add: vm_inv_def vm_core_def heap_ok_def pool_bitmaps_def all_free_def heap_bits_def heap_page_def translate_def)

lemma thread_create_fields:
  "\<exists>ts st. thread_create t f a s = s\<lparr>tasks := ts, stk := st\<rparr> \<and>
     (\<forall>u. u \<noteq> t \<longrightarrow> ts u = tasks s u) \<and> ts t = (tasks s t)\<lparr>self_kstack := self_kstack (tasks s t) - 432\<rparr>"
  by (simp add: thread_create_def upd_task_def Let_def sizeof_intr_stack_def sizeof_thread_stack_def)
     (intro exI conjI, rule refl, auto)

text \<open>The frame of a new thread is written inside its page.\<close>

lemma thread_create_stk:
  assumes "page_aligned t" "self_kstack (tasks s t) = t + PG_SIZE" "b AND 0xfffff000 \<noteq> t"
  shows "stk (thread_create t f a s) b = stk s b"
proof -
  have "b \<noteq> n + t" if "unat n < 4096" for n
    using assms(3) page_mask_in_page [OF assms(1) that] by (auto simp: add.commute)
  from this [of 3664] this [of 3668] this [of 3672] this [of 3676] this [of 3680] this [of 3684] this [of 3688] this [of 3692]
  show ?thesis
    using assms(2) by (simp add: thread_create_def upd_task_def Let_def sizeof_intr_stack_def sizeof_thread_stack_def PG_SIZE_def)
qed

section \<open>A new thread\<close>

definition system_inv :: "'a mems_scheme \<Rightarrow> addr list \<Rightarrow> addr list \<Rightarrow> bool" where
  "system_inv s rs ts \<longleftrightarrow> vm_inv s \<and> ready_inv s rs \<and> all_inv s ts \<and> set rs \<subseteq> set ts \<and>
     main_thread s \<in> set ts \<and> threads_mapped s ts"

lemma heap_page_in_range:
  assumes "vm_inv s" "first_fit (\<lambda>i. \<not> bm_used (mem s) (vaddr_bitmap (kernel_vaddr s)) i) (heap_bits s) n = Some k" "0 < n"
  shows "k < heap_bits s" "translate s (heap_page s k) = None" "page_aligned (heap_page s k)" "heap_page s k \<noteq> NULL"
    "heap_page s k \<noteq> 0xc0006000"
proof -
  have geo: "heap_geometry s" and heap: "heap_ok s" using assms(1) by (simp_all add: vm_inv_def heap_ok_geometry)
  have k: "k + n \<le> heap_bits s" "\<not> bm_used (mem s) (vaddr_bitmap (kernel_vaddr s)) k"
    using first_fit_Some [OF assms(2)] assms(3) by (auto simp: fits_def)
  then show lt: "k < heap_bits s" using assms(3) by simp
  then show "translate s (heap_page s k) = None"
    using heap k(2) by (simp add: heap_ok_geometry free_idx_def heap_bits_def)
  note f = heap_page_facts [OF geo lt]
  show "page_aligned (heap_page s k)" "heap_page s k \<noteq> NULL" using f by simp_all
  show "heap_page s k \<noteq> 0xc0006000" using f(3) by auto
qed

lemma get_one_page:
  assumes "vm_inv s" "free_idx (bit_of PF_KERNEL s) (mem s) \<noteq> {}"
    "first_fit (\<lambda>i. \<not> bm_used (mem s) (vaddr_bitmap (kernel_vaddr s)) i) (heap_bits s) 1 = Some k"
  obtains f s' where "get_kernel_pages 1 s = Inr (heap_page s k, s')" "vm_inv s'" "pages_mapped k [f] s s'"
    "elems s' = zero_in {heap_page s k} zero_elem (elems s)" "tasks s' = zero_in {heap_page s k} zero_task (tasks s)"
    "running_thread s' = running_thread s" "main_thread s' = main_thread s" "link_kernel_thread s' = link_kernel_thread s"
    "s' = s\<lparr>mem := mem s', elems := elems s', tasks := tasks s', stk := stk s', pmem := pmem s'\<rparr>"
    "free_idx (bit_of PF_KERNEL s) (mem s') = free_idx (bit_of PF_KERNEL s) (mem s) - {f}"
    "free_idx (vaddr_bitmap (kernel_vaddr s)) (mem s') = free_idx (vaddr_bitmap (kernel_vaddr s)) (mem s) - {k}"
    "stk s' = zero_in {heap_page s k} 0 (stk s)"
proof -
  have "finite (free_idx (bit_of PF_KERNEL s) (mem s))" by (simp add: free_idx_def)
  then have c: "unat (1 :: u32) \<le> card (free_idx (bit_of PF_KERNEL s) (mem s))"
    using assms(2) by (simp add: Suc_le_eq card_gt_0_iff)
  have fit: "first_fit (\<lambda>i. \<not> bm_used (mem s) (vaddr_bitmap (kernel_vaddr s)) i) (heap_bits s) (unat (1 :: u32)) = Some k"
    using assms(3) by simp
  obtain fs t s' where r: "get_kernel_pages 1 s = Inr (heap_page s k, s')" "vm_inv s'" "length fs = unat (1 :: u32)"
    "pages_mapped k fs s s'" "t = s\<lparr>mem := mem t, pmem := pmem t\<rparr>" "wiped (heap_page s ` {k..<k + unat (1 :: u32)}) t s'"
    "free_idx (bit_of PF_KERNEL s) (mem s') = free_idx (bit_of PF_KERNEL s) (mem s) - set fs"
    "free_idx (vaddr_bitmap (kernel_vaddr s)) (mem s') = free_idx (vaddr_bitmap (kernel_vaddr s)) (mem s) - {k..<k + unat (1 :: u32)}"
    by (rule get_kernel_pages_maps [OF assms(1) _ _ c fit]) simp_all
  obtain f where "fs = [f]" using r(3) by (cases fs) auto
  moreover have "heap_page s ` {k..<k + unat (1 :: u32)} = {heap_page s k}" by simp
  moreover have "elems t = elems s" "tasks t = tasks s" "running_thread t = running_thread s" "main_thread t = main_thread s"
    "link_kernel_thread t = link_kernel_thread s" by (subst r(5), simp add: running_thread_def)+
  moreover have "stk t = stk s" by (subst r(5)) simp
  moreover have "s' = s\<lparr>mem := mem s', elems := elems s', tasks := tasks s', stk := stk s', pmem := pmem s'\<rparr>"
    using r(5,6) by (cases s, cases t, cases s') (simp add: wiped_def wipe_def)
  moreover have "{k..<k + unat (1 :: u32)} = {k}" by auto
  ultimately show thesis using that [where f = f and s' = s'] r(1,2,4,7,8) wiped_frame [OF r(6)] by simp
qed

lemma ready_inv_snoc:
  assumes "ready_inv s rs" "\<And>u. u \<in> set rs \<Longrightarrow> tasks s' u = tasks s u"
    "is_list (elems s') thread_ready_list (map general_tag (rs @ [t]))" "page_aligned t" "kstack_ok s' t"
    "status (tasks s' t) = TASK_READY"
  shows "ready_inv s' (rs @ [t])"
  using assms by (auto simp: ready_inv_def kstack_ok_def)

lemma threads_mapped_Cons:
  assumes "heap_geometry s" "k < heap_bits s" "threads_mapped s ts" "\<forall>u \<in> set ts. page_aligned u"
    "pages_mapped k [f] s s'" "heap_page s k \<notin> set ts"
  shows "threads_mapped s' (ts @ [heap_page s k])"
proof -
  note facts = heap_page_facts [OF assms(1,2)]
  have "translate s' u = translate s u" if u: "u \<in> set ts" for u
  proof -
    have "page_aligned u" "0xc0000000 \<le> unat u" "\<not> in_window u" using assms(3,4) u by (auto simp: threads_mapped_def)
    moreover from this(1) have "u AND 0xfffff000 = u" using aligned_frame_of by (simp add: frame_of_def)
    ultimately have "\<not> mirrored (heap_page s k) u"
      using kernel_mirrored [of "heap_page s k" u] facts(3,5) assms(6) u by auto
    with \<open>\<not> in_window u\<close> show ?thesis using assms(5) by (simp add: pages_mapped_def)
  qed
  moreover have "translate s' (heap_page s k) \<noteq> None" using assms(5) facts(5) by (simp add: pages_mapped_def)
  ultimately show ?thesis using assms(3) facts(1,3) by (auto simp: threads_mapped_def)
qed

lemma thread_start_run:
  assumes "system_inv s rs ts" "free_idx (bit_of PF_KERNEL s) (mem s) \<noteq> {}"
    "first_fit (\<lambda>i. \<not> bm_used (mem s) (vaddr_bitmap (kernel_vaddr s)) i) (heap_bits s) 1 = Some k" "length nm \<le> 16"
  defines "t \<equiv> heap_page s k"
  obtains s' where "thread_start nm prio f a s = Inr (t, s')" "system_inv s' (rs @ [t]) (ts @ [t])"
    "entry_frame s' t f a" "tasks s' t = (started_task t nm prio TASK_READY)\<lparr>self_kstack := t + 3664\<rparr>"
    "\<forall>u. page_aligned u \<and> u \<noteq> t \<longrightarrow> tasks s' u = tasks s u" "running_thread s' = running_thread s"
    "s' = s\<lparr>mem := mem s', elems := elems s', tasks := tasks s', stk := stk s', pmem := pmem s'\<rparr>"
    "\<exists>f. free_idx (bit_of PF_KERNEL s) (mem s') = free_idx (bit_of PF_KERNEL s) (mem s) - {f}"
    "free_idx (vaddr_bitmap (kernel_vaddr s)) (mem s') = free_idx (vaddr_bitmap (kernel_vaddr s)) (mem s) - {k}"
    "\<forall>b. b AND 0xfffff000 \<noteq> t \<longrightarrow> stk s' b = stk s b"
    "\<forall>b. b \<notin> ready_nodes rs \<union> all_nodes ts \<and> b AND 0xfffff000 \<noteq> t \<longrightarrow> elems s' b = elems s b"
proof -
  have inv: "vm_inv s" "ready_inv s rs" "all_inv s ts" "set rs \<subseteq> set ts" "main_thread s \<in> set ts" "threads_mapped s ts"
    using assms(1) by (simp_all add: system_inv_def)
  note page = heap_page_in_range [OF inv(1) assms(3) zero_less_one, folded t_def]
  have geo: "heap_geometry s" using inv(1) by (simp add: vm_inv_def heap_ok_geometry)
  have new: "t \<notin> set ts" using page(2) inv(6) by (auto simp: threads_mapped_def)
  obtain fr s1 where s1: "get_kernel_pages 1 s = Inr (t, s1)" "vm_inv s1" "pages_mapped k [fr] s s1"
    "elems s1 = zero_in {t} zero_elem (elems s)" "tasks s1 = zero_in {t} zero_task (tasks s)"
    "running_thread s1 = running_thread s" "main_thread s1 = main_thread s" "link_kernel_thread s1 = link_kernel_thread s"
    "s1 = s\<lparr>mem := mem s1, elems := elems s1, tasks := tasks s1, stk := stk s1, pmem := pmem s1\<rparr>"
    "free_idx (bit_of PF_KERNEL s) (mem s1) = free_idx (bit_of PF_KERNEL s) (mem s) - {fr}"
    "free_idx (vaddr_bitmap (kernel_vaddr s)) (mem s1) = free_idx (vaddr_bitmap (kernel_vaddr s)) (mem s) - {k}"
    "stk s1 = zero_in {t} 0 (stk s)"
    using get_one_page [OF inv(1) assms(2,3)] unfolding t_def .
  note q = queues_after_wipe [OF inv(2,3,4) page(3,5) new s1(4)]
  define h2 where "h2 = (elems s1)(general_tag t := \<lparr>le_prev = NULL, le_next = NULL\<rparr>, all_list_tag t := \<lparr>le_prev = NULL, le_next = NULL\<rparr>)"
  define s2 where "s2 = s1\<lparr>elems := h2, tasks := (tasks s1)(t := started_task t nm prio TASK_READY)\<rparr>"
  have "t \<noteq> main_thread s1" using s1(7) inv(5) new by auto
  then have i: "init_thread t nm prio s1 = Inr s2"
    using init_thread_eq [OF page(4) assms(4), of prio s1] by (simp add: s2_def h2_def)
  obtain tk st where c: "thread_create t f a s2 = s2\<lparr>tasks := tk, stk := st\<rparr>" "\<forall>u. u \<noteq> t \<longrightarrow> tk u = tasks s2 u"
    "tk t = (tasks s2 t)\<lparr>self_kstack := self_kstack (tasks s2 t) - 432\<rparr>"
    using thread_create_fields [of t f a s2] by blast
  define s3 where "s3 = s2\<lparr>tasks := tk, stk := st\<rparr>"
  have frame: "entry_frame s3 t f a"
    using thread_create_entry_frame [of s2 t f a] unfolding c(1) s3_def by (simp add: s2_def started_task_def)
  have l: "is_list (elems s3) thread_ready_list (map general_tag rs)" "is_list (elems s3) thread_all_list (map all_list_tag ts)"
    using tags_zeroed [OF q(1)] tags_zeroed [OF q(2)] q(3,4) by (simp_all add: s3_def s2_def h2_def)
  have al: "\<forall>u \<in> set rs \<union> set ts. page_aligned u" using inv(2,3) by (auto simp: ready_inv_def all_inv_def)
  obtain h1 h where e: "elem_find thread_ready_list (general_tag t) s3 = Inr False"
    "elem_find thread_all_list (general_tag t) s3 = Inr False" "elem_find thread_all_list (all_list_tag t) (s3\<lparr>elems := h1\<rparr>) = Inr False"
    "list_append thread_ready_list (general_tag t) s3 = Inr (s3\<lparr>elems := h1\<rparr>)"
    "list_append thread_all_list (all_list_tag t) (s3\<lparr>elems := h1\<rparr>) = Inr (s3\<lparr>elems := h\<rparr>)"
    "is_list h thread_ready_list (map general_tag (rs @ [t]))" "is_list h thread_all_list (map all_list_tag (ts @ [t]))"
    "\<forall>b. b \<notin> ready_nodes rs \<union> all_nodes ts \<union> {general_tag t, all_list_tag t} \<longrightarrow> h b = elems s3 b"
    using enqueue_both [OF l q(3,4) page(3) al] .
  let ?s' = "s3\<lparr>elems := h\<rparr>"
  have tasks': "tasks ?s' t = (started_task t nm prio TASK_READY)\<lparr>self_kstack := t + 3664\<rparr>"
    using c(3) by (simp add: s3_def s2_def started_task_def PG_SIZE_def)
  have others: "tasks ?s' u = tasks s u" if "page_aligned u" "u \<noteq> t" for u
    using that c(2) s1(5) aligned_frame_of [OF that(1)] by (simp add: s3_def s2_def zero_in_def frame_of_def)
  have "kstack_ok ?s' t" using entry_frame_kstack [OF frame] by (simp add: kstack_ok_def)
  moreover have "tasks ?s' u = tasks s u" if "u \<in> set rs" for u
    using that al new inv(4) by (intro others) auto
  ultimately have "ready_inv ?s' (rs @ [t])"
    using e(6) tasks' page(3) by (intro ready_inv_snoc [OF inv(2)]) (simp_all add: started_task_def)
  moreover have "threads_mapped ?s' (ts @ [t])"
    using threads_mapped_Cons [OF geo page(1) inv(6) _ s1(3) new [unfolded t_def]] al
    by (simp add: s3_def s2_def threads_mapped_def translate_def t_def)
  ultimately have "system_inv ?s' (rs @ [t]) (ts @ [t])"
    using s1(2,7) inv(3-5) e(7) page(3)
    by (auto simp: system_inv_def vm_inv_objects s3_def s2_def all_inv_def threads_mapped_def)
  moreover have "thread_start nm prio f a s = Inr (t, ?s')"
    using s1(1) i c(1) e(1,2,4,5) by (simp add: thread_start_def flip: s3_def)
  moreover have "entry_frame ?s' t f a" using frame by (auto simp: entry_frame_def saved_ctx_def Let_def)
  moreover have "running_thread ?s' = running_thread s" using s1(6) by (simp add: s3_def s2_def running_thread_def)
  moreover have "?s' = s\<lparr>mem := mem ?s', elems := elems ?s', tasks := tasks ?s', stk := stk ?s', pmem := pmem ?s'\<rparr>"
    using s1(9) by (cases s, cases s1) (simp add: s3_def s2_def)
  moreover have "mem ?s' = mem s1" by (simp add: s3_def s2_def)
  moreover have "stk ?s' b = stk s b" if "b AND 0xfffff000 \<noteq> t" for b
    using thread_create_stk [OF page(3) _ that, of s2 f a] s1(12) that unfolding c(1)
    by (simp add: s3_def s2_def started_task_def zero_in_def)
  moreover have "elems ?s' b = elems s b" if "b \<notin> ready_nodes rs \<union> all_nodes ts" "b AND 0xfffff000 \<noteq> t" for b
  proof -
    have "b \<noteq> general_tag t" "b \<noteq> all_list_tag t" using tag_page [OF page(3)] that(2) by auto
    then show ?thesis using e(8) that s1(4) by (simp add: s3_def s2_def h2_def zero_in_def)
  qed
  ultimately show thesis using that [of ?s'] tasks' others s1(10,11) by metis
qed

section \<open>The first thread\<close>

lemma thread_init_system:
  assumes "vm_inv s" "0xc0000000 \<le> unat (running_thread s)" "\<not> in_window (running_thread s)" "translate s (running_thread s) \<noteq> None"
  obtains s' where "thread_init s = Inr s'" "system_inv s' [] [running_thread s]" "mem s' = mem s"
    "kernel_vaddr s' = kernel_vaddr s" "kernel_pool s' = kernel_pool s" "running_thread s' = running_thread s"
    "status (tasks s' (running_thread s)) = TASK_RUNNING"
proof -
  have "running_thread s \<noteq> NULL" using assms(2) by auto
  from thread_init_eq [OF this] obtain v h where
    t: "thread_init s = Inr (s\<lparr>screen := v, elems := h, main_thread := running_thread s,
        tasks := (tasks s)(running_thread s := started_task (running_thread s) (cstr ''main'') 8 TASK_RUNNING)\<rparr>)" (is "_ = Inr ?s'")
    and l: "is_list h thread_ready_list []" "is_list h thread_all_list [all_list_tag (running_thread s)]"
    by blast
  have "vm_inv ?s'" using assms(1)
    by (simp add: vm_inv_def vm_core_def heap_ok_def pool_bitmaps_def all_free_def heap_bits_def heap_page_def translate_def)
  then have "system_inv ?s' [] [running_thread s]"
    using l assms by (simp add: system_inv_def ready_inv_def all_inv_def threads_mapped_def translate_def)
  with t that [of ?s'] show thesis by (simp add: running_thread_def started_task_def)
qed

section \<open>Properties\<close>

text \<open>
  C15: \<open>thread_start\<close> with a free frame, a free heap page and a name of at most 16 characters returns a new
  thread: its page was unmapped before, its control block is initialised and ready, its stack is such that the
  first switch to it enters the function with the argument, it is at the end of the ready queue and of the
  queue of all threads, no other control block changes, and the invariants of the queues and of the memory
  hold again.
\<close>

theorem thread_start_enqueues:
  assumes "system_inv s rs ts" "free_idx (bit_of PF_KERNEL s) (mem s) \<noteq> {}"
    "first_fit (\<lambda>i. \<not> bm_used (mem s) (vaddr_bitmap (kernel_vaddr s)) i) (heap_bits s) 1 = Some k" "length nm \<le> 16"
  shows "\<exists>s'. thread_start nm prio f a s = Inr (heap_page s k, s') \<and> translate s (heap_page s k) = None \<and>
    system_inv s' (rs @ [heap_page s k]) (ts @ [heap_page s k]) \<and> entry_frame s' (heap_page s k) f a \<and>
    status (tasks s' (heap_page s k)) = TASK_READY \<and> priority (tasks s' (heap_page s k)) = ucast prio \<and>
    (\<forall>u. page_aligned u \<and> u \<noteq> heap_page s k \<longrightarrow> tasks s' u = tasks s u)"
proof -
  have "vm_inv s" using assms(1) by (simp add: system_inv_def)
  from heap_page_in_range(2) [OF this assms(3)] have "translate s (heap_page s k) = None" by simp
  moreover obtain s' where "thread_start nm prio f a s = Inr (heap_page s k, s')"
    "system_inv s' (rs @ [heap_page s k]) (ts @ [heap_page s k])" "entry_frame s' (heap_page s k) f a"
    "tasks s' (heap_page s k) = (started_task (heap_page s k) nm prio TASK_READY)\<lparr>self_kstack := heap_page s k + 3664\<rparr>"
    "\<forall>u. page_aligned u \<and> u \<noteq> heap_page s k \<longrightarrow> tasks s' u = tasks s u"
    using thread_start_run [OF assms, of prio f a] by metis
  ultimately show ?thesis by (intro exI [of _ s']) (simp add: started_task_def)
qed

theorem thread_start_enqueues_witness:
  "\<exists>s1 s2 s'. mem_pool_init 0x2000000 (mems0 nodes_ready) = Inr s1 \<and> thread_init s1 = Inr s2 \<and>
     thread_start (cstr ''consumer_a'') 31 0xc0001600 0xc0005000 s2 = Inr (0xc0100000, s') \<and>
     system_inv s' [0xc0100000] [0xc009e000, 0xc0100000] \<and> entry_frame s' 0xc0100000 0xc0001600 0xc0005000"
proof -
  obtain s1 where s1: "mem_pool_init 0x2000000 (mems0 nodes_ready) = Inr s1" "vm_inv s1" "heap_page s1 0 = 0xc0100000"
    "heap_bits s1 = 8 * unat (kbm_length 0x2000000)" "free_idx (bit_of PF_KERNEL s1) (mem s1) = {..<8 * unat (kbm_length 0x2000000)}"
    "free_idx (vaddr_bitmap (kernel_vaddr s1)) (mem s1) = {..<heap_bits s1}" "running_thread s1 = 0xc009e000"
    "pmem s1 = pm0" "cr3 s1 = 0x100000"
    using init_ready [OF fit0(1), of nodes_ready] by metis
  have w: "\<not> in_window 0xc009e000" by (simp add: in_window_didx unat_pde_idx dir_idx_def)
  have "translate s1 0xc009e000 \<noteq> None" using walk_pcb by (simp add: translate_def s1(8,9))
  then obtain s2 where s2: "thread_init s1 = Inr s2" "system_inv s2 [] [0xc009e000]" "mem s2 = mem s1"
    "kernel_vaddr s2 = kernel_vaddr s1" "kernel_pool s2 = kernel_pool s1"
    using thread_init_system [OF s1(2)] w by (metis s1(7) unat_pcb)
  have same: "bit_of PF_KERNEL s2 = bit_of PF_KERNEL s1" "heap_bits s2 = heap_bits s1" "heap_page s2 0 = heap_page s1 0"
    using s2(4,5) by (simp_all add: bit_of_def mem_pool_def heap_bits_def heap_page_def)
  have "first_fit (\<lambda>i. \<not> bm_used (mem s2) (vaddr_bitmap (kernel_vaddr s2)) i) (heap_bits s2) 1 = Some 0"
    using first_fit_all_free [of "vaddr_bitmap (kernel_vaddr s1)" "mem s1" 1] s1(4,6) s2(3,4) same
    by (simp add: heap_bits_def lengths_32mb)
  from thread_start_enqueues [OF s2(2) _ this, of "cstr ''consumer_a''" 31 "0xc0001600" "0xc0005000"]
  show ?thesis using s1 s2(1,3) same by (auto simp: cstr_def lengths_32mb lessThan_empty_iff)
qed

end
