(* ===== verification/Ioqueue.thy ===== *)
theory Ioqueue
  imports Thread_Start "HOL-Library.Sublist"
begin

text \<open>
  device/ioqueue.c: the ring of 64 characters between the keyboard handler and the threads that read it.
  The lock is the first field of \<open>struct ioqueue\<close>, so its address is that of the queue; the other fields
  are a record in a store indexed by the address.

  A thread may block at two places, in \<open>lock_acquire\<close> and in \<open>ioq_wait\<close>; the result then carries the
  local variables, and the function with suffix \<open>_resume\<close> goes on when the thread runs again. Every
  round of the waiting loop blocks or panics, so that a call runs at most one round.
\<close>

section \<open>State\<close>

record ioqueue =
  producer :: addr
  consumer :: addr
  buffer :: "u8 list"
  head :: u32
  tail :: u32

record queues = mems +
  ioqs :: "addr \<Rightarrow> ioqueue"

datatype ioq_side = Producer | Consumer

datatype ioq_ctx = Acquiring down_ctx | Waiting intr_status

datatype 'r ioq_result = Got 'r | Ioq_Blocked ioq_ctx

definition bufsize :: u32 where
  "bufsize = 64"

section \<open>Operations\<close>

definition upd_ioq :: "addr \<Rightarrow> (ioqueue \<Rightarrow> ioqueue) \<Rightarrow> 'a queues_scheme \<Rightarrow> 'a queues_scheme" where
  "upd_ioq ioq f s = s\<lparr>ioqs := (ioqs s)(ioq := f (ioqs s ioq))\<rparr>"

definition waiter :: "ioq_side \<Rightarrow> ioqueue \<Rightarrow> addr" where
  "waiter side q = (case side of Producer \<Rightarrow> producer q | Consumer \<Rightarrow> consumer q)"

definition set_waiter :: "ioq_side \<Rightarrow> addr \<Rightarrow> ioqueue \<Rightarrow> ioqueue" where
  "set_waiter side t q = (case side of Producer \<Rightarrow> q\<lparr>producer := t\<rparr> | Consumer \<Rightarrow> q\<lparr>consumer := t\<rparr>)"

definition ioqueue_init :: "addr \<Rightarrow> 'a queues_scheme \<Rightarrow> 'a queues_scheme" where
  "ioqueue_init ioq s =
     (let s = lock_init ioq s;
          s = upd_ioq ioq (set_waiter Producer NULL) s;
          s = upd_ioq ioq (set_waiter Consumer NULL) s;
          s = upd_ioq ioq (\<lambda>q. q\<lparr>head := 0\<rparr>) s
      in upd_ioq ioq (\<lambda>q. q\<lparr>tail := 0\<rparr>) s)"

definition next_pos :: "u32 \<Rightarrow> u32" where
  "next_pos pos = (pos + 1) mod bufsize"

definition ioq_full :: "addr \<Rightarrow> 'a queues_scheme \<Rightarrow> err + bool" where
  "ioq_full ioq s =
     ASSERT (intr_get_status s = INTR_OFF) ''device/ioqueue.c'' 24 ''ioq_full'' ''intr_get_status() == INTR_OFF''
       (Inr (next_pos (tail (ioqs s ioq)) = head (ioqs s ioq)))"

definition ioq_empty :: "addr \<Rightarrow> 'a queues_scheme \<Rightarrow> err + bool" where
  "ioq_empty ioq s =
     ASSERT (intr_get_status s = INTR_OFF) ''device/ioqueue.c'' 30 ''ioq_empty'' ''intr_get_status() == INTR_OFF''
       (Inr (head (ioqs s ioq) = tail (ioqs s ioq)))"

definition ioq_wait :: "ioq_side \<Rightarrow> addr \<Rightarrow> 'a queues_scheme \<Rightarrow> err + intr_status \<times> 'a queues_scheme" where
  "ioq_wait side ioq s =
     ASSERT (waiter side (ioqs s ioq) \<noteq> NULL) ''device/ioqueue.c'' 36 ''ioq_wait'' ''waiter!=NULL && *waiter!=NULL''
       (let s = upd_ioq ioq (set_waiter side (running_thread s)) s
        in thread_block TASK_BLOCKED s)"

definition wakeup :: "ioq_side \<Rightarrow> addr \<Rightarrow> 'a queues_scheme \<Rightarrow> err + 'a queues_scheme" where
  "wakeup side ioq s =
     ASSERT (waiter side (ioqs s ioq) \<noteq> NULL) ''device/ioqueue.c'' 43 ''wakeup'' ''waiter!=NULL && *waiter!=NULL''
       (bindE (thread_unblock (waiter side (ioqs s ioq)) s) (\<lambda>s.
        Inr (upd_ioq ioq (set_waiter side NULL) s)))"

definition wake_waiter :: "ioq_side \<Rightarrow> addr \<Rightarrow> 'a queues_scheme \<Rightarrow> err + 'a queues_scheme" where
  "wake_waiter side ioq s = (if waiter side (ioqs s ioq) \<noteq> NULL then wakeup side ioq s else Inr s)"

text \<open>The body of the waiting loops after \<open>lock_acquire\<close>, up to the context switch.\<close>

definition ioq_turn ::
    "ioq_side \<Rightarrow> addr \<Rightarrow> down_ctx outcome \<times> 'a queues_scheme \<Rightarrow> err + 'r ioq_result \<times> 'a queues_scheme" where
  "ioq_turn side ioq r =
     (case r of
        (Blocked c, s) \<Rightarrow> Inr (Ioq_Blocked (Acquiring c), s)
      | (Finished, s) \<Rightarrow>
          bindE (ioq_wait side ioq s) (\<lambda>(blk, s). Inr (Ioq_Blocked (Waiting blk), s)))"

definition getchar_loop :: "addr \<Rightarrow> 'a queues_scheme \<Rightarrow> err + u8 ioq_result \<times> 'a queues_scheme" where
  "getchar_loop ioq s =
     bindE (ioq_empty ioq s) (\<lambda>empty.
     if empty then bindE (lock_acquire ioq s) (ioq_turn Consumer ioq)
     else
       let byte = buffer (ioqs s ioq) ! unat (tail (ioqs s ioq));
           s = upd_ioq ioq (\<lambda>q. q\<lparr>tail := next_pos (tail q)\<rparr>) s
       in bindE (wake_waiter Producer ioq s) (\<lambda>s. Inr (Got byte, s)))"

definition ioq_getchar :: "addr \<Rightarrow> 'a queues_scheme \<Rightarrow> err + u8 ioq_result \<times> 'a queues_scheme" where
  "ioq_getchar ioq s =
     ASSERT (intr_get_status s = INTR_OFF) ''device/ioqueue.c'' 50 ''ioq_getchar'' ''intr_get_status() == INTR_OFF''
       (getchar_loop ioq s)"

definition ioq_getchar_resume :: "addr \<Rightarrow> ioq_ctx \<Rightarrow> 'a queues_scheme \<Rightarrow> err + u8 ioq_result \<times> 'a queues_scheme" where
  "ioq_getchar_resume ioq c s =
     (case c of
        Acquiring d \<Rightarrow> bindE (lock_acquire_resume ioq d s) (ioq_turn Consumer ioq)
      | Waiting blk \<Rightarrow> bindE (lock_release ioq (thread_block_resume blk s)) (getchar_loop ioq))"

definition putchar_loop :: "addr \<Rightarrow> u8 \<Rightarrow> 'a queues_scheme \<Rightarrow> err + unit ioq_result \<times> 'a queues_scheme" where
  "putchar_loop ioq byte s =
     bindE (ioq_full ioq s) (\<lambda>full.
     if full then bindE (lock_acquire ioq s) (ioq_turn Producer ioq)
     else
       let s = upd_ioq ioq (\<lambda>q. q\<lparr>buffer := (buffer q)[unat (head q) := byte]\<rparr>) s;
           s = upd_ioq ioq (\<lambda>q. q\<lparr>head := next_pos (head q)\<rparr>) s
       in bindE (wake_waiter Consumer ioq s) (\<lambda>s. Inr (Got (), s)))"

definition ioq_putchar :: "addr \<Rightarrow> u8 \<Rightarrow> 'a queues_scheme \<Rightarrow> err + unit ioq_result \<times> 'a queues_scheme" where
  "ioq_putchar ioq byte s =
     ASSERT (intr_get_status s = INTR_OFF) ''device/ioqueue.c'' 72 ''ioq_putchar'' ''intr_get_status() == INTR_OFF''
       (putchar_loop ioq byte s)"

definition ioq_putchar_resume ::
    "addr \<Rightarrow> u8 \<Rightarrow> ioq_ctx \<Rightarrow> 'a queues_scheme \<Rightarrow> err + unit ioq_result \<times> 'a queues_scheme" where
  "ioq_putchar_resume ioq byte c s =
     (case c of
        Acquiring d \<Rightarrow> bindE (lock_acquire_resume ioq d s) (ioq_turn Producer ioq)
      | Waiting blk \<Rightarrow> bindE (lock_release ioq (thread_block_resume blk s)) (putchar_loop ioq byte))"

section \<open>The queue as a list\<close>

text \<open>
  With nobody registered as waiting, which \<open>ioq_wait\<close> itself never changes (it panics then), the ring holds
  no character or one.
\<close>

definition ioq_ok :: "ioqueue \<Rightarrow> bool" where
  "ioq_ok q \<longleftrightarrow> unat (tail q) < 64 \<and> length (buffer q) = 64 \<and> (head q = tail q \<or> head q = next_pos (tail q)) \<and>
     producer q = NULL \<and> consumer q = NULL"

definition contents :: "ioqueue \<Rightarrow> u8 list" where
  "contents q = (if head q = tail q then [] else [buffer q ! unat (tail q)])"

lemma unat_next_pos: "unat p < 64 \<Longrightarrow> unat (next_pos p) = (unat p + 1) mod 64"
  by (simp add: next_pos_def bufsize_def unat_mod unat_add_u32)

lemma next_pos_differs:
  assumes "unat p < 64"
  shows "next_pos p \<noteq> p"
proof
  assume "next_pos p = p"
  then have "(unat p + 1) mod 64 = unat p" using unat_next_pos [OF assms] by simp
  with assms show False by (cases "unat p = 63") auto
qed

lemma next_pos_less: "unat (next_pos p) < 64"
  by (simp add: next_pos_def bufsize_def unat_mod)

lemma upd_ioq_frame [simp]:
  "intr_get_status (upd_ioq ioq f s) = intr_get_status s" "running_thread (upd_ioq ioq f s) = running_thread s"
  "ioqs (upd_ioq ioq f s) ioq = f (ioqs s ioq)"
  by (simp_all add: upd_ioq_def intr_get_status_def running_thread_def)

lemma ioq_queries:
  assumes "intr_get_status s = INTR_OFF" "ioq_ok (ioqs s ioq)"
  shows "ioq_empty ioq s = Inr (contents (ioqs s ioq) = [])" "ioq_full ioq s = Inr (contents (ioqs s ioq) \<noteq> [])"
  using assms next_pos_differs [of "tail (ioqs s ioq)"] by (auto simp: ioq_empty_def ioq_full_def ioq_ok_def contents_def)

lemma putchar_stores:
  assumes "intr_get_status s = INTR_OFF" "ioq_ok (ioqs s ioq)" "contents (ioqs s ioq) = []"
  obtains q where "ioq_putchar ioq b s = Inr (Got (), s\<lparr>ioqs := (ioqs s)(ioq := q)\<rparr>)" "ioq_ok q" "contents q = [b]"
proof -
  let ?q = "ioqs s ioq"
  let ?q' = "?q\<lparr>buffer := (buffer ?q)[unat (head ?q) := b], head := next_pos (head ?q)\<rparr>"
  have e: "head ?q = tail ?q" using assms(3) by (simp add: contents_def split: if_splits)
  have "ioq_putchar ioq b s = Inr (Got (), s\<lparr>ioqs := (ioqs s)(ioq := ?q')\<rparr>)"
    using assms ioq_queries [OF assms(1,2)]
    by (simp add: ioq_putchar_def putchar_loop_def wake_waiter_def waiter_def ioq_ok_def upd_ioq_def)
  moreover have "ioq_ok ?q'" "contents ?q' = [b]"
    using assms(2) e next_pos_differs [of "tail ?q"] by (auto simp: ioq_ok_def contents_def)
  ultimately show thesis by (rule that)
qed

lemma getchar_takes:
  assumes "intr_get_status s = INTR_OFF" "ioq_ok (ioqs s ioq)" "contents (ioqs s ioq) = [b]"
  obtains q where "ioq_getchar ioq s = Inr (Got b, s\<lparr>ioqs := (ioqs s)(ioq := q)\<rparr>)" "ioq_ok q" "contents q = []"
proof -
  let ?q = "ioqs s ioq"
  let ?q' = "?q\<lparr>tail := next_pos (tail ?q)\<rparr>"
  have b: "head ?q \<noteq> tail ?q" "buffer ?q ! unat (tail ?q) = b" using assms(3) by (simp_all add: contents_def split: if_splits)
  have "ioq_getchar ioq s = Inr (Got b, s\<lparr>ioqs := (ioqs s)(ioq := ?q')\<rparr>)"
    using assms b ioq_queries [OF assms(1,2)]
    by (simp add: ioq_getchar_def getchar_loop_def wake_waiter_def waiter_def ioq_ok_def upd_ioq_def Let_def)
  moreover have "ioq_ok ?q'" "contents ?q' = []"
    using assms(2) b next_pos_less [of "tail ?q"] by (auto simp: ioq_ok_def contents_def)
  ultimately show thesis by (rule that)
qed

text \<open>The state after the initialisation of a lock: only the two sentinels of its queue are written.\<close>

lemma lock_init_cases:
  assumes "NULL \<notin> set (list_nodes (waiters (lock_sema l)) [])"
  obtains h where "lock_init l s = s\<lparr>elems := h, sem_value := (sem_value s)(lock_sema l := 1),
      lock_holder := (lock_holder s)(l := NULL), lock_repeat := (lock_repeat s)(l := 0)\<rparr>"
    "\<forall>a. a \<notin> set (list_nodes (waiters (lock_sema l)) []) \<longrightarrow> h a = elems s a" "is_list h (waiters (lock_sema l)) []"
proof (rule that [of "elems (lock_init l s)"])
  show "lock_init l s = s\<lparr>elems := elems (lock_init l s), sem_value := (sem_value s)(lock_sema l := 1),
      lock_holder := (lock_holder s)(l := NULL), lock_repeat := (lock_repeat s)(l := 0)\<rparr>"
    by (rule lock_init_run)
  show "\<forall>a. a \<notin> set (list_nodes (waiters (lock_sema l)) []) \<longrightarrow> elems (lock_init l s) a = elems s a"
    "is_list (elems (lock_init l s)) (waiters (lock_sema l)) []"
    using assms by (auto simp: lock_init_def sema_init_def list_init_def set_next_def set_prev_def Let_def is_list_def list_nodes_def
        list_head_def list_tail_def)
qed

lemma ioqueue_init_run:
  assumes "length (buffer (ioqs s ioq)) = 64" "NULL \<notin> set (list_nodes (waiters (lock_sema ioq)) [])"
  obtains h q where "ioqueue_init ioq s = s\<lparr>elems := h, sem_value := (sem_value s)(lock_sema ioq := 1),
      lock_holder := (lock_holder s)(ioq := NULL), lock_repeat := (lock_repeat s)(ioq := 0), ioqs := (ioqs s)(ioq := q)\<rparr>"
    "\<forall>a. a \<notin> set (list_nodes (waiters (lock_sema ioq)) []) \<longrightarrow> h a = elems s a" "is_list h (waiters (lock_sema ioq)) []"
    "ioq_ok q" "contents q = []"
proof -
  let ?q = "(ioqs s ioq)\<lparr>producer := NULL, consumer := NULL, head := 0, tail := 0\<rparr>"
  obtain h where h: "lock_init ioq s = s\<lparr>elems := h, sem_value := (sem_value s)(lock_sema ioq := 1),
      lock_holder := (lock_holder s)(ioq := NULL), lock_repeat := (lock_repeat s)(ioq := 0)\<rparr>"
    "\<forall>a. a \<notin> set (list_nodes (waiters (lock_sema ioq)) []) \<longrightarrow> h a = elems s a" "is_list h (waiters (lock_sema ioq)) []"
    using lock_init_cases [OF assms(2)] by metis
  have "ioqueue_init ioq s = s\<lparr>elems := h, sem_value := (sem_value s)(lock_sema ioq := 1),
      lock_holder := (lock_holder s)(ioq := NULL), lock_repeat := (lock_repeat s)(ioq := 0), ioqs := (ioqs s)(ioq := ?q)\<rparr>"
    by (simp add: ioqueue_init_def h(1) upd_ioq_def set_waiter_def Let_def)
  moreover have "ioq_ok ?q" "contents ?q = []" using assms by (simp_all add: ioq_ok_def contents_def)
  ultimately show thesis using that h(2,3) by blast
qed

section \<open>Bounded queues\<close>

text \<open>
  What the writer and the reader of a queue of characters rely on: a character offered to a queue with room
  goes to the end, one offered to a full queue is lost, and reading takes the first.
\<close>

datatype queue_op = Offer u8 | Take

fun offered :: "queue_op list \<Rightarrow> u8 list" where
  "offered [] = []"
| "offered (Offer b # ops) = b # offered ops"
| "offered (Take # ops) = offered ops"

text \<open>The promise, on the list of the characters in the queue: what the reads give, and what is left.\<close>

fun bounded_run :: "nat \<Rightarrow> queue_op list \<Rightarrow> u8 list \<Rightarrow> u8 list \<times> u8 list" where
  "bounded_run cap [] xs = ([], xs)"
| "bounded_run cap (Offer b # ops) xs = bounded_run cap ops (if length xs < cap then xs @ [b] else xs)"
| "bounded_run cap (Take # ops) xs =
     (case xs of
        [] \<Rightarrow> bounded_run cap ops []
      | x # xs \<Rightarrow> let (outs, rest) = bounded_run cap ops xs in (x # outs, rest))"

lemma bounded_run_subseq: "bounded_run cap ops xs = (outs, rest) \<Longrightarrow> subseq (outs @ rest) (xs @ offered ops)"
proof (induction cap ops xs arbitrary: outs rest rule: bounded_run.induct)
  case (2 cap b ops xs)
  have "subseq (xs @ offered ops) (xs @ b # offered ops)" by (simp add: subseq_append_iff) auto
  moreover have "length xs < cap \<Longrightarrow> subseq (outs @ rest) ((xs @ [b]) @ offered ops)" "\<not> length xs < cap \<Longrightarrow> subseq (outs @ rest) (xs @ offered ops)"
    using 2 by (auto split: if_splits)
  ultimately show ?case by (auto intro: subseq_order.trans)
qed (auto split: list.splits prod.splits)

fun run_queue ::
    "(u8 \<Rightarrow> 'q \<Rightarrow> err + 'q) \<Rightarrow> ('q \<Rightarrow> err + u8 list \<times> 'q) \<Rightarrow> queue_op list \<Rightarrow> 'q \<Rightarrow> err + u8 list \<times> 'q" where
  "run_queue offer take_one [] q = Inr ([], q)"
| "run_queue offer take_one (Offer b # ops) q = bindE (offer b q) (run_queue offer take_one ops)"
| "run_queue offer take_one (Take # ops) q =
     bindE (take_one q) (\<lambda>(out, q). bindE (run_queue offer take_one ops q) (\<lambda>(outs, q). Inr (out @ outs, q)))"

locale bounded_queue =
  fixes cap :: nat and ok :: "'q \<Rightarrow> bool" and items :: "'q \<Rightarrow> u8 list"
    and offer :: "u8 \<Rightarrow> 'q \<Rightarrow> err + 'q" and take_one :: "'q \<Rightarrow> err + u8 list \<times> 'q"
  assumes bounded: "ok q \<Longrightarrow> length (items q) \<le> cap"
    and offer_room: "ok q \<Longrightarrow> length (items q) < cap \<Longrightarrow> \<exists>q'. offer b q = Inr q' \<and> ok q' \<and> items q' = items q @ [b]"
    and offer_full: "ok q \<Longrightarrow> length (items q) = cap \<Longrightarrow> offer b q = Inr q"
    and take_first: "ok q \<Longrightarrow> items q = x # xs \<Longrightarrow> \<exists>q'. take_one q = Inr ([x], q') \<and> ok q' \<and> items q' = xs"
    and take_empty: "ok q \<Longrightarrow> items q = [] \<Longrightarrow> take_one q = Inr ([], q)"
begin

lemma run_refines:
  "ok q \<Longrightarrow> \<exists>outs q'. run_queue offer take_one ops q = Inr (outs, q') \<and> ok q' \<and> bounded_run cap ops (items q) = (outs, items q')"
proof (induction ops arbitrary: q)
  case (Cons p ops)
  show ?case
  proof (cases p)
    case (Offer b)
    show ?thesis
    proof (cases "length (items q) < cap")
      case True
      then obtain q1 where q1: "offer b q = Inr q1" "ok q1" "items q1 = items q @ [b]"
        using offer_room [OF Cons.prems] by blast
      with Cons.IH [OF q1(2)] Offer True show ?thesis by auto
    next
      case False
      then have "offer b q = Inr q" using offer_full [OF Cons.prems] bounded [OF Cons.prems] by simp
      then show ?thesis using Cons.IH [OF Cons.prems] Offer False by simp
    qed
  next
    case Take
    show ?thesis
    proof (cases "items q")
      case Nil
      with Take take_empty [OF Cons.prems] Cons.IH [OF Cons.prems] show ?thesis by auto
    next
      case (Cons x xs)
      then obtain q1 where q1: "take_one q = Inr ([x], q1)" "ok q1" "items q1 = xs"
        using take_first [OF Cons.prems] by blast
      with Cons.IH [OF q1(2)] Take Cons show ?thesis by auto
    qed
  qed
qed auto

end

text \<open>
  The writer of the keyboard handler, which drops the character if the queue is full (device/keyboard.c), and the
  reader of the consumer threads, which asks first whether there is a character (kernel/main.c, without the output
  in between). Both have asked
  before they call, so neither should ever wait; if it did, the result would be \<open>Suspended\<close>.
\<close>

definition offer_char :: "addr \<Rightarrow> u8 \<Rightarrow> 'a queues_scheme \<Rightarrow> err + 'a queues_scheme" where
  "offer_char ioq byte s =
     bindE (ioq_full ioq s) (\<lambda>full.
     if \<not> full then
       bindE (ioq_putchar ioq byte s) (\<lambda>(r, s). case r of Got _ \<Rightarrow> Inr s | Ioq_Blocked _ \<Rightarrow> Inl (Suspended ''ioq_putchar''))
     else Inr s)"

definition poll_char :: "addr \<Rightarrow> 'a queues_scheme \<Rightarrow> err + u8 list \<times> 'a queues_scheme" where
  "poll_char ioq s =
     bindE (ioq_empty ioq s) (\<lambda>empty.
     if \<not> empty then
       bindE (ioq_getchar ioq s) (\<lambda>(r, s). case r of Got b \<Rightarrow> Inr ([b], s) | Ioq_Blocked _ \<Rightarrow> Inl (Suspended ''ioq_getchar''))
     else Inr ([], s))"

definition queue_ready :: "addr \<Rightarrow> 'a queues_scheme \<Rightarrow> bool" where
  "queue_ready ioq s \<longleftrightarrow> intr_get_status s = INTR_OFF \<and> ioq_ok (ioqs s ioq)"

interpretation ring: bounded_queue 1 "queue_ready ioq" "\<lambda>s. contents (ioqs s ioq)" "offer_char ioq" "poll_char ioq" for ioq
proof
  fix q :: "'a queues_scheme" and b x xs
  assume r: "queue_ready ioq q"
  note r' = r [unfolded queue_ready_def, THEN conjunct1] r [unfolded queue_ready_def, THEN conjunct2]
  note query = ioq_queries [OF r']
  show "length (contents (ioqs q ioq)) \<le> 1" by (simp add: contents_def)
  have st: "intr_get_status (q\<lparr>ioqs := z\<rparr>) = intr_get_status q" for z by (simp add: intr_get_status_def)
  show "\<exists>q'. offer_char ioq b q = Inr q' \<and> queue_ready ioq q' \<and> contents (ioqs q' ioq) = contents (ioqs q ioq) @ [b]"
    if "length (contents (ioqs q ioq)) < 1"
  proof -
    have e: "contents (ioqs q ioq) = []" using that by simp
    obtain z where "ioq_putchar ioq b q = Inr (Got (), q\<lparr>ioqs := (ioqs q)(ioq := z)\<rparr>)" "ioq_ok z" "contents z = [b]"
      using putchar_stores [OF r' e] .
    then show ?thesis using query e r'(1) st by (simp add: offer_char_def queue_ready_def)
  qed
  show "offer_char ioq b q = Inr q" if "length (contents (ioqs q ioq)) = 1"
    using query that by (auto simp: offer_char_def)
  show "\<exists>q'. poll_char ioq q = Inr ([x], q') \<and> queue_ready ioq q' \<and> contents (ioqs q' ioq) = xs"
    if "contents (ioqs q ioq) = x # xs"
  proof -
    have e: "contents (ioqs q ioq) = [x]" "xs = []" using that by (simp_all add: contents_def split: if_splits)
    obtain z where "ioq_getchar ioq q = Inr (Got x, q\<lparr>ioqs := (ioqs q)(ioq := z)\<rparr>)" "ioq_ok z" "contents z = []"
      using getchar_takes [OF r' e(1)] .
    then show ?thesis using query e r'(1) st by (simp add: poll_char_def queue_ready_def)
  qed
  show "poll_char ioq q = Inr ([], q)" if "contents (ioqs q ioq) = []"
    using query that by (simp add: poll_char_def)
qed

section \<open>Properties\<close>

text \<open>
  C25: In every interleaving of characters offered to the queue and reads that ask first, no call panics or waits, and
  the queue behaves exactly as a list with room for one character: a character offered to an empty queue is
  stored, one offered while another is stored is lost, a read gives the stored one and removes it, and nothing
  else is lost. So the characters read, followed by the one still stored, are in the order in which they were offered.
\<close>

theorem queue_delivers_in_order:
  assumes "intr_get_status s = INTR_OFF" "ioq_ok (ioqs s ioq)"
  shows "\<exists>outs s'. run_queue (offer_char ioq) (poll_char ioq) ops s = Inr (outs, s') \<and> ioq_ok (ioqs s' ioq) \<and>
    intr_get_status s' = INTR_OFF \<and>
    bounded_run 1 ops (contents (ioqs s ioq)) = (outs, contents (ioqs s' ioq)) \<and>
    subseq (outs @ contents (ioqs s' ioq)) (contents (ioqs s ioq) @ offered ops)"
proof -
  obtain outs s' where r: "run_queue (offer_char ioq) (poll_char ioq) ops s = Inr (outs, s')" "queue_ready ioq s'"
    "bounded_run 1 ops (contents (ioqs s ioq)) = (outs, contents (ioqs s' ioq))"
    using ring.run_refines [of ioq s ops] assms by (auto simp: queue_ready_def)
  with bounded_run_subseq [OF r(3)] show ?thesis by (auto simp: queue_ready_def)
qed

definition queues0 :: "nodes \<Rightarrow> queues" where
  "queues0 h = (mems.extend (mems0 h) (queues.fields (\<lambda>_. \<lparr>producer = 0, consumer = 0, buffer = replicate 64 0, head = 0, tail = 0\<rparr>)))
     \<lparr>sem_value := (\<lambda>_. 1)\<rparr>"

lemma queues0_simps [simp]:
  "eflags (queues0 h) = 2" "esp (queues0 h) = 0xc009ef00" "elems (queues0 h) = h" "sem_value (queues0 h) = (\<lambda>_. 1)"
  "lock_holder (queues0 h) = (\<lambda>_. 0)" "lock_repeat (queues0 h) = (\<lambda>_. 0)"
  "ioqs (queues0 h) = (\<lambda>_. \<lparr>producer = 0, consumer = 0, buffer = replicate 64 0, head = 0, tail = 0\<rparr>)"
  by (simp_all add: queues0_def mems.extend_def queues.fields_def mems0_def paging.extend_def syncs.extend_def paging.fields_def mems.fields_def syncs0_def clock.extend_def syncs.fields_def clock0_def intr.extend_def clock.fields_def intr0_def
      threads.extend_def intr.fields_def threads0_def liststore.extend_def threads.fields_def liststore0_def bytemem.extend_def
      liststore.fields_def bytemem0_def machine.extend_def bytemem.fields_def machine0_def)

lemma queues0_off: "intr_get_status (queues0 h) = INTR_OFF"
  by (simp add: intr_get_status_def EFLAGS_IF_def)

theorem queue_delivers_in_order_witness:
  "\<exists>s'. run_queue (offer_char 0xc0006600) (poll_char 0xc0006600) [Offer 97, Offer 98, Take, Offer 99, Take, Take]
      (queues0 nodes_ready) = Inr ([97, 99], s') \<and> contents (ioqs s' 0xc0006600) = []"
proof -
  have "ioq_ok (ioqs (queues0 nodes_ready) 0xc0006600)" by (simp add: ioq_ok_def)
  from queue_delivers_in_order [OF queues0_off this, of "[Offer 97, Offer 98, Take, Offer 99, Take, Take]"]
  show ?thesis by (auto simp: contents_def [of "\<lparr>producer = 0, consumer = 0, buffer = replicate 64 0, head = 0, tail = 0\<rparr>"])
qed

text \<open>
  C40: The ring of 64 characters holds one: after \<open>ioqueue_init\<close> and one \<open>ioq_putchar\<close> the queue reports
  that it is full, and a second \<open>ioq_putchar\<close> with the lock free panics in \<open>ioq_wait\<close>, which demands
  that a waiting thread is registered before it registers one.
\<close>

theorem queue_holds_one:
  assumes "intr_get_status s = INTR_OFF" "ioq_ok (ioqs s ioq)" "contents (ioqs s ioq) = []"
    "sem_value s (lock_sema ioq) = 1" "lock_holder s ioq \<noteq> running_thread s" "lock_repeat s ioq = 0"
  shows "\<exists>s'. ioq_putchar ioq b s = Inr (Got (), s') \<and> ioq_full ioq s' = Inr True \<and>
    ioq_putchar ioq b' s' = Inl (Panic ''device/ioqueue.c'' 36 ''ioq_wait'' ''waiter!=NULL && *waiter!=NULL'') \<and>
    ioq_getchar ioq s = Inl (Panic ''device/ioqueue.c'' 36 ''ioq_wait'' ''waiter!=NULL && *waiter!=NULL'')"
proof -
  obtain q where q: "ioq_putchar ioq b s = Inr (Got (), s\<lparr>ioqs := (ioqs s)(ioq := q)\<rparr>)" "ioq_ok q" "contents q = [b]"
    using putchar_stores [OF assms(1-3)] .
  let ?s' = "s\<lparr>ioqs := (ioqs s)(ioq := q)\<rparr>"
  have off: "intr_get_status ?s' = INTR_OFF" using assms(1) by (simp add: intr_get_status_def)
  have full: "ioq_full ioq ?s' = Inr True" using ioq_queries(2) [OF off, of ioq] q(2,3) by simp
  have run: "running_thread ?s' = running_thread s" by (simp add: running_thread_def)
  have turn: "ioq_turn side ioq (Finished, t) = Inl (Panic ''device/ioqueue.c'' 36 ''ioq_wait'' ''waiter!=NULL && *waiter!=NULL'')"
    if "ioq_ok (ioqs t ioq)" for side and t :: "'a queues_scheme"
    using that by (simp add: ioq_turn_def ioq_wait_def waiter_def ioq_ok_def split: ioq_side.split)
  have "ioq_putchar ioq b' ?s' = Inl (Panic ''device/ioqueue.c'' 36 ''ioq_wait'' ''waiter!=NULL && *waiter!=NULL'')"
    using off full assms(4-6) q(2) run by (simp add: ioq_putchar_def putchar_loop_def lock_acquire_free turn)
  moreover have "ioq_getchar ioq s = Inl (Panic ''device/ioqueue.c'' 36 ''ioq_wait'' ''waiter!=NULL && *waiter!=NULL'')"
    using assms ioq_queries(1) [OF assms(1,2)] by (simp add: ioq_getchar_def getchar_loop_def lock_acquire_free turn)
  ultimately show ?thesis using q(1) full by blast
qed

theorem queue_holds_one_witness:
  "\<exists>s'. ioq_putchar 0xc0006600 97 (queues0 nodes_ready) = Inr (Got (), s') \<and> ioq_full 0xc0006600 s' = Inr True"
  using queue_holds_one [OF queues0_off, of nodes_ready "0xc0006600" 97]
  by (auto simp: ioq_ok_def contents_def running_thread_def)

end
