(* ===== verification/Keyboard.thy ===== *)
theory Keyboard
  imports Ioqueue
begin

text \<open>
  device/keyboard.c: the interrupt handler that turns scan codes into characters, with the state of the
  modifier keys and of a pending 0xe0 prefix, and the initialisation.
\<close>

section \<open>State\<close>

record kbd = queues +
  ctrl_status :: bool
  shift_status :: bool
  alt_status :: bool
  caps_lock_status :: bool
  ext_scancode :: bool

definition KBD_BUF_PORT :: u16 where
  "KBD_BUF_PORT = 0x60"

text \<open>The queue is a global variable; its address is that of build/kernel.map.\<close>

definition kbd_buf :: addr where
  "kbd_buf = 0xc0006600"

definition shift_l_make :: u16 where
  "shift_l_make = 0x2a"

definition shift_r_make :: u16 where
  "shift_r_make = 0x36"

definition alt_l_make :: u16 where
  "alt_l_make = 0x38"

definition alt_r_make :: u16 where
  "alt_r_make = 0xe038"

definition ctrl_l_make :: u16 where
  "ctrl_l_make = 0x1d"

definition ctrl_r_make :: u16 where
  "ctrl_r_make = 0xe01d"

definition caps_lock_make :: u16 where
  "caps_lock_make = 0x3a"

definition esc :: u8 where
  "esc = 27"

definition backspace :: u8 where
  "backspace = 8"

definition tab :: u8 where
  "tab = 9"

definition enter :: u8 where
  "enter = 13"

text \<open>Keys with no character: control, shift, alt and caps lock.\<close>

definition char_invisible :: u8 where
  "char_invisible = 0"

definition keymap :: "(u8 \<times> u8) list" where
  "keymap = [
     (0, 0), (esc, esc), (of_char (CHR ''1''), of_char (CHR ''!'')), (of_char (CHR ''2''), of_char (CHR ''@'')),
     (of_char (CHR ''3''), of_char (CHR ''#'')), (of_char (CHR ''4''), of_char (CHR ''$'')), (of_char (CHR ''5''), of_char (CHR ''%'')), (of_char (CHR ''6''), of_char (CHR ''^'')),
     (of_char (CHR ''7''), of_char (CHR ''&'')), (of_char (CHR ''8''), of_char (CHR ''*'')), (of_char (CHR ''9''), of_char (CHR ''('')), (of_char (CHR ''0''), of_char (CHR '')'')),
     (of_char (CHR ''-''), of_char (CHR ''_'')), (of_char (CHR ''=''), of_char (CHR ''+'')), (backspace, backspace), (tab, tab),
     (of_char (CHR ''q''), of_char (CHR ''Q'')), (of_char (CHR ''w''), of_char (CHR ''W'')), (of_char (CHR ''e''), of_char (CHR ''E'')), (of_char (CHR ''r''), of_char (CHR ''R'')),
     (of_char (CHR ''t''), of_char (CHR ''T'')), (of_char (CHR ''y''), of_char (CHR ''Y'')), (of_char (CHR ''u''), of_char (CHR ''U'')), (of_char (CHR ''i''), of_char (CHR ''I'')),
     (of_char (CHR ''o''), of_char (CHR ''O'')), (of_char (CHR ''p''), of_char (CHR ''P'')), (of_char (CHR ''[''), of_char (CHR ''{'')), (of_char (CHR '']''), of_char (CHR ''}'')),
     (enter, enter), (char_invisible, char_invisible), (of_char (CHR ''a''), of_char (CHR ''A'')), (of_char (CHR ''s''), of_char (CHR ''S'')),
     (of_char (CHR ''d''), of_char (CHR ''D'')), (of_char (CHR ''f''), of_char (CHR ''F'')), (of_char (CHR ''g''), of_char (CHR ''G'')), (of_char (CHR ''h''), of_char (CHR ''H'')),
     (of_char (CHR ''j''), of_char (CHR ''J'')), (of_char (CHR ''k''), of_char (CHR ''K'')), (of_char (CHR ''l''), of_char (CHR ''L'')), (of_char (CHR '';''), of_char (CHR '':'')),
     (of_char (CHR 0x27), of_char (CHR 0x22)), (of_char (CHR 0x60), of_char (CHR ''~'')), (char_invisible, char_invisible), (of_char (CHR 0x5c), of_char (CHR ''|'')),
     (of_char (CHR ''z''), of_char (CHR ''Z'')), (of_char (CHR ''x''), of_char (CHR ''X'')), (of_char (CHR ''c''), of_char (CHR ''C'')), (of_char (CHR ''v''), of_char (CHR ''V'')),
     (of_char (CHR ''b''), of_char (CHR ''B'')), (of_char (CHR ''n''), of_char (CHR ''N'')), (of_char (CHR ''m''), of_char (CHR ''M'')), (of_char (CHR '',''), of_char (CHR ''<'')),
     (of_char (CHR ''.''), of_char (CHR ''>'')), (of_char (CHR ''/''), of_char (CHR ''?'')), (char_invisible, char_invisible), (of_char (CHR ''*''), of_char (CHR ''*'')),
     (char_invisible, char_invisible), (of_char (CHR '' ''), of_char (CHR '' '')), (char_invisible, char_invisible)]"

section \<open>Operations\<close>

text \<open>A key is released: its make code is compared with those of the modifier keys.\<close>

definition key_released :: "u16 \<Rightarrow> 'a kbd_scheme \<Rightarrow> 'a kbd_scheme" where
  "key_released make_code s =
     (if make_code = ctrl_l_make \<or> make_code = ctrl_r_make then s\<lparr>ctrl_status := False\<rparr>
      else if make_code = shift_l_make \<or> make_code = shift_r_make then s\<lparr>shift_status := False\<rparr>
      else if make_code = alt_l_make \<or> make_code = alt_r_make then s\<lparr>alt_status := False\<rparr>
      else s)"

definition two_symbol_key :: "u16 \<Rightarrow> bool" where
  "two_symbol_key scancode \<longleftrightarrow> scancode < 0x0e \<or> scancode = 0x29 \<or> scancode = 0x1a \<or> scancode = 0x1b \<or>
     scancode = 0x2b \<or> scancode = 0x27 \<or> scancode = 0x28 \<or> scancode = 0x33 \<or> scancode = 0x34 \<or> scancode = 0x35"

definition use_shift :: "u16 \<Rightarrow> bool \<Rightarrow> bool \<Rightarrow> bool" where
  "use_shift scancode shift_down_last caps_lock_last =
     (if two_symbol_key scancode then shift_down_last
      else if shift_down_last \<and> caps_lock_last then False
      else if shift_down_last \<or> caps_lock_last then True
      else False)"

definition modifier_pressed :: "u16 \<Rightarrow> 'a kbd_scheme \<Rightarrow> 'a kbd_scheme" where
  "modifier_pressed scancode s =
     (if scancode = ctrl_l_make \<or> scancode = ctrl_r_make then s\<lparr>ctrl_status := True\<rparr>
      else if scancode = shift_l_make \<or> scancode = shift_r_make then s\<lparr>shift_status := True\<rparr>
      else if scancode = alt_l_make \<or> scancode = alt_r_make then s\<lparr>alt_status := True\<rparr>
      else if scancode = caps_lock_make then s\<lparr>caps_lock_status := \<not> caps_lock_status s\<rparr>
      else s)"

definition intr_keyboard_handler :: "'a kbd_scheme \<Rightarrow> err + 'a kbd_scheme" where
  "intr_keyboard_handler s =
     (let shift_down_last = shift_status s;
          caps_lock_last = caps_lock_status s;
          scancode = (ucast (inb KBD_BUF_PORT s) :: u16)
      in if scancode = 0xe0 then Inr (s\<lparr>ext_scancode := True\<rparr>)
         else
           let (scancode, s) =
                 (if ext_scancode s then (0xe000 OR scancode, s\<lparr>ext_scancode := False\<rparr>) else (scancode, s))
           in if scancode AND 0x0080 \<noteq> 0 then Inr (key_released (scancode AND 0xff7f) s)
              else if scancode > 0x00 \<and> scancode < 0x3b \<or> scancode = alt_r_make \<or> scancode = ctrl_r_make then
                let shift = use_shift scancode shift_down_last caps_lock_last;
                    scancode = scancode AND 0x00ff
                in if unat scancode < length keymap then
                     let cur_char = (if shift then snd (keymap ! unat scancode) else fst (keymap ! unat scancode))
                     in if cur_char \<noteq> 0 then offer_char kbd_buf cur_char s
                        else Inr (modifier_pressed scancode s)
                   else Inl (Out_Of_Bounds ''keymap'')
              else Inr (put_str (''unknown key'' @ [CHR 0x0a]) s))"

definition keyboard_init :: "'a kbd_scheme \<Rightarrow> err + 'a kbd_scheme" where
  "keyboard_init s =
     (let s = put_str (''keyboard init start'' @ [CHR 0x0a]) s;
          s = ioqueue_init kbd_buf s
      in bindE (register_handler 0x21 Intr_Keyboard_Handler s) (\<lambda>s.
         Inr (put_str (''keyboard init done'' @ [CHR 0x0a]) s)))"

section \<open>What a scan code does\<close>

text \<open>
  The decision that the handler takes, as a function of the byte, of the pending prefix and of the keys
  held, apart from the effect on the state.
\<close>

datatype key_action = Prefix | Released u16 | Typed u8 | Pressed u16 | Unknown | Bad_Index

definition key_char :: "u16 \<Rightarrow> bool \<Rightarrow> u8" where
  "key_char code sh = (if sh then snd (keymap ! unat code) else fst (keymap ! unat code))"

definition code_action :: "bool \<Rightarrow> bool \<Rightarrow> u16 \<Rightarrow> key_action" where
  "code_action sh cp scancode =
     (let index = scancode AND 0x00ff;
          cur_char = key_char index (use_shift scancode sh cp)
      in if scancode AND 0x0080 \<noteq> 0 then Released (scancode AND 0xff7f)
         else if scancode > 0x00 \<and> scancode < 0x3b \<or> scancode = alt_r_make \<or> scancode = ctrl_r_make then
           if unat index < length keymap then if cur_char \<noteq> 0 then Typed cur_char else Pressed index
           else Bad_Index
         else Unknown)"

definition key_action :: "bool \<Rightarrow> bool \<Rightarrow> bool \<Rightarrow> u8 \<Rightarrow> key_action" where
  "key_action sh cp ext b = (if b = 0xe0 then Prefix else code_action sh cp (if ext then 0xe000 OR ucast b else ucast b))"

fun perform :: "key_action \<Rightarrow> 'a kbd_scheme \<Rightarrow> err + 'a kbd_scheme" where
  "perform Prefix s = Inr (s\<lparr>ext_scancode := True\<rparr>)"
| "perform (Released c) s = Inr (key_released c s)"
| "perform (Typed c) s = offer_char kbd_buf c s"
| "perform (Pressed c) s = Inr (modifier_pressed c s)"
| "perform Unknown s = Inr (put_str (''unknown key'' @ [CHR 0x0a]) s)"
| "perform Bad_Index s = Inl (Out_Of_Bounds ''keymap'')"

text \<open>The keyboard of the specification: which character a key types, and what the keys held are.\<close>

definition typed_char :: "u8 \<Rightarrow> bool \<Rightarrow> bool \<Rightarrow> u8" where
  "typed_char b sh cp =
     (let (plain, shifted) = keymap ! unat b
      in if of_char (CHR ''a'') \<le> plain \<and> plain \<le> of_char (CHR ''z'') then (if sh \<noteq> cp then plain - 32 else plain)
         else if sh then shifted else plain)"

definition modifier_keys :: "u8 list" where
  "modifier_keys = [0x1d, 0x2a, 0x36, 0x38, 0x3a]"

fun decode :: "bool \<Rightarrow> bool \<Rightarrow> bool \<Rightarrow> u8 list \<Rightarrow> u8 list" where
  "decode sh cp ext [] = []"
| "decode sh cp ext (b # bs) =
     (if b = 0xe0 then decode sh cp True bs
      else if ext then decode sh cp False bs
      else if b = 0x2a \<or> b = 0x36 then decode True cp False bs
      else if b = 0xaa \<or> b = 0xb6 then decode False cp False bs
      else if b = 0x3a then decode sh (\<not> cp) False bs
      else if 0 < b \<and> b < 0x3b \<and> b \<notin> set modifier_keys then typed_char b sh cp # decode sh cp False bs
      else decode sh cp False bs)"

definition key_row_ok :: "nat \<Rightarrow> u8 \<times> u8 \<Rightarrow> bool" where
  "key_row_ok n key =
     ((fst key = 0) = (of_nat n \<in> set (0 # modifier_keys)) \<and> (snd key = 0) = (of_nat n \<in> set (0 # modifier_keys)) \<and>
      (if of_char (CHR ''a'') \<le> fst key \<and> fst key \<le> of_char (CHR ''z'')
       then \<not> two_symbol_key (of_nat n) \<and> snd key = fst key - 32
       else two_symbol_key (of_nat n) \<or> fst key = snd key))"

lemma length_keymap: "length keymap = 59"
  by (simp add: keymap_def)

lemma keymap_rows: "list_all (\<lambda>(n, key). key_row_ok n key) (zip [0..<59] keymap)"
  by code_simp

lemma keymap_row: "n < 59 \<Longrightarrow> key_row_ok n (keymap ! n)"
  using keymap_rows by (auto simp: list_all_length length_keymap)

lemma unat_u8_less: "unat (b :: u8) < 256"
  using unsigned_less [of b, where ?'a = nat] by simp

lemma unat_u8_u16: "unat (ucast (b :: u8) :: u16) = unat b"
  using unat_u8_less [of b] by (simp add: unsigned_ucast_eq take_bit_nat_eq_self)

lemma u8_high_bit: "bit (b :: u8) 7 \<longleftrightarrow> 0x80 \<le> b"
proof -
  have "bit b 7 \<longleftrightarrow> bit (unat b) 7" by (simp add: bit_simps)
  also have "\<dots> \<longleftrightarrow> odd (unat b div 128)" by (simp add: bit_iff_odd)
  also have "\<dots> \<longleftrightarrow> 128 \<le> unat b"
  proof (cases "unat b < 128")
    case False
    then have "unat b div 128 = 1" using unat_u8_less [of b] by (intro div_nat_eqI) auto
    with False show ?thesis by simp
  qed simp
  finally show ?thesis by (simp add: word_le_nat_alt)
qed

lemma and_0x80: "(c :: u16) AND 0x0080 \<noteq> 0 \<longleftrightarrow> bit c 7"
  using and_exp_eq_0_iff_not_bit [of c 7] by simp

lemma break_bit: "(ucast (b :: u8) :: u16) AND 0x0080 \<noteq> 0 \<longleftrightarrow> 0x80 \<le> b"
  unfolding and_0x80 by (simp add: bit_simps u8_high_bit)

lemma unat_ext: "unat (0xe000 OR ucast (b :: u8) :: u16) = 0xe000 + unat b"
proof -
  have "8 \<le> n" if "bit (push_bit 8 (0xe0 :: u16)) n" for n using that by (simp only: bit_push_bit_iff)
  then have "8 \<le> n" if "bit (0xe000 :: u16) n" for n using that by simp
  moreover have "n < 8" if "bit (ucast b :: u16) n" for n using that by (auto simp: bit_simps dest: bit_imp_le_length)
  ultimately have "(0xe000 AND ucast b :: u16) = 0" by (intro bit_eqI) (auto simp: bit_and_iff not_less [symmetric])
  then have "(0xe000 OR ucast b :: u16) = 0xe000 + ucast b" by (simp add: disjunctive_add_eq_or)
  then show ?thesis using unat_u8_less [of b] by (simp add: unat_word_ariths unat_u8_u16)
qed

lemma ext_codes:
  fixes b :: u8
  shows "(0xe000 OR ucast b :: u16) AND 0x0080 \<noteq> 0 \<longleftrightarrow> 0x80 \<le> b"
    "\<not> (0xe000 OR ucast b :: u16) < 0x3b"
    "(0xe000 OR ucast b :: u16) = 0xe038 \<longleftrightarrow> b = 0x38"
    "(0xe000 OR ucast b :: u16) = 0xe01d \<longleftrightarrow> b = 0x1d"
    "(0xe000 OR ucast b :: u16) AND 0xff7f \<noteq> 0x2a" "(0xe000 OR ucast b :: u16) AND 0xff7f \<noteq> 0x36"
proof -
  let ?c = "0xe000 OR ucast b :: u16"
  show "?c AND 0x0080 \<noteq> 0 \<longleftrightarrow> 0x80 \<le> b"
    unfolding and_0x80 by (simp add: bit_simps u8_high_bit)
  show "\<not> ?c < 0x3b" "?c = 0xe038 \<longleftrightarrow> b = 0x38" "?c = 0xe01d \<longleftrightarrow> b = 0x1d"
    using unat_ext [of b] by (simp_all add: word_less_nat_alt word_unat_eq_iff)
  have "bit (?c AND 0xff7f) 15" by (simp add: bit_simps)
  moreover have "\<not> bit (0x2a :: u16) 15" "\<not> bit (0x36 :: u16) 15" by simp_all
  ultimately show "?c AND 0xff7f \<noteq> 0x2a" "?c AND 0xff7f \<noteq> 0x36" by metis+
qed
lemma released_code:
  assumes "bit (c :: u16) 7"
  shows "c = (c AND 0xff7f) OR 0x80"
proof -
  define d :: u16 where "d = 2 ^ 7"
  have "bit d n \<longleftrightarrow> n = 7" if "n < 16" for n
    unfolding d_def using that by (simp only: bit_exp_iff) auto
  then have "c = (c AND NOT d) OR d"
    using assms by (intro bit_eqI) (auto simp: bit_or_iff bit_and_iff bit_not_iff)
  moreover have "NOT d = 0xff7f" "d = 0x80" unfolding d_def by code_simp+
  ultimately show ?thesis by metis
qed

lemma u8_low_byte: "(ucast (b :: u8) :: u16) AND 0x00ff = ucast b"
proof -
  have "(ucast b :: u16) AND mask 8 = ucast b"
    by (intro bit_eqI) (auto simp: bit_simps dest: bit_imp_le_length)
  moreover have "(mask 8 :: u16) = 0x00ff" by (simp add: mask_eq_exp_minus_1)
  ultimately show ?thesis by simp
qed

lemma ucast_u8_eq: "(ucast (b :: u8) :: u16) = ucast d \<longleftrightarrow> b = d"
  by (simp add: word_unat_eq_iff unat_u8_u16)

lemma released_shift:
  assumes "0x80 \<le> b"
  shows "(ucast (b :: u8) :: u16) AND 0xff7f = 0x2a \<longleftrightarrow> b = 0xaa" "(ucast b :: u16) AND 0xff7f = 0x36 \<longleftrightarrow> b = 0xb6"
proof -
  have "bit (ucast b :: u16) 7" using assms by (simp add: bit_simps u8_high_bit)
  from released_code [OF this]
  have "(ucast b :: u16) AND 0xff7f = 0x2a \<Longrightarrow> (ucast b :: u16) = ucast (0xaa :: u8)"
    "(ucast b :: u16) AND 0xff7f = 0x36 \<Longrightarrow> (ucast b :: u16) = ucast (0xb6 :: u8)" by auto
  then show "(ucast (b :: u8) :: u16) AND 0xff7f = 0x2a \<longleftrightarrow> b = 0xaa" "(ucast b :: u16) AND 0xff7f = 0x36 \<longleftrightarrow> b = 0xb6"
    unfolding ucast_u8_eq by auto
qed

lemma action_ext:
  "key_action sh cp True b =
     (if b = 0xe0 then Prefix else if 0x80 \<le> b then Released ((0xe000 OR ucast b) AND 0xff7f)
      else if b = 0x38 \<or> b = 0x1d then Pressed (ucast b) else Unknown)"
proof -
  have "key_row_ok 0x38 (keymap ! 0x38)" "key_row_ok 0x1d (keymap ! 0x1d)" by (simp_all add: keymap_row)
  then have "key_char 0x38 x = 0" "key_char 0x1d x = 0" for x
    by (simp_all add: key_row_ok_def modifier_keys_def key_char_def)
  then show ?thesis
    by (auto simp: key_action_def code_action_def Let_def ext_codes alt_r_make_def ctrl_r_make_def length_keymap)
qed

lemma action_plain:
  "key_action sh cp False b =
     (if b = 0xe0 then Prefix else if 0x80 \<le> b then Released (ucast b AND 0xff7f)
      else if 0 < b \<and> b < 0x3b then
        if b \<in> set modifier_keys then Pressed (ucast b) else Typed (typed_char b sh cp)
      else Unknown)"
proof (cases "0 < b \<and> b < 0x3b")
  case True
  let ?key = "keymap ! unat b"
  have n: "unat b < 59" using True by (simp add: word_less_nat_alt)
  have "of_nat (unat b) = (ucast b :: u16)" by (simp add: word_unat_eq_iff unat_u8_u16 unsigned_of_nat take_bit_nat_eq_self unat_u8_less [THEN less_trans])
  with keymap_row [OF n] True have row: "(fst ?key = 0) = (b \<in> set modifier_keys)" "(snd ?key = 0) = (b \<in> set modifier_keys)"
    "if of_char (CHR ''a'') \<le> fst ?key \<and> fst ?key \<le> of_char (CHR ''z'')
       then \<not> two_symbol_key (ucast b) \<and> snd ?key = fst ?key - 32
       else two_symbol_key (ucast b) \<or> fst ?key = snd ?key"
    by (auto simp: key_row_ok_def)
  have "\<not> 0x80 \<le> b" using True by (simp add: word_less_nat_alt word_le_nat_alt)
  moreover have "0 < (ucast b :: u16)" "(ucast b :: u16) < 0x3b" using True by (simp_all add: word_less_nat_alt unat_u8_u16)
  moreover have "(if use_shift (ucast b) sh cp then snd ?key else fst ?key) = typed_char b sh cp"
    using row(3) by (auto simp: use_shift_def typed_char_def split_beta split: if_splits)
  moreover have "((if use_shift (ucast b) sh cp then snd ?key else fst ?key) = 0) = (b \<in> set modifier_keys)"
    using row(1,2) by simp
  ultimately show ?thesis using True n
    by (auto simp: key_action_def code_action_def Let_def key_char_def length_keymap u8_low_byte unat_u8_u16 break_bit)
next
  case False
  then have "\<not> (0 < (ucast b :: u16) \<and> (ucast b :: u16) < 0x3b)" by (auto simp: word_less_nat_alt unat_u8_u16)
  moreover have "(ucast b :: u16) \<noteq> alt_r_make" "(ucast b :: u16) \<noteq> ctrl_r_make"
    using unat_u8_less [of b] by (auto simp: word_unat_eq_iff unat_u8_u16 alt_r_make_def ctrl_r_make_def)
  ultimately show ?thesis using False by (auto simp: key_action_def code_action_def Let_def break_bit)
qed
lemma ucast_u8_u16_e0: "(ucast (b :: u8) :: u16) = 0xe0 \<longleftrightarrow> b = 0xe0"
  using ucast_u8_eq [of b "0xe0"] by simp

lemma handler_action:
  "intr_keyboard_handler s =
     perform (key_action (shift_status s) (caps_lock_status s) (ext_scancode s) (inb KBD_BUF_PORT s)) (s\<lparr>ext_scancode := False\<rparr>)"
proof -
  have body: "(if c AND 0x0080 \<noteq> 0 then Inr (key_released (c AND 0xff7f) t)
      else if c > 0x00 \<and> c < 0x3b \<or> c = alt_r_make \<or> c = ctrl_r_make then
        if unat (c AND 0x00ff) < length keymap then
          let cur_char = (if use_shift c sh cp then snd (keymap ! unat (c AND 0x00ff)) else fst (keymap ! unat (c AND 0x00ff)))
          in if cur_char \<noteq> 0 then offer_char kbd_buf cur_char t else Inr (modifier_pressed (c AND 0x00ff) t)
        else Inl (Out_Of_Bounds ''keymap'')
      else Inr (put_str (''unknown key'' @ [CHR 0x0a]) t)) = perform (code_action sh cp c) t" for c sh cp and t :: "'a kbd_scheme"
    unfolding code_action_def key_char_def Let_def by (simp split: if_split)
  have ext: "(if ext_scancode s then (d, s\<lparr>ext_scancode := False\<rparr>) else (c, s)) =
    (if ext_scancode s then d else c, s\<lparr>ext_scancode := False\<rparr>)" for c d :: u16
    by simp
  show ?thesis
    unfolding intr_keyboard_handler_def Let_def [of "shift_status s"] Let_def [of "caps_lock_status s"] ext prod.case
      Let_def [of "use_shift c x y" for c x y] Let_def [of "c AND 0x00ff" for c :: u16] body Let_def [of "ucast x" for x]
    by (simp add: key_action_def ucast_u8_u16_e0 ext body)
qed
section \<open>Typing\<close>

text \<open>
  The bytes \<open>bs\<close> arrive at the port one after the other; the handler runs for each, and a reader takes what
  the queue then holds.
\<close>

definition key_byte :: "u8 \<Rightarrow> 'a kbd_scheme \<Rightarrow> 'a kbd_scheme" where
  "key_byte b s = s\<lparr>port_in := (port_in s)(KBD_BUF_PORT := b)\<rparr>"

fun type_keys :: "u8 list \<Rightarrow> 'a kbd_scheme \<Rightarrow> err + u8 list \<times> 'a kbd_scheme" where
  "type_keys [] s = Inr ([], s)"
| "type_keys (b # bs) s =
     bindE (intr_keyboard_handler (key_byte b s)) (\<lambda>s.
     bindE (poll_char kbd_buf s) (\<lambda>(out, s).
     bindE (type_keys bs s) (\<lambda>(outs, s). Inr (out @ outs, s))))"

lemma queue_ready_cong:
  "eflags s = eflags t \<Longrightarrow> ioqs s ioq = ioqs t ioq \<Longrightarrow> queue_ready ioq s = queue_ready ioq t"
  by (simp add: queue_ready_def intr_get_status_def)

lemma offer_poll_char:
  assumes "queue_ready ioq s" "contents (ioqs s ioq) = []"
  obtains q q' where "offer_char ioq c s = Inr (s\<lparr>ioqs := (ioqs s)(ioq := q)\<rparr>)" "queue_ready ioq (s\<lparr>ioqs := (ioqs s)(ioq := q)\<rparr>)"
    "poll_char ioq (s\<lparr>ioqs := (ioqs s)(ioq := q)\<rparr>) = Inr ([c], s\<lparr>ioqs := (ioqs s)(ioq := q')\<rparr>)" "ioq_ok q'" "contents q' = []"
proof -
  have r: "intr_get_status s = INTR_OFF" "ioq_ok (ioqs s ioq)" using assms(1) by (simp_all add: queue_ready_def)
  obtain q where q: "ioq_putchar ioq c s = Inr (Got (), s\<lparr>ioqs := (ioqs s)(ioq := q)\<rparr>)" "ioq_ok q" "contents q = [c]"
    using putchar_stores [OF r assms(2)] .
  let ?t = "s\<lparr>ioqs := (ioqs s)(ioq := q)\<rparr>"
  have t: "intr_get_status ?t = INTR_OFF" "ioq_ok (ioqs ?t ioq)" "contents (ioqs ?t ioq) = [c]"
    using r(1) q by (simp_all add: intr_get_status_def)
  obtain q' where q': "ioq_getchar ioq ?t = Inr (Got c, ?t\<lparr>ioqs := (ioqs ?t)(ioq := q')\<rparr>)" "ioq_ok q'" "contents q' = []"
    using getchar_takes [OF t] .
  show thesis
    using that [of q q'] q(1) q' t ioq_queries [OF r] ioq_queries [OF t(1,2)] assms(2)
    by (simp add: offer_char_def poll_char_def queue_ready_def)
qed

lemma poll_empty: "queue_ready ioq s \<Longrightarrow> contents (ioqs s ioq) = [] \<Longrightarrow> poll_char ioq s = Inr ([], s)"
  by (rule ring.take_empty)

definition idle_kbd :: "'a kbd_scheme \<Rightarrow> bool" where
  "idle_kbd s \<longleftrightarrow> queue_ready kbd_buf s \<and> contents (ioqs s kbd_buf) = []"

lemma idle_kbd_cong: "eflags s = eflags t \<Longrightarrow> ioqs s = ioqs t \<Longrightarrow> idle_kbd s = idle_kbd t"
  using queue_ready_cong [of s t kbd_buf] by (simp add: idle_kbd_def)

text \<open>A byte that types nothing changes only the keys held, the prefix and the screen.\<close>

lemma silent_step:
  assumes "idle_kbd s" "perform a (s\<lparr>ext_scancode := False\<rparr>) = Inr t" "\<forall>c. a \<noteq> Typed c"
  shows "idle_kbd t \<and> poll_char kbd_buf t = Inr ([], t)"
proof -
  have "eflags t = eflags s \<and> ioqs t = ioqs s"
    using assms(2,3) by (cases a) (auto simp: key_released_def modifier_pressed_def put_str_def split: if_splits)
  with assms(1) have "idle_kbd t" using idle_kbd_cong [of t s] by simp
  then show ?thesis by (simp add: idle_kbd_def poll_empty)
qed

lemmas modifier_codes = ctrl_l_make_def ctrl_r_make_def shift_l_make_def shift_r_make_def alt_l_make_def alt_r_make_def
  caps_lock_make_def

lemma released_status:
  "shift_status (key_released c s) = (shift_status s \<and> c \<noteq> shift_l_make \<and> c \<noteq> shift_r_make)"
  "caps_lock_status (key_released c s) = caps_lock_status s" "ext_scancode (key_released c s) = ext_scancode s"
  by (auto simp: key_released_def modifier_codes)

lemma pressed_status:
  "shift_status (modifier_pressed c s) = (shift_status s \<or> c = shift_l_make \<or> c = shift_r_make)"
  "caps_lock_status (modifier_pressed c s) = (caps_lock_status s \<noteq> (c = caps_lock_make))"
  "ext_scancode (modifier_pressed c s) = ext_scancode s"
  by (auto simp: modifier_pressed_def modifier_codes)

lemma put_str_kbd [simp]:
  "shift_status (put_str m s) = shift_status s" "caps_lock_status (put_str m s) = caps_lock_status s"
  "ext_scancode (put_str m s) = ext_scancode s"
  by (simp_all add: put_str_def)

lemma ucast_modifiers:
  "(ucast (b :: u8) :: u16) = shift_l_make \<longleftrightarrow> b = 0x2a" "(ucast b :: u16) = shift_r_make \<longleftrightarrow> b = 0x36"
  "(ucast b :: u16) = caps_lock_make \<longleftrightarrow> b = 0x3a"
  using ucast_u8_eq [of b "0x2a"] ucast_u8_eq [of b "0x36"] ucast_u8_eq [of b "0x3a"] by (simp_all add: modifier_codes)
text \<open>A code with the prefix 0xe0 changes neither shift nor caps lock.\<close>

lemma extended_silent:
  assumes "perform (key_action sh cp True b) c = Inr t" "b \<noteq> 0xe0"
  shows "shift_status t = shift_status c \<and> caps_lock_status t = caps_lock_status c \<and> ext_scancode t = ext_scancode c"
proof -
  consider "0x80 \<le> b" | "\<not> 0x80 \<le> b" "b = 0x38 \<or> b = 0x1d" | "\<not> 0x80 \<le> b" "b \<noteq> 0x38" "b \<noteq> 0x1d" by blast
  then show ?thesis
  proof cases
    case 1
    then have "t = key_released ((0xe000 OR ucast b) AND 0xff7f) c" using assms by (simp add: action_ext)
    then show ?thesis using ext_codes(5,6) [of b] by (simp add: released_status shift_l_make_def shift_r_make_def)
  next
    case 2
    then have "t = modifier_pressed (ucast b) c" using assms by (auto simp: action_ext)
    then show ?thesis using 2(2) by (auto simp: pressed_status modifier_codes)
  next
    case 3
    then have "t = put_str (''unknown key'' @ [CHR 0x0a]) c" using assms by (simp add: action_ext)
    then show ?thesis by simp
  qed
qed

lemma silent_decode:
  assumes "perform (key_action sh cp ext b) c = Inr t" "\<forall>ch. key_action sh cp ext b \<noteq> Typed ch"
    "shift_status c = sh" "caps_lock_status c = cp" "\<not> ext_scancode c"
  shows "decode sh cp ext (b # bs) = decode (shift_status t) (caps_lock_status t) (ext_scancode t) bs"
proof (cases "b = 0xe0")
  case True
  then have "t = c\<lparr>ext_scancode := True\<rparr>" using assms(1) by (simp add: key_action_def)
  then show ?thesis using assms(3,4) True by simp
next
  case pre: False
  show ?thesis
  proof (cases ext)
    case True
    have "shift_status t = sh \<and> caps_lock_status t = cp \<and> \<not> ext_scancode t"
      using extended_silent [of sh cp b c t] assms True pre by simp
    then show ?thesis using True pre by simp
  next
    case False
    consider "0x80 \<le> b" | "\<not> 0x80 \<le> b" "b \<in> set modifier_keys" | "\<not> 0x80 \<le> b" "b = 0 \<or> 0x3b \<le> b"
    proof -
      have "b \<in> set modifier_keys \<or> b = 0 \<or> 0x3b \<le> b" if "\<not> 0x80 \<le> b"
        using assms(2) False pre that word_gt_0 [of b] by (auto simp: action_plain not_less split: if_splits)
      then show thesis using that by blast
    qed
    then show ?thesis
    proof cases
      case 1
      then have t: "t = key_released (ucast b AND 0xff7f) c" using assms(1) False pre by (simp add: action_plain)
      have "\<not> b < 0x3b" "b \<noteq> 0x2a" "b \<noteq> 0x36" "b \<noteq> 0x3a" using 1 by (auto simp: word_le_nat_alt word_less_nat_alt)
      then show ?thesis using t assms(3-5) released_shift [OF 1] False pre
        by (simp add: released_status shift_l_make_def shift_r_make_def)
    next
      case 2
      then have "0 < b \<and> b < 0x3b" by (auto simp: modifier_keys_def)
      with 2 have t: "t = modifier_pressed (ucast b) c" using assms(1) False pre by (simp add: action_plain)
      show ?thesis using t assms(3-5) 2(2) False by (auto simp: pressed_status ucast_modifiers modifier_keys_def)
    next
      case 3
      then have "key_action sh cp False b = Unknown" using pre by (auto simp: action_plain not_less)
      then have t: "t = put_str (''unknown key'' @ [CHR 0x0a]) c" using assms(1) False by simp
      have "b \<noteq> 0x2a" "b \<noteq> 0x36" "b \<noteq> 0x3a" "b \<noteq> 0xaa" "b \<noteq> 0xb6" "\<not> (0 < b \<and> b < 0x3b)"
        using 3 by (auto simp: word_le_nat_alt word_less_nat_alt)
      then show ?thesis using t assms(3-5) False pre by auto
    qed
  qed
qed

text \<open>One byte: the handler returns, the reader gets the character of the specification or none.\<close>

lemma key_step:
  assumes "idle_kbd s"
  shows "\<exists>t out u. intr_keyboard_handler (key_byte b s) = Inr t \<and> poll_char kbd_buf t = Inr (out, u) \<and> idle_kbd u \<and>
    (\<forall>bs. decode (shift_status s) (caps_lock_status s) (ext_scancode s) (b # bs) =
      out @ decode (shift_status u) (caps_lock_status u) (ext_scancode u) bs)"
proof -
  let ?s = "key_byte b s"
  let ?c = "?s\<lparr>ext_scancode := False\<rparr>"
  have idle: "idle_kbd ?s" "idle_kbd ?c" using assms idle_kbd_cong [of ?s s] idle_kbd_cong [of ?c s] by (simp_all add: key_byte_def)
  have fields: "shift_status ?s = shift_status s" "caps_lock_status ?s = caps_lock_status s" "ext_scancode ?s = ext_scancode s"
    "inb KBD_BUF_PORT ?s = b"
    by (simp_all add: key_byte_def inb_def)
  define a where "a = key_action (shift_status s) (caps_lock_status s) (ext_scancode s) b"
  have run: "intr_keyboard_handler ?s = perform a ?c"
    using handler_action [of ?s] by (simp add: fields a_def)
  show ?thesis
  proof (cases "\<exists>ch. a = Typed ch")
    case True
    then obtain ch where ch: "a = Typed ch" by blast
    obtain q q' where q: "offer_char kbd_buf ch ?c = Inr (?c\<lparr>ioqs := (ioqs ?c)(kbd_buf := q)\<rparr>)"
      "poll_char kbd_buf (?c\<lparr>ioqs := (ioqs ?c)(kbd_buf := q)\<rparr>) = Inr ([ch], ?c\<lparr>ioqs := (ioqs ?c)(kbd_buf := q')\<rparr>)"
      "ioq_ok q'" "contents q' = []"
      using offer_poll_char [of kbd_buf ?c ch] idle(2) unfolding idle_kbd_def by metis
    let ?u = "?c\<lparr>ioqs := (ioqs ?c)(kbd_buf := q')\<rparr>"
    have "idle_kbd ?u" using idle(2) q(3,4) by (simp add: idle_kbd_def queue_ready_def intr_get_status_def)
    moreover have "\<not> ext_scancode s \<and> b \<noteq> 0xe0 \<and> 0 < b \<and> b < 0x3b \<and> b \<notin> set modifier_keys \<and>
      ch = typed_char b (shift_status s) (caps_lock_status s)"
      using ch by (cases "ext_scancode s") (auto simp: a_def action_ext action_plain split: if_splits)
    moreover have "b \<noteq> 0xaa" "b \<noteq> 0xb6" if "b < 0x3b" using that by auto
    ultimately show ?thesis using run ch q(1,2) fields
      by (intro exI [of _ "?c\<lparr>ioqs := (ioqs ?c)(kbd_buf := q)\<rparr>"] exI [of _ "[ch]"] exI [of _ ?u]) (auto simp: modifier_keys_def)
  next
    case False
    have "a \<noteq> Bad_Index" by (cases "ext_scancode s") (simp_all add: a_def action_ext action_plain)
    with False obtain t where t: "perform a ?c = Inr t" by (cases a) auto
    have "idle_kbd t" "poll_char kbd_buf t = Inr ([], t)" using silent_step [OF idle(1) t] False by auto
    moreover have "decode (shift_status s) (caps_lock_status s) (ext_scancode s) (b # bs) =
      decode (shift_status t) (caps_lock_status t) (ext_scancode t) bs" for bs
      using silent_decode [of "shift_status s" "caps_lock_status s" "ext_scancode s" b ?c t bs] t False by (simp add: a_def fields)
    ultimately show ?thesis using run t by (intro exI [of _ t] exI [of _ "[]"]) simp
  qed
qed
text \<open>
  After \<open>keyboard_init\<close> the vector 0x21 leads to the keyboard handler, the queue is empty and accepts a
  character, and the other vectors are as before.
\<close>

lemma keyboard_init_run:
  assumes "0x21 < length (idt_table s)" "length (buffer (ioqs s kbd_buf)) = 64"
  obtains v h q where "keyboard_init s = Inr (s\<lparr>screen := v, elems := h, sem_value := (sem_value s)(lock_sema kbd_buf := 1),
      lock_holder := (lock_holder s)(kbd_buf := NULL), lock_repeat := (lock_repeat s)(kbd_buf := 0),
      ioqs := (ioqs s)(kbd_buf := q), idt_table := (idt_table s)[0x21 := Intr_Keyboard_Handler]\<rparr>)"
    "\<forall>a. a \<notin> set (list_nodes (waiters (lock_sema kbd_buf)) []) \<longrightarrow> h a = elems s a" "is_list h (waiters (lock_sema kbd_buf)) []"
    "ioq_ok q" "contents q = []"
proof -
  let ?p = "put_str (''keyboard init start'' @ [CHR 0x0a]) s"
  have "length (buffer (ioqs ?p kbd_buf)) = 64" using assms(2) by (simp add: put_str_def)
  then obtain h q where q: "ioqueue_init kbd_buf ?p = ?p\<lparr>elems := h, sem_value := (sem_value ?p)(lock_sema kbd_buf := 1),
      lock_holder := (lock_holder ?p)(kbd_buf := NULL), lock_repeat := (lock_repeat ?p)(kbd_buf := 0), ioqs := (ioqs ?p)(kbd_buf := q)\<rparr>"
    "\<forall>a. a \<notin> set (list_nodes (waiters (lock_sema kbd_buf)) []) \<longrightarrow> h a = elems ?p a" "is_list h (waiters (lock_sema kbd_buf)) []"
    "ioq_ok q" "contents q = []"
    by (rule ioqueue_init_run)
      (simp add: list_nodes_def list_head_def list_tail_def waiters_def lock_sema_def kbd_buf_def)
  show thesis
    using assms(1) q by (intro that [where h = h and q = q and v = "screen (put_str (''keyboard init done'' @ [CHR 0x0a]) ?p)"]) (simp_all add: keyboard_init_def Let_def register_handler_def put_str_def)
qed

section \<open>Properties\<close>

text \<open>
  C11: From any state with interrupts off and an empty queue, for every sequence of bytes from the keyboard
  the handler never panics and never reads outside \<open>keymap\<close>, and a reader that takes each character gets
  exactly those of the specification \<open>decode\<close>: shift is held between its make and its break code, each
  press of caps lock inverts the case of letters only, the codes after the prefix 0xe0 type nothing.
\<close>

theorem keyboard_decodes:
  assumes "intr_get_status s = INTR_OFF" "ioq_ok (ioqs s kbd_buf)" "contents (ioqs s kbd_buf) = []"
  shows "\<exists>s'. type_keys bs s = Inr (decode (shift_status s) (caps_lock_status s) (ext_scancode s) bs, s')"
proof -
  have "idle_kbd s" using assms by (simp add: idle_kbd_def queue_ready_def)
  then show ?thesis
  proof (induction bs arbitrary: s)
    case (Cons b bs)
    obtain t out u where "intr_keyboard_handler (key_byte b s) = Inr t" "poll_char kbd_buf t = Inr (out, u)" "idle_kbd u"
      "decode (shift_status s) (caps_lock_status s) (ext_scancode s) (b # bs) =
        out @ decode (shift_status u) (caps_lock_status u) (ext_scancode u) bs"
      using key_step [OF Cons.prems, of b] by blast
    then show ?case using Cons.IH [of u] by auto
  qed simp
qed

definition kbd0 :: kbd where
  "kbd0 = queues.extend (queues0 nodes_ready) (kbd.fields False False False False False)"

lemma kbd0_simps [simp]:
  "eflags kbd0 = 2" "shift_status kbd0 = False" "caps_lock_status kbd0 = False" "ext_scancode kbd0 = False"
  "ioqs kbd0 = ioqs (queues0 nodes_ready)" "idt_table kbd0 = idt_table (queues0 nodes_ready)"
  using queues0_simps(1) [of nodes_ready] by (simp_all add: kbd0_def queues.extend_def kbd.fields_def)

text \<open>Shift, \<open>h\<close>, release of shift, \<open>i\<close>, caps lock, \<open>i\<close>, the digit 1.\<close>

theorem keyboard_decodes_witness:
  "\<exists>s'. type_keys [0x2a, 0x23, 0xaa, 0x17, 0x3a, 0xba, 0x17, 0x02] kbd0 = Inr (cstr ''HiI1'', s')"
proof -
  have "intr_get_status kbd0 = INTR_OFF" by (simp add: intr_get_status_def EFLAGS_IF_def)
  moreover have "ioq_ok (ioqs kbd0 kbd_buf)" "contents (ioqs kbd0 kbd_buf) = []" by (simp_all add: ioq_ok_def contents_def)
  moreover have "decode False False False [0x2a, 0x23, 0xaa, 0x17, 0x3a, 0xba, 0x17, 0x02] = cstr ''HiI1''"
    by (simp add: typed_char_def keymap_def modifier_keys_def cstr_def)
  ultimately show ?thesis using keyboard_decodes [of kbd0 "[0x2a, 0x23, 0xaa, 0x17, 0x3a, 0xba, 0x17, 0x02]"] by simp
qed

end
