(* ===== verification/Tss.thy ===== *)
theory Tss
  imports Keyboard
begin

text \<open>
  userprog/tss.c with the descriptor constants of kernel/global.h: the task state segment, the segment
  descriptors that \<open>tss_init\<close> adds to the table the loader left at 0xc0000900, and the two instructions
  \<open>lgdt\<close> and \<open>ltr\<close>. Descriptors are records in a store indexed by their address.
\<close>

section \<open>State\<close>

record gdt_desc =
  limit_low_word :: u16
  base_low_word :: u16
  base_mid_byte :: u8
  attr_low_byte :: u8
  limit_high_attr_high :: u8
  base_high_byte :: u8

text \<open>The fields of \<open>struct tss\<close>, with a prefix where the machine has a register of that name.\<close>

record tss_struct =
  tss_backlink :: u32
  tss_esp0 :: addr
  tss_ss0 :: u32
  tss_esp1 :: addr
  tss_ss1 :: u32
  tss_esp2 :: addr
  tss_ss2 :: u32
  tss_cr3 :: u32
  tss_eip :: addr
  tss_eflags :: u32
  tss_eax :: u32
  tss_ecx :: u32
  tss_edx :: u32
  tss_ebx :: u32
  tss_esp :: u32
  tss_ebp :: u32
  tss_esi :: u32
  tss_edi :: u32
  tss_es :: u32
  tss_cs :: u32
  tss_ss :: u32
  tss_ds :: u32
  tss_fs :: u32
  tss_gs :: u32
  tss_ldt :: u32
  tss_trace :: u32
  tss_io_base :: u32

record segs = kbd +
  tss :: tss_struct
  gdt :: "addr \<Rightarrow> gdt_desc"
  gdt_operand :: u64

text \<open>The address of the static variable \<open>tss\<close> is that of build/kernel.map.\<close>

definition tss_addr :: addr where
  "tss_addr = 0xc0006340"

definition sizeof_tss :: u32 where
  "sizeof_tss = 27 * 4"

definition zero_tss :: tss_struct where
  "zero_tss = \<lparr>tss_backlink = 0, tss_esp0 = 0, tss_ss0 = 0, tss_esp1 = 0, tss_ss1 = 0, tss_esp2 = 0, tss_ss2 = 0, tss_cr3 = 0,
     tss_eip = 0, tss_eflags = 0, tss_eax = 0, tss_ecx = 0, tss_edx = 0, tss_ebx = 0, tss_esp = 0, tss_ebp = 0, tss_esi = 0,
     tss_edi = 0, tss_es = 0, tss_cs = 0, tss_ss = 0, tss_ds = 0, tss_fs = 0, tss_gs = 0, tss_ldt = 0, tss_trace = 0,
     tss_io_base = 0\<rparr>"

section \<open>Constants of kernel/global.h\<close>

definition DESC_G_4K :: u8 where "DESC_G_4K = 1"

definition DESC_D_32 :: u8 where "DESC_D_32 = 1"

definition DESC_L :: u8 where "DESC_L = 0"

definition DESC_AVL :: u8 where "DESC_AVL = 0"

definition DESC_P :: u8 where "DESC_P = 1"

definition DESC_DPL_0 :: u8 where "DESC_DPL_0 = 0"

definition DESC_DPL_3 :: u8 where "DESC_DPL_3 = 3"

definition DESC_S_CODE :: u8 where "DESC_S_CODE = 1"

definition DESC_S_DATA :: u8 where "DESC_S_DATA = DESC_S_CODE"

definition DESC_S_SYS :: u8 where "DESC_S_SYS = 0"

definition DESC_TYPE_CODE :: u8 where "DESC_TYPE_CODE = 8"

definition DESC_TYPE_DATA :: u8 where "DESC_TYPE_DATA = 2"

definition DESC_TYPE_TSS :: u8 where "DESC_TYPE_TSS = 9"

definition TSS_DESC_D :: u8 where "TSS_DESC_D = 0"

definition RPL0 :: u16 where "RPL0 = 0"

definition RPL3 :: u16 where "RPL3 = 3"

definition TI_GDT :: u16 where "TI_GDT = 0"

definition SELECTOR_K_DATA :: u16 where
  "SELECTOR_K_DATA = push_bit 3 2 + push_bit 2 TI_GDT + RPL0"

definition SELECTOR_K_STACK :: u16 where
  "SELECTOR_K_STACK = SELECTOR_K_DATA"

definition SELECTOR_U_CODE :: u16 where
  "SELECTOR_U_CODE = push_bit 3 5 + push_bit 2 TI_GDT + RPL3"

definition SELECTOR_U_DATA :: u16 where
  "SELECTOR_U_DATA = push_bit 3 6 + push_bit 2 TI_GDT + RPL3"

definition SELECTOR_TSS :: u16 where
  "SELECTOR_TSS = push_bit 3 4 + push_bit 2 TI_GDT + RPL0"

definition GDT_ATTR_HIGH :: u8 where
  "GDT_ATTR_HIGH = push_bit 7 DESC_G_4K + push_bit 6 DESC_D_32 + push_bit 5 DESC_L + push_bit 4 DESC_AVL"

definition GDT_CODE_ATTR_LOW_DPL3 :: u8 where
  "GDT_CODE_ATTR_LOW_DPL3 = push_bit 7 DESC_P + push_bit 5 DESC_DPL_3 + push_bit 4 DESC_S_CODE + DESC_TYPE_CODE"

definition GDT_DATA_ATTR_LOW_DPL3 :: u8 where
  "GDT_DATA_ATTR_LOW_DPL3 = push_bit 7 DESC_P + push_bit 5 DESC_DPL_3 + push_bit 4 DESC_S_DATA + DESC_TYPE_DATA"

definition TSS_ATTR_HIGH :: u8 where
  "TSS_ATTR_HIGH = push_bit 7 DESC_G_4K + push_bit 6 TSS_DESC_D + push_bit 5 DESC_L + push_bit 4 DESC_AVL + 0"

definition TSS_ATTR_LOW :: u8 where
  "TSS_ATTR_LOW = push_bit 7 DESC_P + push_bit 5 DESC_DPL_0 + push_bit 4 DESC_S_SYS + DESC_TYPE_TSS"

lemmas gdt_constants = DESC_G_4K_def DESC_D_32_def DESC_L_def DESC_AVL_def DESC_P_def DESC_DPL_0_def DESC_DPL_3_def
  DESC_S_CODE_def DESC_S_DATA_def DESC_S_SYS_def DESC_TYPE_CODE_def DESC_TYPE_DATA_def DESC_TYPE_TSS_def TSS_DESC_D_def
  GDT_ATTR_HIGH_def GDT_CODE_ATTR_LOW_DPL3_def GDT_DATA_ATTR_LOW_DPL3_def TSS_ATTR_HIGH_def TSS_ATTR_LOW_def

lemmas selectors = RPL0_def RPL3_def TI_GDT_def SELECTOR_K_DATA_def SELECTOR_K_STACK_def SELECTOR_U_CODE_def
  SELECTOR_U_DATA_def SELECTOR_TSS_def

section \<open>Operations\<close>

definition update_tss_esp :: "addr \<Rightarrow> 'a segs_scheme \<Rightarrow> 'a segs_scheme" where
  "update_tss_esp pthread s = s\<lparr>tss := (tss s)\<lparr>tss_esp0 := pthread + 4096\<rparr>\<rparr>"

definition make_gdt_desc :: "u32 \<Rightarrow> u32 \<Rightarrow> u8 \<Rightarrow> u8 \<Rightarrow> gdt_desc" where
  "make_gdt_desc desc_addr limit attr_low attr_high =
     (let desc_base = desc_addr
      in \<lparr>limit_low_word = ucast (limit AND 0x0000ffff),
          base_low_word = ucast (desc_base AND 0x0000ffff),
          base_mid_byte = ucast (drop_bit 16 (desc_base AND 0x00ff0000)),
          attr_low_byte = attr_low,
          limit_high_attr_high = ucast (drop_bit 16 (limit AND 0x000f0000)) + attr_high,
          base_high_byte = ucast (drop_bit 24 desc_base)\<rparr>)"

definition set_desc :: "addr \<Rightarrow> gdt_desc \<Rightarrow> 'a segs_scheme \<Rightarrow> 'a segs_scheme" where
  "set_desc a d s = s\<lparr>gdt := (gdt s)(a := d)\<rparr>"

text \<open>The two instructions; \<open>ltr\<close> marks the descriptor that it loads as busy.\<close>

definition lgdt :: "u64 \<Rightarrow> 'a segs_scheme \<Rightarrow> 'a segs_scheme" where
  "lgdt opd s = s\<lparr>gdtr := opd\<rparr>"

definition gdt_entry :: "u64 \<Rightarrow> u16 \<Rightarrow> addr" where
  "gdt_entry r sel = ucast (drop_bit 16 r) + ucast (sel AND 0xfff8)"

definition ltr :: "u16 \<Rightarrow> 'a segs_scheme \<Rightarrow> 'a segs_scheme" where
  "ltr sel s =
     (let a = gdt_entry (gdtr s) sel
      in set_desc a ((gdt s a)\<lparr>attr_low_byte := attr_low_byte (gdt s a) OR 2\<rparr>) (s\<lparr>tr := sel\<rparr>))"

definition tss_init :: "'a segs_scheme \<Rightarrow> 'a segs_scheme" where
  "tss_init s =
     (let s = put_str (''tss_init start'' @ [CHR 0x0a]) s;
          tss_size = sizeof_tss;
          s = s\<lparr>tss := zero_tss\<rparr>;
          s = s\<lparr>tss := (tss s)\<lparr>tss_ss0 := ucast SELECTOR_K_STACK\<rparr>\<rparr>;
          s = s\<lparr>tss := (tss s)\<lparr>tss_io_base := tss_size\<rparr>\<rparr>;
          s = set_desc 0xc0000920 (make_gdt_desc tss_addr (tss_size - 1) TSS_ATTR_LOW TSS_ATTR_HIGH) s;
          s = set_desc 0xc0000928 (make_gdt_desc 0 0xfffff GDT_CODE_ATTR_LOW_DPL3 GDT_ATTR_HIGH) s;
          s = set_desc 0xc0000930 (make_gdt_desc 0 0xfffff GDT_DATA_ATTR_LOW_DPL3 GDT_ATTR_HIGH) s;
          s = s\<lparr>gdt_operand := (8 * 7 - 1) OR push_bit 16 0xc0000900\<rparr>;
          s = lgdt (gdt_operand s) s;
          s = ltr SELECTOR_TSS s
      in put_str (''tss_init and ltr done'' @ [CHR 0x0a]) s)"

section \<open>What the processor reads from a descriptor\<close>

definition desc_base :: "gdt_desc \<Rightarrow> u32" where
  "desc_base d = ucast (base_low_word d) OR push_bit 16 (ucast (base_mid_byte d)) OR push_bit 24 (ucast (base_high_byte d))"

definition desc_raw_limit :: "gdt_desc \<Rightarrow> u32" where
  "desc_raw_limit d = ucast (limit_low_word d) OR push_bit 16 (ucast (limit_high_attr_high d AND 0x0f))"

text \<open>With the granularity bit the limit counts pages.\<close>

definition desc_limit :: "gdt_desc \<Rightarrow> u32" where
  "desc_limit d = (if bit (limit_high_attr_high d) 7 then push_bit 12 (desc_raw_limit d) OR 0xfff else desc_raw_limit d)"

definition desc_dpl :: "gdt_desc \<Rightarrow> u8" where
  "desc_dpl d = drop_bit 5 (attr_low_byte d) AND 3"

definition desc_type :: "gdt_desc \<Rightarrow> u8" where
  "desc_type d = attr_low_byte d AND 0x1f"

definition desc_present :: "gdt_desc \<Rightarrow> bool" where
  "desc_present d \<longleftrightarrow> bit (attr_low_byte d) 7"

section \<open>Descriptors round trip\<close>

lemma desc_masks:
  "(0x0000ffff :: u32) = mask 16" "(0x00ff0000 :: u32) = push_bit 16 (mask 8)" "(0x000f0000 :: u32) = push_bit 16 (mask 4)"
  "(0x0f :: u8) = mask 4" "(0xf0 :: u8) = push_bit 4 (mask 4)"
  by (simp_all add: mask_eq_exp_minus_1)

lemma desc_base_make: "desc_base (make_gdt_desc b l lo hi) = b"
proof (rule bit_eqI)
  fix n assume "possible_bit TYPE(u32) n"
  then have n: "n < 32" by simp
  show "bit (desc_base (make_gdt_desc b l lo hi)) n \<longleftrightarrow> bit b n"
    unfolding desc_base_def make_gdt_desc_def Let_def gdt_desc.simps desc_masks
    using n by (cases "n < 24") (auto simp: bit_simps)
qed

lemma low_nibble_clear:
  assumes "(hi :: u8) AND 0x0f = 0" "n < 4"
  shows "\<not> bit hi n"
proof -
  have "bit (hi AND mask 4) n = bit (0 :: u8) n" using assms(1) unfolding desc_masks by simp
  then show ?thesis using assms(2) by (simp add: bit_simps)
qed

lemma high_nibble:
  assumes "(hi :: u8) AND 0x0f = 0"
  shows "ucast (drop_bit 16 (l AND 0x000f0000) :: u32) + hi = ucast (drop_bit 16 l AND mask 4) OR hi"
proof -
  have "(drop_bit 16 (l AND 0x000f0000) :: u32) = drop_bit 16 l AND mask 4"
    unfolding desc_masks by (rule bit_eqI) (auto simp: bit_simps)
  moreover have "(ucast (drop_bit 16 l AND mask 4 :: u32) AND hi :: u8) = 0"
    using low_nibble_clear [OF assms] by (intro bit_eqI) (auto simp: bit_simps)
  ultimately show ?thesis by (simp add: disjunctive_add_eq_or)
qed

lemma desc_limit_make:
  assumes "l \<le> 0xfffff" "hi AND 0x0f = 0"
  shows "desc_raw_limit (make_gdt_desc b l lo hi) = l" "limit_high_attr_high (make_gdt_desc b l lo hi) AND 0xf0 = hi"
proof -
  have "take_bit 20 (unat l) = unat l" using assms(1) by (intro take_bit_nat_eq_self) (simp add: word_le_nat_alt)
  then have "take_bit 20 l = l" by (simp add: word_unat_eq_iff unsigned_take_bit_eq)
  then have high: "n < 20" if "bit l n" for n using that by (metis bit_take_bit_iff)
  note low = low_nibble_clear [OF assms(2)]
  show "desc_raw_limit (make_gdt_desc b l lo hi) = l"
    unfolding desc_raw_limit_def make_gdt_desc_def Let_def gdt_desc.simps high_nibble [OF assms(2)]
    unfolding desc_masks using low
    by (intro bit_eqI) (auto simp: bit_simps dest: high)
  show "limit_high_attr_high (make_gdt_desc b l lo hi) AND 0xf0 = hi"
    unfolding make_gdt_desc_def Let_def gdt_desc.simps high_nibble [OF assms(2)]
    unfolding desc_masks using low
    by (intro bit_eqI) (auto simp: bit_simps intro: leI)
qed

lemma gdt_entries:
  "gdt_entry 0xc00009000037 SELECTOR_TSS = 0xc0000920"
  "gdt_entry 0xc00009000037 SELECTOR_U_CODE = 0xc0000928"
  "gdt_entry 0xc00009000037 SELECTOR_U_DATA = 0xc0000930"
  by (simp_all add: gdt_entry_def selectors)

lemma tss_init_state:
  "\<exists>v. tss_init s = s\<lparr>screen := v, tss := zero_tss\<lparr>tss_ss0 := ucast SELECTOR_K_STACK, tss_io_base := sizeof_tss\<rparr>,
     gdt := (gdt s)(0xc0000920 := (make_gdt_desc tss_addr (sizeof_tss - 1) TSS_ATTR_LOW TSS_ATTR_HIGH)\<lparr>attr_low_byte := TSS_ATTR_LOW OR 2\<rparr>,
       0xc0000928 := make_gdt_desc 0 0xfffff GDT_CODE_ATTR_LOW_DPL3 GDT_ATTR_HIGH,
       0xc0000930 := make_gdt_desc 0 0xfffff GDT_DATA_ATTR_LOW_DPL3 GDT_ATTR_HIGH),
     gdt_operand := 0xc00009000037, gdtr := 0xc00009000037, tr := SELECTOR_TSS\<rparr>"
  unfolding tss_init_def Let_def set_desc_def lgdt_def ltr_def put_str_def
  by (rule exI [of _ "put_str_vga (cstr (''tss_init and ltr done'' @ [CHR 0x0a])) (put_str_vga (cstr (''tss_init start'' @ [CHR 0x0a])) (screen s))"])
    (simp add: gdt_entries fun_upd_twist make_gdt_desc_def)

section \<open>Properties\<close>

text \<open>
  C30: After \<open>tss_init\<close> the three new selectors lie within the limit of the table, they lead to a busy task
  state segment of privilege 0 at the address of \<open>tss\<close>, and to a code and a data segment of privilege 3 over
  the whole address space; the task register selects the first, \<open>tss\<close> names the kernel stack segment, and no
  other descriptor changed.
\<close>

theorem tss_init_segments:
  "let s' = tss_init s;
       d = (\<lambda>sel. gdt s' (gdt_entry (gdtr s') sel))
   in (\<forall>sel \<in> {SELECTOR_TSS, SELECTOR_U_CODE, SELECTOR_U_DATA}. unat (sel OR 7) \<le> unat (ucast (gdtr s') :: u16) \<and> desc_present (d sel)) \<and>
      tr s' = SELECTOR_TSS \<and> desc_base (d SELECTOR_TSS) = tss_addr \<and> desc_type (d SELECTOR_TSS) = 0x0b \<and>
      desc_dpl (d SELECTOR_TSS) = 0 \<and> tss_ss0 (tss s') = ucast SELECTOR_K_STACK \<and>
      desc_base (d SELECTOR_U_CODE) = 0 \<and> desc_limit (d SELECTOR_U_CODE) = 0xffffffff \<and>
      desc_dpl (d SELECTOR_U_CODE) = 3 \<and> desc_type (d SELECTOR_U_CODE) = 0x18 \<and>
      desc_base (d SELECTOR_U_DATA) = 0 \<and> desc_limit (d SELECTOR_U_DATA) = 0xffffffff \<and>
      desc_dpl (d SELECTOR_U_DATA) = 3 \<and> desc_type (d SELECTOR_U_DATA) = 0x12 \<and>
      (\<forall>a. a \<notin> {0xc0000920, 0xc0000928, 0xc0000930} \<longrightarrow> gdt s' a = gdt s a)"
proof -
  obtain v where v: "tss_init s = s\<lparr>screen := v, tss := zero_tss\<lparr>tss_ss0 := ucast SELECTOR_K_STACK, tss_io_base := sizeof_tss\<rparr>,
     gdt := (gdt s)(0xc0000920 := (make_gdt_desc tss_addr (sizeof_tss - 1) TSS_ATTR_LOW TSS_ATTR_HIGH)\<lparr>attr_low_byte := TSS_ATTR_LOW OR 2\<rparr>,
       0xc0000928 := make_gdt_desc 0 0xfffff GDT_CODE_ATTR_LOW_DPL3 GDT_ATTR_HIGH,
       0xc0000930 := make_gdt_desc 0 0xfffff GDT_DATA_ATTR_LOW_DPL3 GDT_ATTR_HIGH),
     gdt_operand := 0xc00009000037, gdtr := 0xc00009000037, tr := SELECTOR_TSS\<rparr>"
    using tss_init_state by blast
  have base: "desc_base (d\<lparr>attr_low_byte := x\<rparr>) = desc_base d" for d x by (simp add: desc_base_def)
  show ?thesis
    unfolding v Let_def
    by (simp add: gdt_entries base desc_base_make)
       (simp add: desc_type_def desc_dpl_def desc_present_def desc_limit_def desc_raw_limit_def make_gdt_desc_def gdt_constants
         selectors)
qed

theorem tss_init_segments_witness:
  "\<forall>s :: segs. desc_present (gdt (tss_init s) (gdt_entry (gdtr (tss_init s)) SELECTOR_TSS)) \<and>
     gdt (tss_init s) 0xc0000908 = gdt s 0xc0000908"
proof
  fix s :: segs
  show "desc_present (gdt (tss_init s) (gdt_entry (gdtr (tss_init s)) SELECTOR_TSS)) \<and>
     gdt (tss_init s) 0xc0000908 = gdt s 0xc0000908"
    using tss_init_segments [of s] by (simp add: Let_def)
qed

text \<open>
  A descriptor gives back what it was made from: the base for any base, and the limit and both attribute
  bytes if the limit has 20 bits and the attributes leave the low half of their byte clear.
\<close>

theorem gdt_desc_round_trip:
  assumes "l \<le> 0xfffff" "hi AND 0x0f = 0"
  shows "let d = make_gdt_desc b l lo hi
    in desc_base d = b \<and> desc_raw_limit d = l \<and> attr_low_byte d = lo \<and> limit_high_attr_high d AND 0xf0 = hi"
  using desc_limit_make [OF assms] by (simp add: Let_def desc_base_make) (simp add: make_gdt_desc_def)

theorem gdt_desc_round_trip_witness:
  "desc_base (make_gdt_desc 0xc0006340 107 0x89 0x80) = 0xc0006340 \<and> desc_raw_limit (make_gdt_desc 0xc0006340 107 0x89 0x80) = 107"
  using gdt_desc_round_trip [of 107 "0x80" "0xc0006340" "0x89"] by (simp add: Let_def)

text \<open>
  The descriptor of the task state segment has the granularity bit set, so that its limit is 108 pages
  less a byte instead of 107, and the offset of the I/O bitmap, which is the size of the segment to say
  that there is none, lies inside the limit.
\<close>

theorem tss_limit_counts_pages:
  "let s' = tss_init s; d = gdt s' (gdt_entry (gdtr s') SELECTOR_TSS)
   in unat (desc_limit d) = 108 * 4096 - 1 \<and> tss_io_base (tss s') = sizeof_tss \<and> tss_io_base (tss s') \<le> desc_limit d"
proof -
  obtain v where v: "tss_init s = s\<lparr>screen := v, tss := zero_tss\<lparr>tss_ss0 := ucast SELECTOR_K_STACK, tss_io_base := sizeof_tss\<rparr>,
     gdt := (gdt s)(0xc0000920 := (make_gdt_desc tss_addr (sizeof_tss - 1) TSS_ATTR_LOW TSS_ATTR_HIGH)\<lparr>attr_low_byte := TSS_ATTR_LOW OR 2\<rparr>,
       0xc0000928 := make_gdt_desc 0 0xfffff GDT_CODE_ATTR_LOW_DPL3 GDT_ATTR_HIGH,
       0xc0000930 := make_gdt_desc 0 0xfffff GDT_DATA_ATTR_LOW_DPL3 GDT_ATTR_HIGH),
     gdt_operand := 0xc00009000037, gdtr := 0xc00009000037, tr := SELECTOR_TSS\<rparr>"
    using tss_init_state by blast
  show ?thesis
    unfolding v Let_def
    by (simp add: gdt_entries desc_limit_def desc_raw_limit_def make_gdt_desc_def gdt_constants sizeof_tss_def)
qed

end
