(* ===== verification/Console.thy ===== *)
theory Console
  imports Single_Page
begin

text \<open>
  device/console.c: output on the screen under a lock. A call that finds the lock taken blocks before it
  prints; the result then holds the locals of \<open>sema_down\<close>, and the function with suffix \<open>_resume\<close> goes
  on when the thread runs again.
\<close>

section \<open>State\<close>

text \<open>The lock is a static variable of console.c; its address is that of build/kernel.map.\<close>

definition console_lock :: addr where
  "console_lock = 0xc0006304"

section \<open>Operations\<close>

definition console_init :: "'a syncs_scheme \<Rightarrow> 'a syncs_scheme" where
  "console_init s = lock_init console_lock s"

definition console_acquire :: "'a syncs_scheme \<Rightarrow> err + down_ctx outcome \<times> 'a syncs_scheme" where
  "console_acquire s = lock_acquire console_lock s"

definition console_acquire_resume :: "down_ctx \<Rightarrow> 'a syncs_scheme \<Rightarrow> err + down_ctx outcome \<times> 'a syncs_scheme" where
  "console_acquire_resume c s = lock_acquire_resume console_lock c s"

definition console_release :: "'a syncs_scheme \<Rightarrow> err + 'a syncs_scheme" where
  "console_release s = lock_release console_lock s"

text \<open>What follows \<open>console_acquire\<close> in the three output functions, \<open>put\<close> being the call between.\<close>

definition console_print ::
    "('a syncs_scheme \<Rightarrow> 'a syncs_scheme) \<Rightarrow> down_ctx outcome \<times> 'a syncs_scheme \<Rightarrow> err + unit locked \<times> 'a syncs_scheme" where
  "console_print put r =
     (case r of
        (Blocked c, s) \<Rightarrow> Inr (Waits c, s)
      | (Finished, s) \<Rightarrow> bindE (console_release (put s)) (\<lambda>s. Inr (Returns (), s)))"

definition console_put_str :: "string \<Rightarrow> 'a syncs_scheme \<Rightarrow> err + unit locked \<times> 'a syncs_scheme" where
  "console_put_str str s = bindE (console_acquire s) (console_print (put_str str))"

definition console_put_str_resume :: "string \<Rightarrow> down_ctx \<Rightarrow> 'a syncs_scheme \<Rightarrow> err + unit locked \<times> 'a syncs_scheme" where
  "console_put_str_resume str c s = bindE (console_acquire_resume c s) (console_print (put_str str))"

definition console_put_char :: "u8 \<Rightarrow> 'a syncs_scheme \<Rightarrow> err + unit locked \<times> 'a syncs_scheme" where
  "console_put_char char_asci s = bindE (console_acquire s) (console_print (put_char char_asci))"

definition console_put_char_resume :: "u8 \<Rightarrow> down_ctx \<Rightarrow> 'a syncs_scheme \<Rightarrow> err + unit locked \<times> 'a syncs_scheme" where
  "console_put_char_resume char_asci c s = bindE (console_acquire_resume c s) (console_print (put_char char_asci))"

definition console_put_int :: "u32 \<Rightarrow> 'a syncs_scheme \<Rightarrow> err + unit locked \<times> 'a syncs_scheme" where
  "console_put_int num s = bindE (console_acquire s) (console_print (put_int num))"

definition console_put_int_resume :: "u32 \<Rightarrow> down_ctx \<Rightarrow> 'a syncs_scheme \<Rightarrow> err + unit locked \<times> 'a syncs_scheme" where
  "console_put_int_resume num c s = bindE (console_acquire_resume c s) (console_print (put_int num))"

section \<open>Printing under the lock\<close>

text \<open>The outputs change the screen only.\<close>

definition screen_only :: "('a syncs_scheme \<Rightarrow> 'a syncs_scheme) \<Rightarrow> (vga \<Rightarrow> vga) \<Rightarrow> bool" where
  "screen_only put f \<longleftrightarrow> (\<forall>s. put s = s\<lparr>screen := f (screen s)\<rparr>)"

lemma screen_only_puts:
  "screen_only (put_str str) (put_str_vga (cstr str))" "screen_only (put_char c) (put_char_vga c)"
  "screen_only (put_int n) (put_int_vga n)"
  by (simp_all add: screen_only_def put_str_def put_char_def put_int_def)

lemma console_print_holding:
  assumes "lock_free console_lock s" "screen_only put f"
  shows "console_print put (Finished, holding console_lock s) = Inr (Returns (), s\<lparr>screen := f (screen s)\<rparr>)"
proof -
  let ?h = "(holding console_lock s)\<lparr>screen := f (screen s)\<rparr>"
  have put: "put (holding console_lock s) = ?h" using assms(2) by (simp add: screen_only_def holding_def)
  have free: "sem_value s (lock_sema console_lock) = 1" "lock_holder s console_lock = NULL" "lock_repeat s console_lock = 0"
    "is_list (elems s) (waiters (lock_sema console_lock)) []"
    using assms(1) by (simp_all add: lock_free_def)
  then have same: "(sem_value s)(lock_sema console_lock := 1) = sem_value s" "(lock_holder s)(console_lock := NULL) = lock_holder s"
    "(lock_repeat s)(console_lock := 0) = lock_repeat s"
    by (simp_all add: fun_upd_idem)
  have "lock_release console_lock ?h = Inr (?h\<lparr>sem_value := (sem_value ?h)(lock_sema console_lock := 1),
      lock_holder := (lock_holder ?h)(console_lock := NULL), lock_repeat := (lock_repeat ?h)(console_lock := 0)\<rparr>)"
    using free by (intro lock_release_no_waiter) (simp_all add: holding_def running_thread_def)
  also have "\<dots> = Inr (s\<lparr>screen := f (screen s)\<rparr>)" by (simp add: holding_def same)
  finally show ?thesis by (simp add: console_print_def console_release_def put)
qed

lemma console_print_free:
  assumes "lock_free console_lock s" "screen_only put f"
  shows "bindE (console_acquire s) (console_print put) = Inr (Returns (), s\<lparr>screen := f (screen s)\<rparr>)"
  using lock_acquire_holding [OF assms(1)] console_print_holding [OF assms] by (simp add: console_acquire_def)

lemma console_free:
  assumes "lock_free console_lock s"
  shows "console_put_str str s = Inr (Returns (), put_str str s)" "console_put_char c s = Inr (Returns (), put_char c s)"
    "console_put_int n s = Inr (Returns (), put_int n s)"
  using console_print_free [OF assms screen_only_puts(1)] console_print_free [OF assms screen_only_puts(2)]
    console_print_free [OF assms screen_only_puts(3)]
  by (simp_all add: console_put_str_def console_put_char_def console_put_int_def put_str_def put_char_def put_int_def)

text \<open>The last release of a lock: the first waiting thread, if there is one, becomes the first ready thread.\<close>

lemma lock_release_last:
  assumes "lock_holder s l = running_thread s" "lock_repeat s l = 1" "sem_value s (lock_sema l) = 0"
    "wait_inv (lock_sema l) s ws" "ready_inv s rs" "sem_place (lock_sema l)"
  obtains s' where "lock_release l s = Inr s'" "wait_inv (lock_sema l) s' (tl ws)" "ready_inv s' (take 1 ws @ rs)"
    "sem_value s' (lock_sema l) = 1" "lock_holder s' l = NULL" "lock_repeat s' l = 0"
    "eflags s' = eflags s" "running_thread s' = running_thread s" "screen s' = screen s"
proof -
  let ?t = "s\<lparr>lock_holder := (lock_holder s)(l := NULL), lock_repeat := (lock_repeat s)(l := 0)\<rparr>"
  have run: "lock_release l s = sema_up (lock_sema l) ?t"
    using assms by (simp add: lock_release_def lock_set_holder_def lock_set_repeat_def)
  have t: "ready_inv ?t rs" "wait_inv (lock_sema l) ?t ws" "sem_value ?t (lock_sema l) = 0"
    using assms by (simp_all add: ready_inv_def wait_inv_def kstack_ok_def)
  show thesis
  proof (cases ws)
    case Nil
    then have "is_list (elems ?t) (waiters (lock_sema l)) []" using assms(4) by (simp add: wait_inv_def)
    from sema_up_no_waiter [OF t(3) this] show ?thesis
      using Nil t by (intro that [of "?t\<lparr>sem_value := (sem_value ?t)(lock_sema l := 1)\<rparr>"])
         (simp_all add: run ready_inv_def wait_inv_def kstack_ok_def running_thread_def)
  next
    case (Cons w ws')
    obtain s' where "sema_up (lock_sema l) ?t = Inr s'" "ready_inv s' (w # rs)" "wait_inv (lock_sema l) s' ws'"
      "sem_value s' = (sem_value ?t)(lock_sema l := 1)" "lock_holder s' = lock_holder ?t" "lock_repeat s' = lock_repeat ?t"
      "eflags s' = eflags ?t" "esp s' = esp ?t" "screen s' = screen ?t"
      using sema_up_wakes [OF t(1) t(2) [unfolded Cons] assms(6) t(3)] by metis
    then show ?thesis using Cons by (intro that [of s']) (simp_all add: run running_thread_def)
  qed
qed

text \<open>
  A thread that waited goes on with the interrupt state it had saved: with the semaphore free it becomes the
  holder, and otherwise it waits again.
\<close>

lemma console_place: "sem_place (lock_sema console_lock)"
  by (simp add: sem_place_def waiters_def lock_sema_def console_lock_def list_head_def list_tail_def list_nodes_def thread_ready_list_def)

lemma acquire_resumes:
  assumes "sem_value u (lock_sema l) = 1" "lock_repeat u l = 0"
  obtains f where "lock_acquire_resume l (old, INTR_OFF) u = Inr (Finished, u\<lparr>eflags := f,
      sem_value := (sem_value u)(lock_sema l := 0), lock_holder := (lock_holder u)(l := running_thread u),
      lock_repeat := (lock_repeat u)(l := 1)\<rparr>)" "intr_get_status (u\<lparr>eflags := f\<rparr>) = old"
proof -
  define w where "w = snd (intr_set_status INTR_OFF u)"
  define f where "f = eflags (snd (intr_set_status old w))"
  have w: "w = u\<lparr>eflags := eflags w\<rparr>" by (simp add: w_def snd_intr_set_status)
  have old: "intr_get_status (u\<lparr>eflags := f\<rparr>) = old"
    by (cases old) (simp_all add: f_def intr_get_status_bit snd_intr_set_status bit_simps bit_EFLAGS_IF)
  have "sem_value w (lock_sema l) = 1" using assms(1) by (subst w) simp
  from sema_down_loop_free [OF this, of old]
  have "sema_down_resume (lock_sema l) (old, INTR_OFF) u =
      Inr (Finished, w\<lparr>eflags := f, sem_value := (sem_value w)(lock_sema l := 0)\<rparr>)"
    by (simp add: sema_down_resume_def thread_block_resume_def f_def flip: w_def)
  also have "\<dots> = Inr (Finished, u\<lparr>eflags := f, sem_value := (sem_value u)(lock_sema l := 0)\<rparr>)"
    by (subst (1 2) w) simp
  finally show thesis
    using assms(2) old
    by (intro that [of f]) (simp_all add: lock_acquire_resume_def lock_acquire_rest_def lock_acquire_repeat_def
        lock_set_holder_def lock_set_repeat_def running_thread_def)
qed

lemma console_resumes:
  assumes "sem_value u (lock_sema console_lock) = 1" "lock_repeat u console_lock = 0"
    "wait_inv (lock_sema console_lock) u ws" "ready_inv u rs" "screen_only put f"
  obtains h u' where "console_acquire_resume (old, INTR_OFF) u = Inr (Finished, h)"
    "lock_holder h console_lock = running_thread u" "running_thread h = running_thread u" "screen h = screen u"
    "console_print put (Finished, h) = Inr (Returns (), u')" "screen u' = f (screen u)" "running_thread u' = running_thread u"
    "sem_value u' (lock_sema console_lock) = 1" "lock_holder u' console_lock = NULL" "lock_repeat u' console_lock = 0"
    "wait_inv (lock_sema console_lock) u' (tl ws)" "ready_inv u' (take 1 ws @ rs)" "intr_get_status u' = old"
proof -
  obtain fl where a: "lock_acquire_resume console_lock (old, INTR_OFF) u = Inr (Finished, u\<lparr>eflags := fl,
      sem_value := (sem_value u)(lock_sema console_lock := 0), lock_holder := (lock_holder u)(console_lock := running_thread u),
      lock_repeat := (lock_repeat u)(console_lock := 1)\<rparr>)" (is "_ = Inr (_, ?h)") "intr_get_status (u\<lparr>eflags := fl\<rparr>) = old"
    using acquire_resumes [OF assms(1,2)] .
  define p where "p = ?h\<lparr>screen := f (screen ?h)\<rparr>"
  have put: "put ?h = p" using assms(5) by (simp add: screen_only_def p_def)
  have h: "lock_holder p console_lock = running_thread p" "lock_repeat p console_lock = 1" "sem_value p (lock_sema console_lock) = 0"
    "wait_inv (lock_sema console_lock) p ws" "ready_inv p rs" "running_thread ?h = running_thread u" "running_thread p = running_thread u"
    using assms(3,4) by (simp_all add: p_def running_thread_def ready_inv_def wait_inv_def kstack_ok_def)
  obtain u' where u': "lock_release console_lock p = Inr u'" "wait_inv (lock_sema console_lock) u' (tl ws)"
    "ready_inv u' (take 1 ws @ rs)" "sem_value u' (lock_sema console_lock) = 1" "lock_holder u' console_lock = NULL"
    "lock_repeat u' console_lock = 0" "eflags u' = eflags p" "running_thread u' = running_thread p" "screen u' = screen p"
    using lock_release_last [OF h(1-5) console_place] .
  have "eflags p = fl" "screen p = f (screen u)" by (simp_all add: p_def)
  then have "intr_get_status u' = old" "screen u' = f (screen u)" using a(2) u'(7,9) by (simp_all add: intr_get_status_def)
  then show thesis
    using a(1) u' h(6,7) put by (intro that [of ?h u']) (simp_all add: console_acquire_resume_def console_print_def console_release_def)
qed

lemma console_waits_again:
  assumes "sem_value u (lock_sema console_lock) = 0" "wait_inv (lock_sema console_lock) u ws" "ready_inv u (nxt # rs)"
    "status (tasks u (running_thread u)) = TASK_RUNNING" "stack_room u"
  obtains u' where "console_acquire_resume (old, INTR_OFF) u = Inr (Blocked (old, INTR_OFF), u')" "screen u' = screen u"
    "running_thread u' = nxt" "ready_inv u' rs" "wait_inv (lock_sema console_lock) u' (ws @ [running_thread u])"
proof -
  define w where "w = snd (intr_set_status INTR_OFF u)"
  have w: "w = u\<lparr>eflags := eflags w\<rparr>" by (simp add: w_def snd_intr_set_status)
  have off: "intr_get_status w = INTR_OFF"
    by (simp add: w_def intr_get_status_bit snd_intr_set_status bit_simps bit_EFLAGS_IF)
  have facts: "ready_inv w (nxt # rs)" "wait_inv (lock_sema console_lock) w ws" "running_thread w = running_thread u" "stack_room w"
    "status (tasks w (running_thread w)) = TASK_RUNNING" "sem_value w (lock_sema console_lock) = 0" "screen w = screen u"
    using assms by (subst w, simp add: running_thread_def)+
  obtain u' where u': "sema_down_loop (lock_sema console_lock) old w = Inr (Blocked (old, intr_get_status w), u')"
    "running_thread u' = nxt" "ready_inv u' rs" "wait_inv (lock_sema console_lock) u' (ws @ [running_thread w])" "same_sync w u'"
    using sema_down_loop_blocks [OF facts(1,2,5,4) console_place facts(6)] by metis
  then show thesis
    using facts(3,7) off by (intro that [of u']) (simp_all add: console_acquire_resume_def lock_acquire_resume_def lock_acquire_rest_def
        sema_down_resume_def thread_block_resume_def same_sync_def flip: w_def)
qed

section \<open>Properties\<close>

text \<open>
  C29: Output while another thread holds the console: nothing is printed, the calling thread waits at the end
  of the queue of the lock and the first ready thread runs. Whenever it runs again with the semaphore free, it
  becomes the holder, prints, and leaves the semaphore free, the console without a holder and the interrupts as they
  were before the call; the first of the threads that wait then, if there is one, becomes the first ready thread. If it
  runs again and the semaphore has been taken, it prints nothing and waits again at the end of the queue.
\<close>

theorem console_waits_for_lock:
  fixes s :: "'a syncs_scheme"
  assumes "lock_holder s console_lock \<noteq> running_thread s" "sem_value s (lock_sema console_lock) = 0"
    "wait_inv (lock_sema console_lock) s ws" "ready_inv s (nxt # rs)"
    "status (tasks s (running_thread s)) = TASK_RUNNING" "stack_room s"
  shows "\<exists>c s'. console_put_str str s = Inr (Waits c, s') \<and> screen s' = screen s \<and> running_thread s' = nxt \<and>
    wait_inv (lock_sema console_lock) s' (ws @ [running_thread s]) \<and>
    (\<forall>(u :: 'a syncs_scheme) ws' rs'. sem_value u (lock_sema console_lock) = 1 \<and> lock_repeat u console_lock = 0 \<and>
        wait_inv (lock_sema console_lock) u ws' \<and> ready_inv u rs' \<longrightarrow>
      (\<exists>h u'. console_acquire_resume c u = Inr (Finished, h) \<and> lock_holder h console_lock = running_thread u \<and>
        running_thread h = running_thread u \<and> screen h = screen u \<and>
        console_put_str_resume str c u = Inr (Returns (), u') \<and> screen u' = put_str_vga (cstr str) (screen u) \<and>
        running_thread u' = running_thread u \<and> sem_value u' (lock_sema console_lock) = 1 \<and>
        lock_holder u' console_lock = NULL \<and> lock_repeat u' console_lock = 0 \<and> intr_get_status u' = intr_get_status s \<and>
        wait_inv (lock_sema console_lock) u' (tl ws') \<and> ready_inv u' (take 1 ws' @ rs'))) \<and>
    (\<forall>(u :: 'a syncs_scheme) ws' nxt' rs'. sem_value u (lock_sema console_lock) = 0 \<and> wait_inv (lock_sema console_lock) u ws' \<and>
        ready_inv u (nxt' # rs') \<and> status (tasks u (running_thread u)) = TASK_RUNNING \<and> stack_room u \<longrightarrow>
      (\<exists>u'. console_put_str_resume str c u = Inr (Waits c, u') \<and> screen u' = screen u \<and> running_thread u' = nxt' \<and>
        ready_inv u' rs' \<and> wait_inv (lock_sema console_lock) u' (ws' @ [running_thread u])))"
proof -
  let ?old = "intr_get_status s"
  obtain s' where s': "sema_down (lock_sema console_lock) s = Inr (Blocked (?old, INTR_OFF), s')"
    "running_thread s' = nxt" "wait_inv (lock_sema console_lock) s' (ws @ [running_thread s])" "same_sync s s'"
    using sema_down_blocks [OF assms(4,3,5,6) console_place assms(2)] by metis
  have wait: "console_put_str str s = Inr (Waits (?old, INTR_OFF), s')"
    using assms(1) s'(1)
    by (simp add: console_put_str_def console_acquire_def lock_acquire_def lock_acquire_rest_def console_print_def)
  have prints: "\<exists>h u'. console_acquire_resume (?old, INTR_OFF) u = Inr (Finished, h) \<and> lock_holder h console_lock = running_thread u \<and>
        running_thread h = running_thread u \<and> screen h = screen u \<and>
        console_put_str_resume str (?old, INTR_OFF) u = Inr (Returns (), u') \<and> screen u' = put_str_vga (cstr str) (screen u) \<and>
        running_thread u' = running_thread u \<and> sem_value u' (lock_sema console_lock) = 1 \<and>
        lock_holder u' console_lock = NULL \<and> lock_repeat u' console_lock = 0 \<and> intr_get_status u' = ?old \<and>
        wait_inv (lock_sema console_lock) u' (tl ws') \<and> ready_inv u' (take 1 ws' @ rs')"
    if u: "sem_value u (lock_sema console_lock) = 1" "lock_repeat u console_lock = 0"
      "wait_inv (lock_sema console_lock) u ws'" "ready_inv u rs'" for u :: "'a syncs_scheme" and ws' rs'
    by (rule console_resumes [OF u screen_only_puts(1) [of str], of ?old]) (auto simp: console_put_str_resume_def)
  have again: "\<exists>u'. console_put_str_resume str (?old, INTR_OFF) u = Inr (Waits (?old, INTR_OFF), u') \<and> screen u' = screen u \<and>
        running_thread u' = nxt' \<and> ready_inv u' rs' \<and> wait_inv (lock_sema console_lock) u' (ws' @ [running_thread u])"
    if u: "sem_value u (lock_sema console_lock) = 0" "wait_inv (lock_sema console_lock) u ws'" "ready_inv u (nxt' # rs')"
      "status (tasks u (running_thread u)) = TASK_RUNNING" "stack_room u" for u :: "'a syncs_scheme" and ws' nxt' rs'
    by (rule console_waits_again [OF u, of ?old]) (auto simp: console_put_str_resume_def console_print_def)
  have "screen s' = screen s" using s'(4) by (simp add: same_sync_def)
  with wait s'(2,3) prints again show ?thesis by blast
qed

theorem console_waits_for_lock_witness:
  "let h = nodes_ready(0xc000630c := \<lparr>le_prev = 0, le_next = 0xc0006314\<rparr>, 0xc0006314 := \<lparr>le_prev = 0xc000630c, le_next = 0\<rparr>);
       s = syncs0 2 h (\<lambda>_. 0) (\<lambda>_. 0xc0100000) (\<lambda>_. 1)
   in \<exists>c s'. console_put_str ''Main'' s = Inr (Waits c, s') \<and> screen s' = screen s \<and> running_thread s' = 0xc0100000"
proof -
  let ?h = "nodes_ready(0xc000630c := \<lparr>le_prev = 0, le_next = 0xc0006314\<rparr>, 0xc0006314 := \<lparr>le_prev = 0xc000630c, le_next = 0\<rparr>)"
  let ?s = "syncs0 2 ?h (\<lambda>_. 0) (\<lambda>_. 0xc0100000) (\<lambda>_. 1)"
  have p: "lock_sema console_lock = 0xc0006308" by (simp add: lock_sema_def console_lock_def)
  have w: "wait_inv (lock_sema console_lock) ?s []"
    by (simp add: p wait_inv_def is_list_def waiters_def list_nodes_def list_head_def list_tail_def)
  have r: "ready_inv ?s [0xc0100000]"
    using syncs0_facts(3) [of 2 "\<lambda>_. 0" "\<lambda>_. 0xc0100000" "\<lambda>_. 1"]
    by (simp add: ready_inv_def kstack_ok_def is_list_def list_nodes_def thread_ready_list_def list_head_def list_tail_def general_tag_def)
  show ?thesis
    using console_waits_for_lock [OF _ _ w r, of "''Main''"] syncs0_facts(1,2) [of 2 ?h "\<lambda>_. 0" "\<lambda>_. 0xc0100000" "\<lambda>_. 1"]
    by (auto simp: Let_def tasks0_def started_task_def)
qed

end
