(* ===== verification/Consumers.thy ===== *)
theory Consumers
  imports Tss Console
begin

text \<open>
  The two threads of kernel/main.c that print what the keyboard handler put into the queue. Each runs one
  loop for ever; a definition is one round of it. A round may block at three places, and its result then says
  where, with the saved interrupt state and the locals.
\<close>

section \<open>Operations\<close>

datatype round_ctx = At_Put_Str intr_status down_ctx | At_Getchar intr_status ioq_ctx | At_Put_Char intr_status u8 down_ctx

datatype round_result = Round_Done | Round_Blocked round_ctx

definition round_end :: "intr_status \<Rightarrow> 'a kbd_scheme \<Rightarrow> err + round_result \<times> 'a kbd_scheme" where
  "round_end old_status s = Inr (Round_Done, snd (intr_set_status old_status s))"

definition after_put_char ::
    "intr_status \<Rightarrow> u8 \<Rightarrow> unit locked \<times> 'a kbd_scheme \<Rightarrow> err + round_result \<times> 'a kbd_scheme" where
  "after_put_char old_status byte r =
     (case r of
        (Waits c, s) \<Rightarrow> Inr (Round_Blocked (At_Put_Char old_status byte c), s)
      | (Returns _, s) \<Rightarrow> round_end old_status s)"

definition after_getchar :: "intr_status \<Rightarrow> u8 ioq_result \<times> 'a kbd_scheme \<Rightarrow> err + round_result \<times> 'a kbd_scheme" where
  "after_getchar old_status r =
     (case r of
        (Ioq_Blocked c, s) \<Rightarrow> Inr (Round_Blocked (At_Getchar old_status c), s)
      | (Got byte, s) \<Rightarrow> bindE (console_put_char byte s) (after_put_char old_status byte))"

definition after_put_str :: "intr_status \<Rightarrow> unit locked \<times> 'a kbd_scheme \<Rightarrow> err + round_result \<times> 'a kbd_scheme" where
  "after_put_str old_status r =
     (case r of
        (Waits c, s) \<Rightarrow> Inr (Round_Blocked (At_Put_Str old_status c), s)
      | (Returns _, s) \<Rightarrow> bindE (ioq_getchar kbd_buf s) (after_getchar old_status))"

definition k_thread_a :: "string \<Rightarrow> 'a kbd_scheme \<Rightarrow> err + round_result \<times> 'a kbd_scheme" where
  "k_thread_a arg s =
     (let (old_status, s) = intr_disable s
      in bindE (ioq_empty kbd_buf s) (\<lambda>empty.
         if \<not> empty then bindE (console_put_str arg s) (after_put_str old_status)
         else round_end old_status s))"

definition k_thread_a_resume :: "string \<Rightarrow> round_ctx \<Rightarrow> 'a kbd_scheme \<Rightarrow> err + round_result \<times> 'a kbd_scheme" where
  "k_thread_a_resume arg c s =
     (case c of
        At_Put_Str old_status d \<Rightarrow> bindE (console_put_str_resume arg d s) (after_put_str old_status)
      | At_Getchar old_status d \<Rightarrow> bindE (ioq_getchar_resume kbd_buf d s) (after_getchar old_status)
      | At_Put_Char old_status byte d \<Rightarrow> bindE (console_put_char_resume byte d s) (after_put_char old_status byte))"

text \<open>The second thread has the same text.\<close>

definition k_thread_b :: "string \<Rightarrow> 'a kbd_scheme \<Rightarrow> err + round_result \<times> 'a kbd_scheme" where
  "k_thread_b arg s =
     (let (old_status, s) = intr_disable s
      in bindE (ioq_empty kbd_buf s) (\<lambda>empty.
         if \<not> empty then bindE (console_put_str arg s) (after_put_str old_status)
         else round_end old_status s))"

definition k_thread_b_resume :: "string \<Rightarrow> round_ctx \<Rightarrow> 'a kbd_scheme \<Rightarrow> err + round_result \<times> 'a kbd_scheme" where
  "k_thread_b_resume arg c s = k_thread_a_resume arg c s"

section \<open>One round\<close>

lemma lock_free_cong:
  "lock_free l s \<Longrightarrow> sem_value t = sem_value s \<Longrightarrow> lock_holder t = lock_holder s \<Longrightarrow> lock_repeat t = lock_repeat s \<Longrightarrow>
   elems t = elems s \<Longrightarrow> esp t = esp s \<Longrightarrow> lock_free l t"
  by (simp add: lock_free_def running_thread_def)

lemma consumer_round:
  assumes "lock_free console_lock s" "ioq_ok (ioqs s kbd_buf)" "contents (ioqs s kbd_buf) = [b]"
  obtains q where "k_thread_a arg s = Inr (Round_Done, s\<lparr>screen := put_char_vga b (put_str_vga (cstr arg) (screen s)),
      ioqs := (ioqs s)(kbd_buf := q)\<rparr>)" "ioq_ok q" "contents q = []"
proof -
  let ?d = "s\<lparr>eflags := eflags s AND NOT EFLAGS_IF\<rparr>"
  let ?p = "put_str arg ?d"
  have off: "intr_get_status ?d = INTR_OFF" "intr_get_status ?p = INTR_OFF"
    by (simp_all add: put_str_def intr_get_status_bit bit_simps bit_EFLAGS_IF)
  have free: "lock_free console_lock ?d" using lock_free_cong [OF assms(1), of ?d] by simp
  obtain q where q: "ioq_getchar kbd_buf ?p = Inr (Got b, ?p\<lparr>ioqs := (ioqs ?p)(kbd_buf := q)\<rparr>)" "ioq_ok q" "contents q = []"
    using getchar_takes [OF off(2), of kbd_buf b] assms(2,3) by (auto simp: put_str_def)
  let ?g = "?p\<lparr>ioqs := (ioqs ?p)(kbd_buf := q)\<rparr>"
  have free': "lock_free console_lock ?g" using lock_free_cong [OF assms(1), of ?g] by (simp add: put_str_def)
  have "k_thread_a arg s = round_end (intr_get_status s) (put_char b ?g)"
    using ioq_queries(1) [OF off(1), of kbd_buf] assms(2,3) console_free(1) [OF free, of arg] console_free(2) [OF free', of b] q(1)
    by (simp add: k_thread_a_def intr_disable_eq after_put_str_def after_getchar_def after_put_char_def)
  also have "\<dots> = Inr (Round_Done, s\<lparr>screen := put_char_vga b (put_str_vga (cstr arg) (screen s)), ioqs := (ioqs s)(kbd_buf := q)\<rparr>)"
  proof -
    have "snd (intr_set_status (intr_get_status s) (put_char b ?g)) =
        s\<lparr>screen := put_char_vga b (put_str_vga (cstr arg) (screen s)), ioqs := (ioqs s)(kbd_buf := q)\<rparr>"
      by (subst intr_restore) (simp_all add: put_char_def put_str_def)
    then show ?thesis by (simp add: round_end_def)
  qed
  finally show thesis using that q(2,3) by blast
qed

lemma consumer_idle:
  assumes "ioq_ok (ioqs s kbd_buf)" "contents (ioqs s kbd_buf) = []"
  shows "k_thread_a arg s = Inr (Round_Done, s)"
proof -
  let ?d = "s\<lparr>eflags := eflags s AND NOT EFLAGS_IF\<rparr>"
  have "intr_get_status ?d = INTR_OFF" by (simp add: intr_get_status_bit bit_simps bit_EFLAGS_IF)
  from ioq_queries(1) [OF this, of kbd_buf] assms intr_restore [of ?d s] show ?thesis
    by (simp add: k_thread_a_def intr_disable_eq round_end_def)
qed

lemma same_thread: "k_thread_b = k_thread_a"
  by (rule ext)+ (simp add: k_thread_a_def k_thread_b_def)

section \<open>Properties\<close>

text \<open>
  C21: From a free console and a consistent queue a round of either thread always comes to its end, it neither
  blocks nor panics: it leaves the queue empty and consistent, the console free and the interrupt flag as it
  was, and touches nothing else but the screen, to which it prints its argument and the character if there
  was one.
\<close>

theorem consumer_round_completes:
  assumes "lock_free console_lock s" "ioq_ok (ioqs s kbd_buf)"
  shows "\<exists>q. ioq_ok q \<and> contents q = [] \<and> k_thread_b arg s = k_thread_a arg s \<and>
    k_thread_a arg s = Inr (Round_Done, s\<lparr>screen := (case contents (ioqs s kbd_buf) of [] \<Rightarrow> screen s
      | b # _ \<Rightarrow> put_char_vga b (put_str_vga (cstr arg) (screen s))), ioqs := (ioqs s)(kbd_buf := q)\<rparr>)"
proof (cases "contents (ioqs s kbd_buf)")
  case Nil
  then show ?thesis using consumer_idle [OF assms(2)] assms(2)
    by (intro exI [of _ "ioqs s kbd_buf"]) (simp add: same_thread)
next
  case (Cons b bs)
  then have b: "contents (ioqs s kbd_buf) = [b]" by (simp add: contents_def split: if_splits)
  from consumer_round [OF assms this, of arg] show ?thesis by (auto simp: b same_thread)
qed

definition console_nodes :: nodes where
  "console_nodes = nodes_ready(0xc000630c := \<lparr>le_prev = 0, le_next = 0xc0006314\<rparr>, 0xc0006314 := \<lparr>le_prev = 0xc000630c, le_next = 0\<rparr>)"

definition kbd1 :: kbd where
  "kbd1 = kbd0\<lparr>elems := console_nodes\<rparr>"

lemma kbd1_ready:
  "lock_free console_lock kbd1" "ioq_ok (ioqs kbd1 kbd_buf)" "contents (ioqs kbd1 kbd_buf) = []"
  "intr_get_status kbd1 = INTR_OFF"
proof -
  have "is_list console_nodes (waiters (lock_sema console_lock)) []"
    by (simp add: is_list_def list_nodes_def list_head_def list_tail_def waiters_def lock_sema_def console_lock_def console_nodes_def)
  moreover have "sem_value kbd0 = (\<lambda>_. 1)" "lock_holder kbd0 = (\<lambda>_. 0)" "lock_repeat kbd0 = (\<lambda>_. 0)" "esp kbd0 = 0xc009ef00"
    using queues0_simps(2,4-6) [of nodes_ready] by (simp_all add: kbd0_def queues.extend_def kbd.fields_def)
  ultimately show "lock_free console_lock kbd1" by (simp add: lock_free_def kbd1_def running_thread_def)
  show "ioq_ok (ioqs kbd1 kbd_buf)" "contents (ioqs kbd1 kbd_buf) = []" by (simp_all add: kbd1_def ioq_ok_def contents_def)
  show "intr_get_status kbd1 = INTR_OFF" by (simp add: kbd1_def intr_get_status_def EFLAGS_IF_def)
qed

theorem consumer_round_completes_witness:
  "\<exists>q. k_thread_a '' a_'' kbd1 = Inr (Round_Done, kbd1\<lparr>ioqs := (ioqs kbd1)(kbd_buf := q)\<rparr>)"
  using consumer_round_completes [OF kbd1_ready(1,2), of "'' a_''"] by (auto simp: kbd1_ready(3))

text \<open>
  C19: From a key to the screen: when a key with a character is pressed while the queue is empty, the interrupt
  handler puts its character into the queue, and the next round of a consumer thread prints the argument of
  the thread followed by that character, upper or lower case as shift and caps lock demand, and leaves the
  queue empty and the console free for the next key.
\<close>

theorem key_reaches_screen:
  assumes "intr_get_status s = INTR_OFF" "ioq_ok (ioqs s kbd_buf)" "contents (ioqs s kbd_buf) = []" "lock_free console_lock s"
    "\<not> ext_scancode s" "0 < b" "b < 0x3b" "b \<notin> set modifier_keys"
  shows "\<exists>s1 s2. intr_keyboard_handler (key_byte b s) = Inr s1 \<and> k_thread_a arg s1 = Inr (Round_Done, s2) \<and>
    screen s2 = put_char_vga (typed_char b (shift_status s) (caps_lock_status s)) (put_str_vga (cstr arg) (screen s)) \<and>
    ioq_ok (ioqs s2 kbd_buf) \<and> contents (ioqs s2 kbd_buf) = [] \<and> lock_free console_lock s2 \<and> eflags s2 = eflags s"
proof -
  let ?c = "typed_char b (shift_status s) (caps_lock_status s)" and ?k = "(key_byte b s)\<lparr>ext_scancode := False\<rparr>"
  have "b \<noteq> 0xe0" "\<not> 0x80 \<le> b" using assms(7) by (auto simp: word_less_nat_alt word_le_nat_alt)
  then have act: "key_action (shift_status s) (caps_lock_status s) False b = Typed ?c"
    using assms(6-8) by (simp add: action_plain)
  have run: "intr_keyboard_handler (key_byte b s) = offer_char kbd_buf ?c ?k"
    using handler_action [of "key_byte b s"] act assms(5) by (simp add: key_byte_def inb_def)
  have "queue_ready kbd_buf ?k" "contents (ioqs ?k kbd_buf) = []"
    using assms(1-3) by (simp_all add: queue_ready_def key_byte_def intr_get_status_def)
  then have k: "intr_get_status ?k = INTR_OFF" "ioq_ok (ioqs ?k kbd_buf)" "contents (ioqs ?k kbd_buf) = []"
    by (simp_all add: queue_ready_def)
  obtain q where q: "ioq_putchar kbd_buf ?c ?k = Inr (Got (), ?k\<lparr>ioqs := (ioqs ?k)(kbd_buf := q)\<rparr>)" "ioq_ok q" "contents q = [?c]"
    using putchar_stores [OF k] .
  let ?s1 = "?k\<lparr>ioqs := (ioqs ?k)(kbd_buf := q)\<rparr>"
  have s1: "offer_char kbd_buf ?c ?k = Inr ?s1" using ioq_queries(2) [OF k(1,2)] k(3) q(1) by (simp add: offer_char_def)
  have free: "lock_free console_lock ?s1" using lock_free_cong [OF assms(4), of ?s1] by (simp add: key_byte_def)
  obtain q' where q': "k_thread_a arg ?s1 = Inr (Round_Done, ?s1\<lparr>screen := put_char_vga ?c (put_str_vga (cstr arg) (screen ?s1)),
      ioqs := (ioqs ?s1)(kbd_buf := q')\<rparr>)" "ioq_ok q'" "contents q' = []"
    using consumer_round [OF free, of ?c arg] q(2,3) by auto
  let ?s2 = "?s1\<lparr>screen := put_char_vga ?c (put_str_vga (cstr arg) (screen ?s1)), ioqs := (ioqs ?s1)(kbd_buf := q')\<rparr>"
  have "lock_free console_lock ?s2" using lock_free_cong [OF assms(4), of ?s2] by (simp add: key_byte_def)
  then show ?thesis using run s1 q' by (intro exI [of _ ?s1] exI [of _ ?s2]) (simp add: key_byte_def)
qed

theorem key_reaches_screen_witness:
  "\<exists>s1 s2. intr_keyboard_handler (key_byte 0x1e kbd1) = Inr s1 \<and> k_thread_a '' a_'' s1 = Inr (Round_Done, s2) \<and>
     screen s2 = put_char_vga (of_char (CHR ''a'')) (put_str_vga (cstr '' a_'') (screen kbd1))"
proof -
  have "typed_char 0x1e False False = of_char (CHR ''a'')" by (simp add: typed_char_def keymap_def)
  then show ?thesis
    using key_reaches_screen [OF kbd1_ready(4,2,3,1), of "0x1e" "'' a_''"] by (auto simp: kbd1_def modifier_keys_def)
qed

end
