(* ===== verification/Start.thy ===== *)
theory Start
  imports Consumers
begin

text \<open>
  kernel/init.c and kernel/main.c up to the endless loop of \<open>main\<close>. The entry points of kernel.S and the
  addresses of the two strings that the threads get as arguments are fixed by the linker and are parameters.
\<close>

section \<open>Operations\<close>

definition init_all :: "(nat \<Rightarrow> u32) \<Rightarrow> 'a segs_scheme \<Rightarrow> err + 'a segs_scheme" where
  "init_all intr_entry_table s =
     (let s = put_str ''init all'' s;
          s = idt_init intr_entry_table s
      in bindE (timer_init s) (\<lambda>s.
         bindE (mem_init s) (\<lambda>s.
         bindE (thread_init s) (\<lambda>s.
         let s = console_init s
         in bindE (keyboard_init s) (\<lambda>s.
            Inr (tss_init s))))))"

text \<open>The addresses of the two thread functions are those of build/kernel.map.\<close>

definition k_thread_a_addr :: addr where
  "k_thread_a_addr = 0xc0001578"

definition k_thread_b_addr :: addr where
  "k_thread_b_addr = 0xc00015de"

definition main :: "(nat \<Rightarrow> u32) \<Rightarrow> u32 \<Rightarrow> u32 \<Rightarrow> 'a segs_scheme \<Rightarrow> err + 'a segs_scheme" where
  "main intr_entry_table arg_a arg_b s =
     (let s = put_char (of_char (CHR ''a'')) s;
          s = put_int 0x1234 s;
          s = put_str (''hello world'' @ [CHR 0x0a]) s
      in bindE (init_all intr_entry_table s) (\<lambda>s.
         bindE (thread_start (cstr ''consumer_a'') 31 k_thread_a_addr arg_a s) (\<lambda>(_, s).
         bindE (thread_start (cstr ''consumer_b'') 31 k_thread_b_addr arg_b s) (\<lambda>(_, s).
         Inr (sti s)))))"

section \<open>What the initialisations change\<close>

lemma fold_intr_frame:
  assumes "\<And>i s. \<exists>a b c. f i s = s\<lparr>idt := a, idt_table := b, intr_name := c\<rparr>"
  shows "\<exists>a b c. fold f xs s = (s :: 'a intr_scheme)\<lparr>idt := a, idt_table := b, intr_name := c\<rparr>"
proof (induction xs arbitrary: s)
  case Nil
  show ?case by (intro exI [of _ "idt s"] exI [of _ "idt_table s"] exI [of _ "intr_name s"]) simp
next
  case (Cons x xs)
  obtain a b c where f: "f x s = s\<lparr>idt := a, idt_table := b, intr_name := c\<rparr>" using assms by blast
  obtain a' b' c' where "fold f xs (f x s) = (f x s)\<lparr>idt := a', idt_table := b', intr_name := c'\<rparr>" using Cons by blast
  then show ?case unfolding f by (intro exI [of _ a'] exI [of _ b'] exI [of _ c']) (simp add: f)
qed

lemma upd_idt: "s\<lparr>idt := a\<rparr> = s\<lparr>idt := a, idt_table := idt_table s, intr_name := intr_name s\<rparr>"
  by simp

lemma upd_handler: "s\<lparr>idt_table := b, intr_name := c\<rparr> = s\<lparr>idt := idt s, idt_table := b, intr_name := c\<rparr>"
  by simp

lemma upd_name: "s\<lparr>intr_name := c\<rparr> = s\<lparr>idt := idt s, idt_table := idt_table s, intr_name := c\<rparr>"
  by simp

lemma intr_tables_frame:
  "\<exists>a b c. idt_desc_init entry s = put_str (''idt_desc_init_done'' @ [CHR 0x0a]) (s\<lparr>idt := a, idt_table := b, intr_name := c\<rparr>)"
  "\<exists>a b c. exception_init s = s\<lparr>idt := a, idt_table := b, intr_name := c\<rparr>"
proof -
  let ?g = "\<lambda>i (s :: 'a intr_scheme). s\<lparr>idt := (idt s)[i := make_idt_desc IDT_DESC_ATTR_DPL0 (entry i)]\<rparr>"
  let ?h = "\<lambda>i (s :: 'a intr_scheme). s\<lparr>idt_table := (idt_table s)[i := General_Intr_Handler], intr_name := (intr_name s)[i := ''unknown'']\<rparr>"
  let ?n = "\<lambda>(i, nm) (s :: 'a intr_scheme). s\<lparr>intr_name := (intr_name s)[i := nm]\<rparr>"
  have g: "\<exists>a b c. ?g i s = s\<lparr>idt := a, idt_table := b, intr_name := c\<rparr>" for i s using upd_idt by blast
  have h: "\<exists>a b c. ?h i s = s\<lparr>idt := a, idt_table := b, intr_name := c\<rparr>" for i s using upd_handler by blast
  have n: "\<exists>a b c. ?n x s = s\<lparr>idt := a, idt_table := b, intr_name := c\<rparr>" for x s by (cases x) (simp only: prod.case, use upd_name in blast)
  show "\<exists>a b c. idt_desc_init entry s = put_str (''idt_desc_init_done'' @ [CHR 0x0a]) (s\<lparr>idt := a, idt_table := b, intr_name := c\<rparr>)"
    unfolding idt_desc_init_def using fold_intr_frame [of ?g, OF g, of "[0..<IDT_DESC_CNT]" s] by metis
  obtain a b c where 1: "fold ?h [0..<IDT_DESC_CNT] s = s\<lparr>idt := a, idt_table := b, intr_name := c\<rparr>"
    using fold_intr_frame [of ?h, OF h] by blast
  obtain a' b' c' where "fold ?n exception_names (fold ?h [0..<IDT_DESC_CNT] s) = (fold ?h [0..<IDT_DESC_CNT] s)\<lparr>idt := a', idt_table := b', intr_name := c'\<rparr>"
    using fold_intr_frame [of ?n, OF n] by blast
  then have "exception_init s = s\<lparr>idt := a', idt_table := b', intr_name := c'\<rparr>"
    unfolding exception_init_def Let_def by (simp add: 1)
  then show "\<exists>a b c. exception_init s = s\<lparr>idt := a, idt_table := b, intr_name := c\<rparr>" by blast
qed

lemma pic_init_frame:
  "pic_init s = s\<lparr>screen := put_str_vga (cstr ''pic init done'') (screen s), port_out := port_out s @ pic_commands\<rparr>"
  by (simp add: pic_init_def outb_def put_str_def Let_def pic_commands_def)

lemma idt_init_run:
  assumes "length (idt s) = IDT_DESC_CNT" "length (idt_table s) = IDT_DESC_CNT"
  obtains v nm po opd where "idt_init entry s = s\<lparr>screen := v,
    idt := map (\<lambda>i. make_idt_desc IDT_DESC_ATTR_DPL0 (entry i)) [0..<IDT_DESC_CNT],
    idt_table := replicate IDT_DESC_CNT General_Intr_Handler, intr_name := nm, port_out := po, idt_operand := opd, idtr := opd\<rparr>"
proof -
  let ?p = "put_str (''idt_init_start'' @ [CHR 0x0a]) s"
  let ?d = "idt_desc_init entry ?p"
  have len: "length (idt ?p) = IDT_DESC_CNT" "length (idt_table ?d) = IDT_DESC_CNT"
    using assms by (simp_all add: idt_desc_init_frame)
  have i: "idt ?d = map (\<lambda>i. make_idt_desc IDT_DESC_ATTR_DPL0 (entry i)) [0..<IDT_DESC_CNT]"
    using len(1) by (rule idt_desc_init_idt)
  have e: "idt (exception_init ?d) = idt ?d" "idt_table (exception_init ?d) = replicate IDT_DESC_CNT General_Intr_Handler"
    using exception_init_table [OF len(2)] by (simp_all add: exception_init_frame)
  obtain a b c where d: "?d = put_str (''idt_desc_init_done'' @ [CHR 0x0a]) (?p\<lparr>idt := a, idt_table := b, intr_name := c\<rparr>)"
    using intr_tables_frame(1) by blast
  obtain a' b' c' where x: "exception_init ?d = ?d\<lparr>idt := a', idt_table := b', intr_name := c'\<rparr>" using intr_tables_frame(2) by blast
  have "a' = idt ?d" "b' = replicate IDT_DESC_CNT General_Intr_Handler" using e unfolding x by simp_all
  then have x': "exception_init ?d = ?d\<lparr>idt := map (\<lambda>i. make_idt_desc IDT_DESC_ATTR_DPL0 (entry i)) [0..<IDT_DESC_CNT],
      idt_table := replicate IDT_DESC_CNT General_Intr_Handler, intr_name := c'\<rparr>"
    using x i by simp
  show thesis
    by (rule that [where v = "put_str_vga (cstr (''idt_init_finish'' @ [CHR 0x0a])) (put_str_vga (cstr ''pic init done'') (screen ?d))"
          and nm = c' and po = "port_out s @ pic_commands" and opd = "(sizeof_idt - 1) OR push_bit 16 (ucast idt_addr)"])
       (unfold idt_init_def Let_def x' pic_init_frame, unfold d, simp add: put_str_def)
qed

lemma timer_init_run:
  assumes "0x20 < length (idt_table s)"
  obtains v po where "timer_init s = Inr (s\<lparr>screen := v, port_out := po, idt_table := (idt_table s)[0x20 := Intr_Timer_Handler]\<rparr>)"
  by (rule that [where v = "put_str_vga (cstr (''timer_init done.'' @ [CHR 0x0a])) (put_str_vga (cstr (''timer_init start.'' @ [CHR 0x0a])) (screen s))"
        and po = "port_out (frequency_set 0x40 0 3 2 (ucast COUNTER0_VALUE) s)"])
     (use assms in \<open>simp add: timer_init_def Let_def frequency_set_def outb_def register_handler_def put_str_def\<close>)

lemma boot_tables_cong: "pmem t = pmem s \<Longrightarrow> cr3 t = cr3 s \<Longrightarrow> boot_tables t = boot_tables s"
  by (simp add: boot_tables_def translate_def)

lemma vload32_cong: "pmem t = pmem s \<Longrightarrow> cr3 t = cr3 s \<Longrightarrow> vload32 a t = vload32 a s"
  by (simp add: vload32_def translate_def split: option.split)

lemma vm_inv_cong:
  assumes "vm_inv s" "pmem t = pmem s" "cr3 t = cr3 s" "mem t = mem s" "kernel_pool t = kernel_pool s" "user_pool t = user_pool s"
    "kernel_vaddr t = kernel_vaddr s"
  shows "vm_inv t"
proof -
  have "mem_pool pf t = mem_pool pf s" for pf using assms by (simp add: mem_pool_def split: pool_flags.split)
  with assms show ?thesis
    by (simp add: vm_inv_def vm_core_def pool_bitmaps_def all_free_def heap_ok_def heap_bits_def heap_page_def translate_def bit_of_def)
qed

lemma mem_init_run:
  assumes "boot_tables s" "vload32 0xb00 s = Inr M" "bitmaps_fit M (running_thread s)"
  obtains v h sv ho rp m where "mem_init s = Inr (s\<lparr>screen := v, elems := h, sem_value := sv, lock_holder := ho, lock_repeat := rp,
      mem := m, kernel_pool := init_kernel_pool M, user_pool := init_user_pool M, kernel_vaddr := init_kernel_vaddr M\<rparr>)"
    "vm_inv (s\<lparr>mem := m, kernel_pool := init_kernel_pool M, user_pool := init_user_pool M, kernel_vaddr := init_kernel_vaddr M\<rparr>)"
    "free_idx (pool_bitmap (init_kernel_pool M)) m = {..<8 * unat (kbm_length M)}"
    "free_idx (vaddr_bitmap (init_kernel_vaddr M)) m = {..<8 * unat (kbm_length M)}"
proof -
  define p where "p = put_str (''mem_init start.'' @ [CHR 0x0a]) s"
  have p: "p = s\<lparr>screen := screen p\<rparr>" by (simp add: p_def put_str_def)
  have fit: "bitmaps_fit M (running_thread p)" using assms(3) by (simp add: p_def put_str_def running_thread_def)
  obtain h sv ho rp where l: "pool_locks_init p = p\<lparr>elems := h, sem_value := sv, lock_holder := ho, lock_repeat := rp\<rparr>"
    using pool_locks_init_eq by blast
  obtain v m where r: "mem_pool_init M p = Inr ((pool_locks_init p)\<lparr>screen := v, mem := m, kernel_pool := init_kernel_pool M,
      user_pool := init_user_pool M, kernel_vaddr := init_kernel_vaddr M\<rparr>)"
    using mem_pool_init_run [OF fit] by metis
  have pm: "pmem p = pmem s" "cr3 p = cr3 s" by (subst p, simp)+
  have "boot_tables p" using assms(1) boot_tables_cong [of p s] pm by simp
  then obtain t where i: "mem_pool_init M p = Inr t" "vm_inv t" "kernel_pool t = init_kernel_pool M" "kernel_vaddr t = init_kernel_vaddr M"
    "free_idx (bit_of PF_KERNEL t) (mem t) = {..<bm_bits (bit_of PF_KERNEL t)}"
    "free_idx (vaddr_bitmap (kernel_vaddr t)) (mem t) = {..<heap_bits t}" "heap_bits t = 8 * unat (kbm_length M)"
    using mem_pool_init_vm_inv [OF _ fit] by metis
  have t: "t = p\<lparr>elems := h, sem_value := sv, lock_holder := ho, lock_repeat := rp, screen := v, mem := m, kernel_pool := init_kernel_pool M,
      user_pool := init_user_pool M, kernel_vaddr := init_kernel_vaddr M\<rparr>"
    using i(1) r unfolding l by simp
  have bits: "bm_bits (pool_bitmap (init_kernel_pool M)) = 8 * unat (kbm_length M)"
    by (simp add: bm_bits_def init_kernel_pool_def)
  show thesis
  proof (rule that [where h = h and sv = sv and ho = ho and rp = rp and m = m and v = "screen (put_str (''mem_init done.'' @ [CHR 0x0a]) t)"])
    have "vload32 0xb00 p = Inr M" using assms(2) vload32_cong [OF pm] by simp
    then have "mem_init s = Inr (put_str (''mem_init done.'' @ [CHR 0x0a]) t)" unfolding mem_init_def Let_def p_def [symmetric] using i(1) by simp
    then show "mem_init s = Inr (s\<lparr>screen := screen (put_str (''mem_init done.'' @ [CHR 0x0a]) t), elems := h, sem_value := sv, lock_holder := ho,
        lock_repeat := rp, mem := m, kernel_pool := init_kernel_pool M, user_pool := init_user_pool M, kernel_vaddr := init_kernel_vaddr M\<rparr>)"
      unfolding put_str_def by (simp add: t) (subst p, simp)
    show "vm_inv (s\<lparr>mem := m, kernel_pool := init_kernel_pool M, user_pool := init_user_pool M, kernel_vaddr := init_kernel_vaddr M\<rparr>)"
      using i(2) by (rule vm_inv_cong) (simp_all add: t pm)
    show "free_idx (pool_bitmap (init_kernel_pool M)) m = {..<8 * unat (kbm_length M)}"
      using i(5) by (simp add: bit_of_def mem_pool_def t bits)
    show "free_idx (vaddr_bitmap (init_kernel_vaddr M)) m = {..<8 * unat (kbm_length M)}"
      using i(6,7) by (simp add: t)
  qed
qed

section \<open>The initialised kernel\<close>

text \<open>What the loader leaves for \<open>main\<close>, with the size of the memory \<open>M\<close> at 0xb00.\<close>

definition boot_state :: "u32 \<Rightarrow> 'a segs_scheme \<Rightarrow> bool" where
  "boot_state M s \<longleftrightarrow> length (idt s) = IDT_DESC_CNT \<and> length (idt_table s) = IDT_DESC_CNT \<and> length (buffer (ioqs s kbd_buf)) = 64 \<and>
     boot_tables s \<and> vload32 0xb00 s = Inr M \<and> running_thread s = 0xc009e000 \<and> translate s 0xc009e000 \<noteq> None"

text \<open>The kernel that runs: the components as their initialisations leave them.\<close>

definition kernel_ready :: "(nat \<Rightarrow> u32) \<Rightarrow> 'a segs_scheme \<Rightarrow> bool" where
  "kernel_ready entry s \<longleftrightarrow>
     (\<forall>i < IDT_DESC_CNT. gate_target (idt s ! i) = entry i) \<and>
     idt_table s = (replicate IDT_DESC_CNT General_Intr_Handler)[0x20 := Intr_Timer_Handler, 0x21 := Intr_Keyboard_Handler] \<and>
     ioq_ok (ioqs s kbd_buf) \<and> contents (ioqs s kbd_buf) = [] \<and> lock_free console_lock s \<and> tr s = SELECTOR_TSS"

lemma system_inv_frame:
  assumes "system_inv s rs ts" "pmem t = pmem s" "cr3 t = cr3 s" "mem t = mem s" "kernel_pool t = kernel_pool s" "user_pool t = user_pool s"
    "kernel_vaddr t = kernel_vaddr s" "tasks t = tasks s" "main_thread t = main_thread s"
    "\<forall>a \<in> ready_nodes rs \<union> all_nodes ts. elems t a = elems s a"
  shows "system_inv t rs ts"
proof -
  have inv: "vm_inv s" "ready_inv s rs" "all_inv s ts" "set rs \<subseteq> set ts" "main_thread s \<in> set ts" "threads_mapped s ts"
    using assms(1) by (simp_all add: system_inv_def)
  have "is_list (elems t) thread_ready_list (map general_tag rs)" "is_list (elems t) thread_all_list (map all_list_tag ts)"
    using inv(2,3) assms(10) by (auto simp: ready_inv_def all_inv_def intro: lq.holds_frame)
  then have "ready_inv t rs" "all_inv t ts" using inv(2,3) assms(8) by (simp_all add: ready_inv_def all_inv_def kstack_ok_def)
  moreover have "vm_inv t" using inv(1) assms(2-7) by (rule vm_inv_cong)
  ultimately show ?thesis using inv assms by (simp add: system_inv_def threads_mapped_def translate_def)
qed

lemma boot_nodes:
  "set (list_nodes (waiters (lock_sema console_lock)) []) = {0xc000630c, 0xc0006314}"
  "set (list_nodes (waiters (lock_sema kbd_buf)) []) = {0xc0006608, 0xc0006610}"
  "set (list_nodes thread_ready_list []) = {0xc00065cc, 0xc00065d4}" "set (list_nodes thread_all_list [all_list_tag 0xc009e000]) = {0xc00065dc, 0xc00065e4, 0xc009e028}"
  by (auto simp: list_nodes_def list_head_def list_tail_def waiters_def lock_sema_def console_lock_def kbd_buf_def
      thread_ready_list_def thread_all_list_def all_list_tag_def)

lemma init_tables:
  assumes "boot_state M s" "bitmaps_fit M 0xc009e000"
  obtains s' where "bindE (timer_init (idt_init entry (put_str ''init all'' s))) mem_init = Inr s'"
    "vm_inv s'" "threads_mapped s' [0xc009e000]" "running_thread s' = 0xc009e000" "eflags s' = eflags s" "ioqs s' = ioqs s"
    "kernel_pool s' = init_kernel_pool M" "kernel_vaddr s' = init_kernel_vaddr M"
    "free_idx (pool_bitmap (init_kernel_pool M)) (mem s') = {..<8 * unat (kbm_length M)}"
    "free_idx (vaddr_bitmap (init_kernel_vaddr M)) (mem s') = {..<8 * unat (kbm_length M)}"
    "idt s' = map (\<lambda>i. make_idt_desc IDT_DESC_ATTR_DPL0 (entry i)) [0..<IDT_DESC_CNT]"
    "idt_table s' = (replicate IDT_DESC_CNT General_Intr_Handler)[0x20 := Intr_Timer_Handler]"
proof -
  have b: "length (idt s) = IDT_DESC_CNT" "length (idt_table s) = IDT_DESC_CNT"
    "boot_tables s" "vload32 0xb00 s = Inr M" "running_thread s = 0xc009e000" "translate s 0xc009e000 \<noteq> None"
    using assms(1) by (simp_all add: boot_state_def)
  define p where "p = put_str ''init all'' s"
  let ?gates = "map (\<lambda>i. make_idt_desc IDT_DESC_ATTR_DPL0 (entry i)) [0..<IDT_DESC_CNT]"
  let ?tab = "replicate IDT_DESC_CNT General_Intr_Handler"
  obtain v nm po opd where i: "idt_init entry p = p\<lparr>screen := v, idt := ?gates, idt_table := ?tab,
      intr_name := nm, port_out := po, idt_operand := opd, idtr := opd\<rparr>"
    by (rule idt_init_run [of p entry]) (use b(1,2) in \<open>simp_all add: p_def put_str_def\<close>)
  define s1 where "s1 = p\<lparr>screen := v, idt := ?gates, idt_table := ?tab, intr_name := nm, port_out := po, idt_operand := opd, idtr := opd\<rparr>"
  have "0x20 < length (idt_table s1)" by (simp add: s1_def IDT_DESC_CNT_def)
  then obtain v po where t: "timer_init s1 = Inr (s1\<lparr>screen := v, port_out := po, idt_table := (idt_table s1)[0x20 := Intr_Timer_Handler]\<rparr>)"
    by (rule timer_init_run)
  define s2 where "s2 = s1\<lparr>screen := v, port_out := po, idt_table := (idt_table s1)[0x20 := Intr_Timer_Handler]\<rparr>"
  have "boot_tables s2" "vload32 0xb00 s2 = Inr M" "bitmaps_fit M (running_thread s2)"
    using b(3-5) assms(2) boot_tables_cong [of s2 s] vload32_cong [of s2 s] by (simp_all add: s2_def s1_def p_def put_str_def running_thread_def)
  then obtain v h sv ho rp m where m: "mem_init s2 = Inr (s2\<lparr>screen := v, elems := h, sem_value := sv, lock_holder := ho, lock_repeat := rp,
      mem := m, kernel_pool := init_kernel_pool M, user_pool := init_user_pool M, kernel_vaddr := init_kernel_vaddr M\<rparr>)" (is "_ = Inr ?s3")
    "vm_inv (s2\<lparr>mem := m, kernel_pool := init_kernel_pool M, user_pool := init_user_pool M, kernel_vaddr := init_kernel_vaddr M\<rparr>)"
    "free_idx (pool_bitmap (init_kernel_pool M)) m = {..<8 * unat (kbm_length M)}"
    "free_idx (vaddr_bitmap (init_kernel_vaddr M)) m = {..<8 * unat (kbm_length M)}"
    by (rule mem_init_run)
  note defs = s2_def s1_def p_def put_str_def
  show thesis
  proof (rule that [of ?s3])
    show "bindE (timer_init (idt_init entry (put_str ''init all'' s))) mem_init = Inr ?s3"
      using i t m(1) by (simp flip: p_def s1_def s2_def)
    show "vm_inv ?s3" using m(2) by (rule vm_inv_cong) simp_all
    show "threads_mapped ?s3 [0xc009e000]"
      using b(6) by (simp add: threads_mapped_def defs translate_def in_window_didx unat_pde_idx dir_idx_def)
    show "running_thread ?s3 = 0xc009e000" using b(5) by (simp add: defs running_thread_def)
  qed (use m(3,4) in \<open>simp_all add: defs\<close>)
qed

lemma init_devices:
  assumes "system_inv s [] [0xc009e000]" "length (idt_table s) = IDT_DESC_CNT" "length (buffer (ioqs s kbd_buf)) = 64"
    "running_thread s = 0xc009e000"
  obtains s' q where "bindE (keyboard_init (console_init s)) (\<lambda>s. Inr (tss_init s)) = Inr s'" "system_inv s' [] [0xc009e000]"
    "lock_free console_lock s'" "ioqs s' kbd_buf = q" "ioq_ok q" "contents q = []" "tr s' = SELECTOR_TSS"
    "idt_table s' = (idt_table s)[0x21 := Intr_Keyboard_Handler]" "idt s' = idt s" "mem s' = mem s" "kernel_pool s' = kernel_pool s"
    "kernel_vaddr s' = kernel_vaddr s" "tasks s' = tasks s" "running_thread s' = 0xc009e000" "eflags s' = eflags s"
proof -
  have "NULL \<notin> set (list_nodes (waiters (lock_sema console_lock)) [])" by (simp add: boot_nodes)
  then obtain h where c: "console_init s = s\<lparr>elems := h, sem_value := (sem_value s)(lock_sema console_lock := 1),
      lock_holder := (lock_holder s)(console_lock := NULL), lock_repeat := (lock_repeat s)(console_lock := 0)\<rparr>" (is "_ = ?s1")
    "\<forall>a. a \<notin> set (list_nodes (waiters (lock_sema console_lock)) []) \<longrightarrow> h a = elems s a" "is_list h (waiters (lock_sema console_lock)) []"
    using lock_init_cases [of console_lock s] unfolding console_init_def by metis
  obtain v h' q where k: "keyboard_init ?s1 = Inr (?s1\<lparr>screen := v, elems := h', sem_value := (sem_value ?s1)(lock_sema kbd_buf := 1),
      lock_holder := (lock_holder ?s1)(kbd_buf := NULL), lock_repeat := (lock_repeat ?s1)(kbd_buf := 0),
      ioqs := (ioqs ?s1)(kbd_buf := q), idt_table := (idt_table ?s1)[0x21 := Intr_Keyboard_Handler]\<rparr>)" (is "_ = Inr ?s2")
    "\<forall>a. a \<notin> set (list_nodes (waiters (lock_sema kbd_buf)) []) \<longrightarrow> h' a = elems ?s1 a" "ioq_ok q" "contents q = []"
    by (rule keyboard_init_run [of ?s1]) (use assms(2,3) in \<open>simp_all add: IDT_DESC_CNT_def\<close>)
  obtain v ts g where x: "tss_init ?s2 = ?s2\<lparr>screen := v, tss := ts, gdt := g, gdt_operand := 0xc00009000037, gdtr := 0xc00009000037, tr := SELECTOR_TSS\<rparr>"
    using tss_init_state [of ?s2] by blast
  show thesis
  proof (rule that [of "tss_init ?s2" q])
    show "bindE (keyboard_init (console_init s)) (\<lambda>s. Inr (tss_init s)) = Inr (tss_init ?s2)" unfolding c(1) k(1) by simp
    show "system_inv (tss_init ?s2) [] [0xc009e000]"
      unfolding x by (rule system_inv_frame [OF assms(1)]) (use c(2) k(2) in \<open>simp_all add: boot_nodes\<close>)
    have "is_list h' (waiters (lock_sema console_lock)) []"
      using k(2) by (intro lq.holds_frame [OF c(3)]) (auto simp: boot_nodes)
    then show "lock_free console_lock (tss_init ?s2)"
      using assms(4) unfolding x by (simp add: lock_free_def running_thread_def lock_sema_def console_lock_def kbd_buf_def)
  qed (unfold x, use assms(4) k(3,4) in \<open>simp_all add: running_thread_def\<close>)
qed

lemma init_all_run:
  assumes "boot_state M s" "bitmaps_fit M 0xc009e000"
  obtains s' where "init_all entry s = Inr s'" "system_inv s' [] [0xc009e000]" "kernel_ready entry s'"
    "kernel_pool s' = init_kernel_pool M" "kernel_vaddr s' = init_kernel_vaddr M"
    "free_idx (pool_bitmap (init_kernel_pool M)) (mem s') = {..<8 * unat (kbm_length M)}"
    "free_idx (vaddr_bitmap (init_kernel_vaddr M)) (mem s') = {..<8 * unat (kbm_length M)}"
    "running_thread s' = 0xc009e000" "eflags s' = eflags s" "status (tasks s' 0xc009e000) = TASK_RUNNING"
proof -
  obtain s1 where t: "bindE (timer_init (idt_init entry (put_str ''init all'' s))) mem_init = Inr s1"
    "vm_inv s1" "threads_mapped s1 [0xc009e000]" "running_thread s1 = 0xc009e000" "eflags s1 = eflags s" "ioqs s1 = ioqs s"
    "kernel_pool s1 = init_kernel_pool M" "kernel_vaddr s1 = init_kernel_vaddr M"
    "free_idx (pool_bitmap (init_kernel_pool M)) (mem s1) = {..<8 * unat (kbm_length M)}"
    "free_idx (vaddr_bitmap (init_kernel_vaddr M)) (mem s1) = {..<8 * unat (kbm_length M)}"
    "idt s1 = map (\<lambda>i. make_idt_desc IDT_DESC_ATTR_DPL0 (entry i)) [0..<IDT_DESC_CNT]"
    "idt_table s1 = (replicate IDT_DESC_CNT General_Intr_Handler)[0x20 := Intr_Timer_Handler]"
    using init_tables [OF assms] .
  have "running_thread s1 \<noteq> NULL" by (simp add: t(4))
  from thread_init_eq [OF this] obtain v h where th: "thread_init s1 = Inr (s1\<lparr>screen := v, elems := h, main_thread := 0xc009e000,
        tasks := (tasks s1)(0xc009e000 := started_task 0xc009e000 (cstr ''main'') 8 TASK_RUNNING)\<rparr>)" (is "_ = Inr ?s2")
      "is_list h thread_ready_list []" "is_list h thread_all_list [all_list_tag 0xc009e000]"
    unfolding t(4) by blast
  have sys: "system_inv ?s2 [] [0xc009e000]"
    using t(2,3) th(2,3) vm_inv_cong [of s1 ?s2]
    by (simp add: system_inv_def ready_inv_def all_inv_def threads_mapped_def translate_def page_aligned_def)
  have len: "length (idt_table ?s2) = IDT_DESC_CNT" "length (buffer (ioqs ?s2 kbd_buf)) = 64" "running_thread ?s2 = 0xc009e000"
    using assms(1) t(4,6,12) by (simp_all add: boot_state_def running_thread_def)
  obtain s' q where d: "bindE (keyboard_init (console_init ?s2)) (\<lambda>s. Inr (tss_init s)) = Inr s'" "system_inv s' [] [0xc009e000]"
    "lock_free console_lock s'" "ioqs s' kbd_buf = q" "ioq_ok q" "contents q = []" "tr s' = SELECTOR_TSS"
    "idt_table s' = (idt_table ?s2)[0x21 := Intr_Keyboard_Handler]" "idt s' = idt ?s2" "mem s' = mem ?s2" "kernel_pool s' = kernel_pool ?s2"
    "kernel_vaddr s' = kernel_vaddr ?s2" "tasks s' = tasks ?s2" "running_thread s' = 0xc009e000" "eflags s' = eflags ?s2"
    using init_devices [OF sys len] .
  have "init_all entry s = bindE (bindE (timer_init (idt_init entry (put_str ''init all'' s))) mem_init)
      (\<lambda>s. bindE (thread_init s) (\<lambda>s. bindE (keyboard_init (console_init s)) (\<lambda>s. Inr (tss_init s))))"
    by (simp add: init_all_def Let_def bindE_assoc)
  also have "\<dots> = Inr s'" using t(1) th(1) d(1) by simp
  finally have "init_all entry s = Inr s'" .
  moreover have "kernel_ready entry s'"
    using d(3-9) t(11,12) by (simp add: kernel_ready_def gate_target_make)
  ultimately show thesis
    using that [of s'] d t by (simp add: started_task_def)
qed

lemma first_fit_rest:
  assumes "free_idx b m = {..<bm_bits b} - {0}" "1 < bm_bits b"
  shows "first_fit (\<lambda>i. \<not> bm_used m b i) (bm_bits b) 1 = Some 1"
proof -
  have "i \<in> free_idx b m \<longleftrightarrow> \<not> bm_used m b i" if "i < bm_bits b" for i using that by (simp add: free_idx_def)
  from this [of 0] this [of 1] assms have "\<not> fits (\<lambda>i. \<not> bm_used m b i) 1 0" "fits (\<lambda>i. \<not> bm_used m b i) 1 1" by (auto simp: fits_def)
  moreover have "[0..<bm_bits b + 1 - 1] = 0 # 1 # [2..<bm_bits b]" using assms(2) by (simp add: upt_conv_Cons numeral_2_eq_2)
  ultimately show ?thesis by (simp add: first_fit_def)
qed

text \<open>What a new thread leaves alone, for the second thread and for the devices.\<close>

lemma kernel_ready_frame:
  assumes "kernel_ready entry s" "t = s\<lparr>mem := mem t, elems := elems t, tasks := tasks t, stk := stk t, pmem := pmem t\<rparr>"
    "\<forall>a \<in> set (list_nodes (waiters (lock_sema console_lock)) []). elems t a = elems s a"
  shows "kernel_ready entry t"
proof -
  have eqs: "idt t = idt s" "idt_table t = idt_table s" "ioqs t = ioqs s" "sem_value t = sem_value s" "lock_holder t = lock_holder s"
    "lock_repeat t = lock_repeat s" "tr t = tr s" "esp t = esp s"
    by (subst assms(2), simp)+
  have "is_list (elems t) (waiters (lock_sema console_lock)) []"
    using assms(1,3) by (auto simp: kernel_ready_def lock_free_def intro: lq.holds_frame)
  then show ?thesis using assms(1) eqs by (simp add: kernel_ready_def lock_free_def running_thread_def)
qed

lemma entry_frame_frame:
  assumes "entry_frame s t f a" "page_aligned t" "tasks s' t = tasks s t" "\<forall>b. b AND 0xfffff000 = t \<longrightarrow> stk s' b = stk s b"
    "link_kernel_thread s' = link_kernel_thread s"
  shows "entry_frame s' t f a"
proof -
  have "stk s' (t + n) = stk s (t + n)" if "unat n < 4096" for n
    using assms(4) page_mask_in_page [OF assms(2) that] by blast
  moreover have "self_kstack (tasks s t) = t + 3664" using assms(1) by (simp add: entry_frame_def)
  ultimately show ?thesis using assms(1,3,5)
    by (simp add: entry_frame_def saved_ctx_def Let_def add.assoc)
qed

lemma console_nodes_apart:
  assumes "\<forall>u \<in> set rs \<union> set ts. page_aligned u"
  shows "set (list_nodes (waiters (lock_sema console_lock)) []) \<inter> (ready_nodes rs \<union> all_nodes ts) = {}"
proof -
  have "a AND 0xfff = 32 \<or> a AND 0xfff = 40 \<or> a \<in> {0xc00065cc, 0xc00065d4, 0xc00065dc, 0xc00065e4}"
    if "a \<in> ready_nodes rs \<union> all_nodes ts" for a
    using that assms tag_offset by (auto simp: set_list_nodes list_head_def list_tail_def thread_ready_list_def thread_all_list_def)
  then show ?thesis by (fastforce simp: boot_nodes)
qed

lemma start_thread:
  assumes "system_inv s rs ts" "kernel_ready entry s" "free_idx (bit_of PF_KERNEL s) (mem s) \<noteq> {}"
    "first_fit (\<lambda>i. \<not> bm_used (mem s) (vaddr_bitmap (kernel_vaddr s)) i) (heap_bits s) 1 = Some k" "length nm \<le> 16"
    "heap_page s k = t" "t \<noteq> 0xc0006000"
  obtains s' where "thread_start nm prio f a s = Inr (t, s')" "system_inv s' (rs @ [t]) (ts @ [t])" "kernel_ready entry s'"
    "entry_frame s' t f a" "\<forall>u f' a'. page_aligned u \<and> u \<noteq> t \<and> entry_frame s u f' a' \<longrightarrow> entry_frame s' u f' a'"
    "kernel_pool s' = kernel_pool s" "kernel_vaddr s' = kernel_vaddr s" "running_thread s' = running_thread s"
    "\<exists>f. free_idx (bit_of PF_KERNEL s) (mem s') = free_idx (bit_of PF_KERNEL s) (mem s) - {f}"
    "free_idx (vaddr_bitmap (kernel_vaddr s)) (mem s') = free_idx (vaddr_bitmap (kernel_vaddr s)) (mem s) - {k}"
proof -
  obtain s' where r: "thread_start nm prio f a s = Inr (t, s')" "system_inv s' (rs @ [t]) (ts @ [t])" "entry_frame s' t f a"
    "\<forall>u. page_aligned u \<and> u \<noteq> t \<longrightarrow> tasks s' u = tasks s u" "running_thread s' = running_thread s"
    "s' = s\<lparr>mem := mem s', elems := elems s', tasks := tasks s', stk := stk s', pmem := pmem s'\<rparr>"
    "\<exists>f. free_idx (bit_of PF_KERNEL s) (mem s') = free_idx (bit_of PF_KERNEL s) (mem s) - {f}"
    "free_idx (vaddr_bitmap (kernel_vaddr s)) (mem s') = free_idx (vaddr_bitmap (kernel_vaddr s)) (mem s) - {k}"
    "\<forall>b. b AND 0xfffff000 \<noteq> t \<longrightarrow> stk s' b = stk s b"
    "\<forall>b. b \<notin> ready_nodes rs \<union> all_nodes ts \<and> b AND 0xfffff000 \<noteq> t \<longrightarrow> elems s' b = elems s b"
    using thread_start_run [OF assms(1,3,4,5), of prio f a, unfolded assms(6)] by metis
  have al: "\<forall>u \<in> set rs \<union> set ts. page_aligned u" using assms(1) by (auto simp: system_inv_def ready_inv_def all_inv_def)
  have "elems s' b = elems s b" if "b \<in> set (list_nodes (waiters (lock_sema console_lock)) [])" for b
  proof -
    have "b AND 0xfffff000 = 0xc0006000" using that by (auto simp: boot_nodes)
    then show ?thesis using r(10) console_nodes_apart [OF al] that assms(7) by auto
  qed
  then have "kernel_ready entry s'" by (intro kernel_ready_frame [OF assms(2) r(6)]) blast
  moreover have same: "kernel_pool s' = kernel_pool s" "kernel_vaddr s' = kernel_vaddr s" "link_kernel_thread s' = link_kernel_thread s"
    by (subst r(6), simp)+
  moreover have "entry_frame s' u f' a'" if "page_aligned u" "u \<noteq> t" "entry_frame s u f' a'" for u f' a'
    using entry_frame_frame [OF that(3,1)] r(4,9) same(3) that by auto
  ultimately show thesis using that [of s'] r by blast
qed

lemma start_consumers:
  assumes "system_inv s0 [] [0xc009e000]" "kernel_ready entry s0"
    "kernel_pool s0 = init_kernel_pool M" "kernel_vaddr s0 = init_kernel_vaddr M"
    "free_idx (pool_bitmap (init_kernel_pool M)) (mem s0) = {..<8 * unat (kbm_length M)}"
    "free_idx (vaddr_bitmap (init_kernel_vaddr M)) (mem s0) = {..<8 * unat (kbm_length M)}" "kbm_length M \<noteq> 0"
  obtains s1 s2 where "thread_start (cstr ''consumer_a'') 31 f a s0 = Inr (0xc0100000, s1)"
    "thread_start (cstr ''consumer_b'') 31 f' a' s1 = Inr (0xc0101000, s2)"
    "system_inv s2 [0xc0100000, 0xc0101000] [0xc009e000, 0xc0100000, 0xc0101000]" "kernel_ready entry s2"
    "entry_frame s2 0xc0100000 f a" "entry_frame s2 0xc0101000 f' a'" "running_thread s2 = running_thread s0"
proof -
  let ?b = "vaddr_bitmap (init_kernel_vaddr M)" and ?kb = "pool_bitmap (init_kernel_pool M)"
  have n: "bm_bits ?b = 8 * unat (kbm_length M)" "bm_bits ?kb = 8 * unat (kbm_length M)" "0 < unat (kbm_length M)"
    using assms(7) by (simp_all add: bm_bits_def init_kernel_pool_def init_kernel_vaddr_def unat_gt_0)
  have pool: "bit_of PF_KERNEL t = ?kb" if "kernel_pool t = init_kernel_pool M" for t :: "'a segs_scheme"
    using that by (simp add: bit_of_def mem_pool_def)
  have heap: "heap_page t 0 = 0xc0100000" "heap_page t 1 = 0xc0101000" "heap_bits t = bm_bits ?b"
    if "kernel_vaddr t = init_kernel_vaddr M" for t :: "'a segs_scheme"
    using that by (simp_all add: heap_page_def heap_bits_def) (simp_all add: init_kernel_vaddr_def K_HEAP_START_def PG_SIZE_def)
  have fit0: "first_fit (\<lambda>i. \<not> bm_used (mem s0) (vaddr_bitmap (kernel_vaddr s0)) i) (heap_bits s0) 1 = Some 0"
    using first_fit_all_free [of ?b "mem s0" 1] assms(6) n by (simp add: heap(3) [OF assms(4)] assms(4))
  have room: "free_idx (bit_of PF_KERNEL s0) (mem s0) \<noteq> {}" using assms(5) n by (simp add: pool [OF assms(3)] lessThan_empty_iff)
  obtain s1 where ta: "thread_start (cstr ''consumer_a'') 31 f a s0 = Inr (0xc0100000, s1)"
    "system_inv s1 ([] @ [0xc0100000]) ([0xc009e000] @ [0xc0100000])" "kernel_ready entry s1" "entry_frame s1 0xc0100000 f a"
    "\<forall>u g b. page_aligned u \<and> u \<noteq> 0xc0100000 \<and> entry_frame s0 u g b \<longrightarrow> entry_frame s1 u g b"
    "kernel_pool s1 = kernel_pool s0" "kernel_vaddr s1 = kernel_vaddr s0" "running_thread s1 = running_thread s0"
    "\<exists>i. free_idx (bit_of PF_KERNEL s0) (mem s1) = free_idx (bit_of PF_KERNEL s0) (mem s0) - {i}"
    "free_idx (vaddr_bitmap (kernel_vaddr s0)) (mem s1) = free_idx (vaddr_bitmap (kernel_vaddr s0)) (mem s0) - {0}"
    by (rule start_thread [OF assms(1,2) room fit0 _ heap(1) [OF assms(4)], of "cstr ''consumer_a''" 31 f a]) (simp_all add: cstr_def)
  have v1: "kernel_vaddr s1 = init_kernel_vaddr M" "kernel_pool s1 = init_kernel_pool M" using ta(6,7) assms(3,4) by simp_all
  have fit1: "first_fit (\<lambda>i. \<not> bm_used (mem s1) (vaddr_bitmap (kernel_vaddr s1)) i) (heap_bits s1) 1 = Some 1"
    using first_fit_rest [of ?b "mem s1"] ta(10) assms(4,6) n by (simp add: heap(3) [OF v1(1)] v1(1))
  have "(if f = 0 then 1 else 0) \<in> {..<8 * unat (kbm_length M)} - {f}" for f :: nat using n(3) by auto
  then have room1: "free_idx (bit_of PF_KERNEL s1) (mem s1) \<noteq> {}"
    using ta(9) assms(5) unfolding pool [OF v1(2)] pool [OF assms(3)] by (metis empty_iff)
  obtain s2 where tb: "thread_start (cstr ''consumer_b'') 31 f' a' s1 = Inr (0xc0101000, s2)"
    "system_inv s2 (([] @ [0xc0100000]) @ [0xc0101000]) (([0xc009e000] @ [0xc0100000]) @ [0xc0101000])" "kernel_ready entry s2"
    "entry_frame s2 0xc0101000 f' a'"
    "\<forall>u g b. page_aligned u \<and> u \<noteq> 0xc0101000 \<and> entry_frame s1 u g b \<longrightarrow> entry_frame s2 u g b"
    "running_thread s2 = running_thread s1"
    by (rule start_thread [OF ta(2,3) room1 fit1 _ heap(2) [OF v1(1)], of "cstr ''consumer_b''" 31 f' a']) (simp_all add: cstr_def)
  have "entry_frame s2 0xc0100000 f a" using tb(5) ta(4) by (simp add: page_aligned_def)
  then show thesis using that [OF ta(1) tb(1)] tb ta(8) by simp
qed

section \<open>Properties\<close>

text \<open>
  C2: From any state that the loader may leave, with memory for at least eight pages of kernel heap and not so
  much that the bitmaps of the memory run into the page of the main thread at 0xc009e000 (they fit up to 343 MB,
  lemma \<open>bitmaps_fit_343\<close>), \<open>main\<close> comes to its endless loop without a panic or a page fault. Then the main thread runs with
  interrupts on, the two consumer threads are ready in the order of their creation with their control blocks
  at the first two pages of the heap and enter their functions with their arguments, the queues and the memory
  are consistent, every gate leads to its entry point, the timer and the keyboard have their handlers, the
  keyboard queue is empty, the console is free and the task register is loaded.
\<close>

theorem main_boots:
  assumes "boot_state M s" "kbm_length M \<noteq> 0" "bitmaps_fit M 0xc009e000"
  shows "\<exists>s'. main entry arg_a arg_b s = Inr s' \<and> intr_get_status s' = INTR_ON \<and> running_thread s' = 0xc009e000 \<and>
    system_inv s' [0xc0100000, 0xc0101000] [0xc009e000, 0xc0100000, 0xc0101000] \<and>
    entry_frame s' 0xc0100000 k_thread_a_addr arg_a \<and> entry_frame s' 0xc0101000 k_thread_b_addr arg_b \<and>
    kernel_ready entry s'"
proof -
  define p where "p = put_str (''hello world'' @ [CHR 0x0a]) (put_int 0x1234 (put_char (of_char (CHR ''a'')) s))"
  have "boot_state M p"
    using assms(1) boot_tables_cong [of p s] vload32_cong [of p s]
    by (simp add: boot_state_def p_def put_str_def put_int_def put_char_def running_thread_def translate_def)
  then obtain s0 where i: "init_all entry p = Inr s0" "system_inv s0 [] [0xc009e000]" "kernel_ready entry s0"
    "kernel_pool s0 = init_kernel_pool M" "kernel_vaddr s0 = init_kernel_vaddr M"
    "free_idx (pool_bitmap (init_kernel_pool M)) (mem s0) = {..<8 * unat (kbm_length M)}"
    "free_idx (vaddr_bitmap (init_kernel_vaddr M)) (mem s0) = {..<8 * unat (kbm_length M)}" "running_thread s0 = 0xc009e000"
    using init_all_run [OF _ assms(3)] by metis
  obtain s1 s2 where t: "thread_start (cstr ''consumer_a'') 31 k_thread_a_addr arg_a s0 = Inr (0xc0100000, s1)"
    "thread_start (cstr ''consumer_b'') 31 k_thread_b_addr arg_b s1 = Inr (0xc0101000, s2)"
    "system_inv s2 [0xc0100000, 0xc0101000] [0xc009e000, 0xc0100000, 0xc0101000]" "kernel_ready entry s2"
    "entry_frame s2 0xc0100000 k_thread_a_addr arg_a" "entry_frame s2 0xc0101000 k_thread_b_addr arg_b" "running_thread s2 = running_thread s0"
    using start_consumers [OF i(2-7) assms(2)] .
  have "main entry arg_a arg_b s = Inr (sti s2)"
    unfolding main_def Let_def p_def [symmetric] using i(1) t(1,2) by simp
  moreover have "intr_get_status (sti s2) = INTR_ON" by (simp add: sti_def intr_get_status_bit bit_simps bit_EFLAGS_IF)
  moreover have "system_inv (sti s2) [0xc0100000, 0xc0101000] [0xc009e000, 0xc0100000, 0xc0101000]"
    by (rule system_inv_frame [OF t(3)]) (simp_all add: sti_def)
  moreover have "entry_frame (sti s2) u g b = entry_frame s2 u g b" for u g b
    by (simp add: sti_def entry_frame_def saved_ctx_def Let_def)
  moreover have "kernel_ready entry (sti s2) = kernel_ready entry s2"
    by (simp add: sti_def kernel_ready_def lock_free_def running_thread_def)
  moreover have "running_thread (sti s2) = 0xc009e000" using t(7) i(8) by (simp add: sti_def running_thread_def)
  ultimately show ?thesis using t(4-6) by (intro exI [of _ "sti s2"]) simp
qed

definition segs0 :: segs where
  "segs0 = kbd.extend kbd0 (segs.fields zero_tss (\<lambda>_. make_gdt_desc 0 0 0 0) 0)"

lemma segs0_simps:
  "length (idt segs0) = IDT_DESC_CNT" "length (idt_table segs0) = IDT_DESC_CNT" "length (buffer (ioqs segs0 kbd_buf)) = 64"
  "pmem segs0 = pmem (mems0 nodes_ready)" "cr3 segs0 = cr3 (mems0 nodes_ready)" "esp segs0 = 0xc009ef00"
  by (simp_all add: segs0_def kbd.extend_def segs.fields_def kbd0_def queues.extend_def kbd.fields_def queues0_def mems.extend_def
      queues.fields_def mems0_def paging.extend_def syncs.extend_def paging.fields_def mems.fields_def syncs0_def clock.extend_def
      syncs.fields_def clock0_def intr.extend_def clock.fields_def intr0_def threads.extend_def intr.fields_def threads0_def
      liststore.extend_def threads.fields_def liststore0_def bytemem.extend_def liststore.fields_def bytemem0_def machine.extend_def
      bytemem.fields_def machine0_def IDT_DESC_CNT_def)

lemma boot_state0: "boot_state 0x2000000 segs0"
proof -
  have "boot_tables segs0" using boot_tables0 [of nodes_ready] boot_tables_cong [OF segs0_simps(4,5)] by simp
  moreover have "vload32 0xb00 segs0 = Inr 0x2000000" using size_word0 [of nodes_ready] vload32_cong [OF segs0_simps(4,5)] by simp
  moreover have "translate segs0 0xc009e000 \<noteq> None"
    using walk_pcb by (simp add: translate_def segs0_simps(4,5) mems0_simps)
  ultimately show ?thesis by (simp add: boot_state_def segs0_simps running_thread_def)
qed

theorem main_boots_witness:
  "\<exists>s'. main (\<lambda>i. 0xc0001c80 + 25 * of_nat i) 0xc0004510 0xc0004520 segs0 = Inr s' \<and>
     system_inv s' [0xc0100000, 0xc0101000] [0xc009e000, 0xc0100000, 0xc0101000] \<and> intr_get_status s' = INTR_ON"
proof -
  have "kbm_length 0x2000000 \<noteq> 0" by (simp add: lengths_32mb)
  then show ?thesis
    using main_boots [OF boot_state0 _ fit0(1), of "\<lambda>i. 0xc0001c80 + 25 * of_nat i" "0xc0004510" "0xc0004520"] by blast
qed

end
