(* ===== verification/Boot_Paging.thy ===== *)
theory Boot_Paging
  imports Start
begin

text \<open>
  boot/loader.S, \<open>setup_page\<close>: the page tables that the loader builds before it turns paging on, on
  the physical memory of words. They are the tables on which the initialisation of the kernel relies.
\<close>

section \<open>Constants of boot/include/boot.inc\<close>

definition LOADER_BASE_ADDR :: u32 where "LOADER_BASE_ADDR = 0x900"

definition LOADER_START_SECTOR :: u32 where "LOADER_START_SECTOR = 2"

definition PAGE_DIR_TABLE_POS :: u32 where "PAGE_DIR_TABLE_POS = 0x100000"

definition PG_P :: u32 where "PG_P = 1"

definition KERNEL_START_SECTOR :: u32 where "KERNEL_START_SECTOR = 9"

definition KERNEL_BIN_BASE_ADDR :: u32 where "KERNEL_BIN_BASE_ADDR = 0x70000"

definition PT_NULL :: u8 where "PT_NULL = 0"

section \<open>Page tables\<close>

text \<open>
  The loops count in ecx, which is the first argument of their models; ax, bx, dx and si stand for the
  32-bit registers.
\<close>

text \<open>A store of a byte into the physical memory of words.\<close>

definition pstore8 :: "addr \<Rightarrow> u8 \<Rightarrow> (addr \<Rightarrow> u32) \<Rightarrow> (addr \<Rightarrow> u32)" where
  "pstore8 a v pm =
     (let w = a AND NOT 3; k = 8 * unat (a AND 3)
      in pm(w := pm w AND NOT (push_bit k 0xff) OR push_bit k (ucast v)))"

fun clear_page_dir :: "nat \<Rightarrow> u32 \<Rightarrow> (addr \<Rightarrow> u32) \<Rightarrow> (addr \<Rightarrow> u32)" where
  "clear_page_dir 0 si pm = pm"
| "clear_page_dir (Suc n) si pm = clear_page_dir n (si + 1) (pstore8 (PAGE_DIR_TABLE_POS + si) 0 pm)"

fun creat_pte :: "nat \<Rightarrow> u32 \<Rightarrow> u32 \<Rightarrow> u32 \<Rightarrow> (addr \<Rightarrow> u32) \<Rightarrow> (addr \<Rightarrow> u32)" where
  "creat_pte 0 bx si dx pm = pm"
| "creat_pte (Suc n) bx si dx pm = creat_pte n bx (si + 1) (dx + 4096) (pm(bx + si * 4 := dx))"

fun create_kernel_pde :: "nat \<Rightarrow> u32 \<Rightarrow> u32 \<Rightarrow> u32 \<Rightarrow> (addr \<Rightarrow> u32) \<Rightarrow> (addr \<Rightarrow> u32)" where
  "create_kernel_pde 0 bx si ax pm = pm"
| "create_kernel_pde (Suc n) bx si ax pm = create_kernel_pde n bx (si + 1) (ax + 0x1000) (pm(bx + si * 4 := ax))"

definition setup_page :: "(addr \<Rightarrow> u32) \<Rightarrow> (addr \<Rightarrow> u32)" where
  "setup_page pm =
     (let pm = clear_page_dir 4096 0 pm;
          ax = PAGE_DIR_TABLE_POS + 0x1000;
          bx = ax;
          ax = ax OR (PG_US_U OR PG_RW_W OR PG_P);
          pm = pm(PAGE_DIR_TABLE_POS + 0 := ax);
          pm = pm(PAGE_DIR_TABLE_POS + 0xc00 := ax);
          ax = ax - 0x1000;
          pm = pm(PAGE_DIR_TABLE_POS + 4092 := ax);
          pm = creat_pte 256 bx 0 (PG_US_U OR PG_RW_W OR PG_P) pm;
          ax = PAGE_DIR_TABLE_POS + 0x2000;
          ax = ax OR (PG_US_U OR PG_RW_W OR PG_P)
      in create_kernel_pde 254 PAGE_DIR_TABLE_POS 769 ax pm)"

text \<open>Then the loader sets \<open>cr3\<close> and turns the paging on.\<close>

definition paging_on :: "'a paging_scheme \<Rightarrow> 'a paging_scheme" where
  "paging_on s = s\<lparr>cr3 := PAGE_DIR_TABLE_POS, pmem := setup_page (pmem s)\<rparr>"

section \<open>The tables\<close>

text \<open>The words from 1 MB on, by their index.\<close>

abbreviation tword :: "nat \<Rightarrow> addr" where
  "tword n \<equiv> 0x100000 + 4 * of_nat n"

lemma unat_tword: "n < 262144 \<Longrightarrow> unat (tword n) = 1048576 + 4 * n"
proof -
  assume n: "n < 262144"
  have "unat (of_nat (4 * n) :: u32) = 4 * n" using n by (intro unat_of_nat_u32) simp
  then have "unat (4 * of_nat n :: u32) = 4 * n" by simp
  then show ?thesis using n by (simp add: unat_add_u32)
qed

lemma tword_eq_iff: "m < 262144 \<Longrightarrow> n < 262144 \<Longrightarrow> tword m = tword n \<longleftrightarrow> m = n"
  using unat_tword [of m] unat_tword [of n] by (metis add_left_cancel mult_left_cancel zero_neq_numeral)

lemma unat_and_3: "unat ((x :: u32) AND 3) = unat x mod 4"
proof -
  have "(3 :: u32) = mask 2" by (simp add: mask_eq_exp_minus_1)
  then have "x AND 3 = take_bit 2 x" by (simp add: take_bit_eq_mask)
  then show ?thesis by (simp add: take_bit_eq_mod unat_mod)
qed

lemma word_part: "n < 262144 \<Longrightarrow> j < 4 \<Longrightarrow> unat ((tword n + of_nat j) AND 3) = j \<and> (tword n + of_nat j) AND NOT 3 = tword n"
proof -
  assume n: "n < 262144" and j: "j < 4"
  have "unat (of_nat j :: u32) = j" using j by (intro unat_of_nat_u32) simp
  then have u: "unat (tword n + of_nat j) = 4 * (262144 + n) + j" using unat_tword [OF n] n j by (simp add: unat_add_u32)
  have "(1048576 + 4 * n + j) mod 4 = j" using j by presburger
  then have m: "unat ((tword n + of_nat j) AND 3) = j" using u by (simp add: unat_and_3)
  then have "(tword n + of_nat j) AND 3 = of_nat j" by (metis unat_of_nat_self)
  moreover have "x AND NOT 3 = x - (x AND 3)" for x :: u32
  proof -
    have "(x AND NOT 3) + (x AND 3) = (x AND NOT 3) OR (x AND 3)" by (rule disjunctive_add) (simp add: bit_simps)
    also have "\<dots> = x" by (simp only: bit.conj_disj_distrib [symmetric] bit.disj_cancel_left bit.conj_one_right)
    finally show ?thesis by (simp only: eq_diff_eq)
  qed
  ultimately show ?thesis using m by simp
qed

lemma clear_word:
  assumes "n < 262144"
  shows "pstore8 (tword n + 3) 0 (pstore8 (tword n + 2) 0 (pstore8 (tword n + 1) 0 (pstore8 (tword n) 0 pm))) = pm(tword n := 0)"
proof -
  have st: "pstore8 (tword n + of_nat j) 0 q = q(tword n := q (tword n) AND m)" if "j < 4" "NOT (push_bit (8 * j) 0xff) = m" for j m and q :: "addr \<Rightarrow> u32"
    using word_part [OF assms that(1)] that(2) by (simp add: pstore8_def Let_def)
  have m: "NOT (push_bit (8 * 0) 0xff) = (0xffffff00 :: u32)" "NOT (push_bit (8 * 1) 0xff) = (0xffff00ff :: u32)"
    "NOT (push_bit (8 * 2) 0xff) = (0xff00ffff :: u32)" "NOT (push_bit (8 * 3) 0xff) = (0x00ffffff :: u32)" by simp_all
  have s: "pstore8 (tword n) 0 q = q(tword n := q (tword n) AND 0xffffff00)" "pstore8 (tword n + 1) 0 q = q(tword n := q (tword n) AND 0xffff00ff)"
    "pstore8 (tword n + 2) 0 q = q(tword n := q (tword n) AND 0xff00ffff)" "pstore8 (tword n + 3) 0 q = q(tword n := q (tword n) AND 0x00ffffff)"
    for q :: "addr \<Rightarrow> u32"
    using st [OF _ m(1)] st [OF _ m(2)] st [OF _ m(3)] st [OF _ m(4)] by simp_all
  show ?thesis unfolding s by (simp add: and.assoc)
qed

lemma clear_page_dir_words:
  "i + k \<le> 1024 \<Longrightarrow> clear_page_dir (4 * k) (4 * of_nat i) pm = (\<lambda>a. if \<exists>n \<in> {i..<i + k}. a = tword n then 0 else pm a)"
proof (induction k arbitrary: i pm)
  case (Suc k)
  have i: "i < 262144" using Suc.prems by simp
  have e: "4 * Suc k = Suc (Suc (Suc (Suc (4 * k))))" by simp
  have "clear_page_dir (4 * Suc k) (4 * of_nat i) pm = clear_page_dir (4 * k) (4 * of_nat (Suc i)) (pm(tword i := 0))"
    unfolding e using clear_word [OF i, of pm] by (simp add: PAGE_DIR_TABLE_POS_def add.assoc add.commute [of _ 4])
  also have "\<dots> = (\<lambda>a. if \<exists>n \<in> {i..<i + Suc k}. a = tword n then 0 else pm a)"
  proof -
    define q where "q = pm(tword i := 0)"
    have "{i..<i + Suc k} = insert i {Suc i..<Suc i + k}" by auto
    moreover have "clear_page_dir (4 * k) (4 * of_nat (Suc i)) q = (\<lambda>a. if \<exists>n \<in> {Suc i..<Suc i + k}. a = tword n then 0 else q a)"
      by (rule Suc.IH) (use Suc.prems in simp)
    moreover have "q a = (if a = tword i then 0 else pm a)" for a by (simp add: q_def)
    ultimately show ?thesis unfolding q_def [symmetric] by (simp add: fun_eq_iff)
  qed
  finally show ?case .
qed simp

lemma create_kernel_pde_eq: "create_kernel_pde n bx si ax pm = creat_pte n bx si ax pm"
  by (induction n arbitrary: si ax pm) simp_all

lemma creat_pte_words:
  "b + i + k \<le> 262144 \<Longrightarrow> j < 262144 \<Longrightarrow> creat_pte k (tword b) (of_nat i) d pm (tword j) =
     (if b + i \<le> j \<and> j < b + i + k then d + of_nat (4096 * (j - (b + i))) else pm (tword j))"
proof (induction k arbitrary: i d pm)
  case (Suc k)
  define q where "q = pm(tword (b + i) := d)"
  have q: "q (tword j) = (if j = b + i then d else pm (tword j))"
    using tword_eq_iff [of j "b + i"] Suc.prems by (simp add: q_def del: of_nat_add)
  have a: "tword b + of_nat i * 4 = tword (b + i)" by (simp add: algebra_simps)
  have "creat_pte (Suc k) (tword b) (of_nat i) d pm = creat_pte k (tword b) (of_nat (Suc i)) (d + 4096) q"
    unfolding creat_pte.simps a by (simp add: add.commute q_def)
  then have "creat_pte (Suc k) (tword b) (of_nat i) d pm (tword j) =
      (if b + Suc i \<le> j \<and> j < b + Suc i + k then d + 4096 + of_nat (4096 * (j - (b + Suc i))) else q (tword j))"
    using Suc.IH [of "Suc i" "d + 4096" q] Suc.prems by simp
  moreover have "j - (b + i) = Suc (j - (b + Suc i))" if "b + Suc i \<le> j" using that by simp
  ultimately show ?case using q by auto
qed auto

text \<open>Every word of the directory and of the tables.\<close>

lemma setup_page_word:
  assumes "j < 262144"
  shows "setup_page pm (tword j) = (if j < 1024 then if 768 \<le> dir_idx j then table0 (dir_idx j) + 7 else 0
    else if j < 1280 then of_nat (4096 * (j - 1024)) + 7 else pm (tword j))"
proof -
  define p1 where "p1 = clear_page_dir 4096 0 pm"
  define p2 where "p2 = p1(tword 0 := 0x101007, tword 768 := 0x101007, tword 1023 := 0x100007)"
  define p3 where "p3 = creat_pte 256 (tword 1024) (of_nat 0) 7 p2"
  have p1: "p1 (tword j) = (if j < 1024 then 0 else pm (tword j))"
    using clear_page_dir_words [of 0 1024 pm] tword_eq_iff [OF assms] by (auto simp: p1_def)
  have p2: "p2 (tword j) = (if j = 0 \<or> j = 768 then 0x101007 else if j = 1023 then 0x100007 else p1 (tword j))"
    using tword_eq_iff [OF assms, of 0] tword_eq_iff [OF assms, of 768] tword_eq_iff [OF assms, of 1023] by (simp add: p2_def)
  have p3: "p3 (tword j) = (if 1024 \<le> j \<and> j < 1280 then of_nat (4096 * (j - 1024)) + 7 else p2 (tword j))"
    using creat_pte_words [of 1024 0 256 j 7 p2] assms by (simp add: p3_def)
  have "setup_page pm = create_kernel_pde 254 (tword 0) (of_nat 769) 0x102007 p3"
    by (simp add: setup_page_def Let_def PAGE_DIR_TABLE_POS_def PG_US_U_def PG_RW_W_def PG_P_def p3_def p2_def p1_def)
  then have "setup_page pm (tword j) = (if 769 \<le> j \<and> j < 1023 then 0x102007 + of_nat (4096 * (j - 769)) else p3 (tword j))"
    using creat_pte_words [of 0 769 254 j "0x102007" p3] assms by (simp add: create_kernel_pde_eq)
  moreover have "0x102007 + of_nat (4096 * (j - 769)) = table0 j + 7" if "769 \<le> j" "j < 1023"
  proof -
    have "j - 768 = Suc (j - 769)" using that by simp
    then show ?thesis using that by (simp add: table0_def)
  qed
  ultimately show ?thesis unfolding p3 p2 p1 by (auto simp: dir_idx_def table0_def)
qed

lemma creat_pte_outside: "b + i + k \<le> 262144 \<Longrightarrow> unat a < 1048576 \<Longrightarrow> creat_pte k (tword b) (of_nat i) d pm a = pm a"
proof (induction k arbitrary: i d pm)
  case (Suc k)
  have "a \<noteq> tword (b + i)" using Suc.prems unat_tword [of "b + i"] by auto
  moreover have "tword (b + i) = tword b + of_nat i * 4" by (simp add: algebra_simps)
  ultimately have "a \<noteq> tword b + of_nat i * 4" by (simp only: not_False_eq_True)
  moreover define q where "q = pm(tword b + of_nat i * 4 := d)"
  ultimately have "q a = pm a" by simp
  then show ?case using Suc.IH [of "Suc i" "d + 4096" q] Suc.prems unfolding creat_pte.simps q_def [symmetric] by (simp add: add.commute [of 1])
qed simp

lemma setup_page_low:
  assumes "unat a < 1048576"
  shows "setup_page pm a = pm a"
proof -
  have "a \<noteq> tword j" if "j < 262144" for j using unat_tword [OF that] assms by auto
  from this [of 0] this [of 768] this [of 1023] this
  have a: "a \<noteq> tword 0" "a \<noteq> tword 768" "a \<noteq> tword 1023" "\<forall>n \<in> {0..<0 + 1024}. a \<noteq> tword n" by simp_all
  have "clear_page_dir 4096 0 pm a = pm a" using clear_page_dir_words [of 0 1024 pm] a(4) by simp
  then show ?thesis
    using a(1-3) creat_pte_outside [OF _ assms, of 1024 0 256] creat_pte_outside [OF _ assms, of 0 769 254]
    by (simp add: setup_page_def Let_def PAGE_DIR_TABLE_POS_def PG_US_U_def PG_RW_W_def PG_P_def create_kernel_pde_eq)
qed

text \<open>The same tables as in the state \<open>pm0\<close>.\<close>

lemma setup_page_pm0:
  assumes "\<forall>n. 1280 \<le> n \<and> n < 262144 \<longrightarrow> pm (tword n) = 0" "j < 262144"
  shows "setup_page pm (tword j) = pm0 (tword j)"
proof -
  have hi: "pm0 (tword j) = (if j < 1280 then of_nat (4096 * (j - 1024)) + 7 else 0)" if j: "1024 \<le> j"
  proof (cases "j < 2048")
    case True
    have "tword j = 0x101000 + 4 * of_nat (j - 1024)" using j by (simp add: of_nat_diff algebra_simps)
    then show ?thesis using pm0_low [of "j - 1024"] True j by auto
  next
    case False
    have u: "unat (tword j) = 1048576 + 4 * j" using unat_tword [OF assms(2)] .
    have "2 * 4096 + 1048576 \<le> unat (tword j)" using u False by simp
    then have "1056768 \<le> unat (tword j AND 0xfffff000)" using div_le_mono [of 1056768 "unat (tword j)" 4096] by (simp add: unat_page_mask)
    then have "tword j AND 0xfffff000 \<noteq> 0x100000" "tword j AND 0xfffff000 \<noteq> 0x101000" by auto
    moreover have "unat (tword j) \<noteq> unat (0xb00 :: u32)" using u by simp
    then have "tword j \<noteq> 0xb00" by metis
    ultimately show ?thesis using False by (simp add: pm0_def)
  qed
  show ?thesis
  proof (cases "j < 1024")
    case True
    then show ?thesis using pm0_dir [OF True] by (simp add: setup_page_word)
  next
    case False
    then show ?thesis using hi assms by (simp add: setup_page_word)
  qed
qed

lemma table_word:
  assumes "768 \<le> i" "i < 1024" "j < 1024"
  shows "\<exists>n < 262144. table0 i + 4 * of_nat j = tword n"
proof (cases "i = 1023")
  case True
  then show ?thesis using assms(3) by (intro exI [of _ j]) (simp add: table0_values)
next
  case False
  then have "table0 i = tword (1024 + 1024 * (i - 768))" using assms by (simp add: table0_def)
  then have "table0 i + 4 * of_nat j = tword (1024 + 1024 * (i - 768) + j)" by (simp add: algebra_simps)
  then show ?thesis using False assms by (intro exI [of _ "1024 + 1024 * (i - 768) + j"]) auto
qed

lemma same_walk:
  assumes "\<forall>j < 262144. pm (tword j) = pm0 (tword j)"
  shows "pm (pde_slot 0x100000 v) = pm0 (pde_slot 0x100000 v)" "walk pm 0x100000 v = walk pm0 0x100000 v"
proof -
  have "pde_slot 0x100000 v = tword (unat (drop_bit 22 v))" by (simp add: pde_slot_def frame_of_def)
  moreover have "pm (tword (unat (drop_bit 22 v))) = pm0 (tword (unat (drop_bit 22 v)))" using assms pde_idx_less [of v] by (simp only:)
  ultimately show pde: "pm (pde_slot 0x100000 v) = pm0 (pde_slot 0x100000 v)" by (simp only:)
  have "pm (pte_slot (pm0 (pde_slot 0x100000 v)) v) = pm0 (pte_slot (pm0 (pde_slot 0x100000 v)) v)" if p: "present (pm0 (pde_slot 0x100000 v))"
  proof -
    have d: "768 \<le> didx v" using p by (simp only: pde0_present)
    have "pte_slot (pm0 (pde_slot 0x100000 v)) v = table0 (didx v) + 4 * of_nat (unat (drop_bit 12 v AND 0x3ff))"
      using pde0_frame [OF d] by (simp only: pte_slot_def unat_of_nat_self)
    then show ?thesis using table_word [OF d didx_less pte_idx_less [of v]] assms by auto
  qed
  then show "walk pm 0x100000 v = walk pm0 0x100000 v" by (simp add: walk_def Let_def pde)
qed

lemma walk_low:
  assumes "didx v = 768" "unat v div 4096 mod 1024 < 256"
  shows "walk pm0 0x100000 v = Some (of_nat (4096 * (unat v div 4096 mod 1024)) + (v AND 0xfff))"
proof -
  let ?j = "unat v div 4096 mod 1024"
  have nw: "\<not> in_window v" using assms(1) by (simp only: in_window_didx)
  obtain p where p: "pte_loc pm0 0x100000 v = Some p" using pde0_present [of v] assms(1) by (auto simp: pte_loc_def simp del: drop_bit_eq_div)
  have e: "pm0 p = of_nat (4096 * ?j) + 7" using entry0 [OF p nw] assms by simp
  have u: "unat (of_nat (4096 * ?j) :: u32) = 4096 * ?j" using assms(2) by (intro unat_of_nat_u32) simp
  then have al: "page_aligned (of_nat (4096 * ?j))" by (simp only: page_aligned_dvd) simp
  have "frame_of (pm0 p) = of_nat (4096 * ?j)" unfolding e frame_of_def using page_mask_in_page [OF al, of 7] by simp
  moreover have "unat (pm0 p) = 4096 * ?j + 7" unfolding e using u assms(2) by (simp add: unat_add_u32 del: of_nat_mult)
  then have "present (pm0 p)" by (simp add: present_odd)
  ultimately show ?thesis using p by (simp add: walk_pte_loc)
qed

lemma walk_first_mb:
  assumes "unat v < 1048576"
  shows "walk pm0 0x100000 v = Some v" "walk pm0 0x100000 (0xc0000000 + v) = Some v"
proof -
  have j: "unat v div 4096 mod 1024 = unat v div 4096" "unat v div 4096 < 256" using assms by auto
  have v: "of_nat (4096 * (unat v div 4096)) + (v AND 0xfff) = v"
  proof (rule word_unat_eq_iff [THEN iffD2])
    have "unat (of_nat (4096 * (unat v div 4096)) :: u32) = 4096 * (unat v div 4096)" using j(2) by (intro unat_of_nat_u32) simp
    then show "unat (of_nat (4096 * (unat v div 4096)) + (v AND 0xfff)) = unat v"
      using assms by (simp add: unat_add_u32 unat_offset_mask del: of_nat_mult)
  qed
  have d: "didx v = 768" using assms by (simp add: unat_pde_idx dir_idx_def del: drop_bit_eq_div)
  show "walk pm0 0x100000 v = Some v" using walk_low [OF d] j v by simp
  have u: "unat (0xc0000000 + v) = 3221225472 + unat v" using assms by (simp add: unat_add_u32)
  moreover have "(3221225472 + unat v) div 4194304 = 768" using assms by (intro div_nat_eqI) simp_all
  ultimately have d': "didx (0xc0000000 + v) = 768" using assms by (simp add: unat_pde_idx dir_idx_def del: drop_bit_eq_div)
  have j': "unat (0xc0000000 + v) div 4096 mod 1024 = unat v div 4096"
  proof -
    have "(3221225472 + unat v) div 4096 = 786432 + unat v div 4096" using div_plus_div_distrib_dvd_left [of 4096 3221225472 "unat v"] by simp
    moreover have "(786432 + x) mod 1024 = x mod 1024" for x :: nat using mod_mult_self2 [of x 1024 768] by (simp add: add.commute)
    ultimately show ?thesis unfolding u using j by simp
  qed
  have "(3221225472 + unat v) mod 4096 = unat v mod 4096" using mod_mult_self2 [of "unat v" 4096 786432] by (simp add: add.commute)
  then have "(0xc0000000 + v) AND 0xfff = v AND 0xfff" using u by (intro word_unat_eq_iff [THEN iffD2]) (simp add: unat_offset_mask)
  then show "walk pm0 0x100000 (0xc0000000 + v) = Some v" using walk_low [OF d'] j j' v by simp
qed

lemma walk_rest:
  assumes "1048576 \<le> unat v" "unat v < 3221225472"
  shows "walk pm0 0x100000 v = None"
proof -
  have nw: "\<not> in_window v" using assms by (auto simp: in_window_unat unat_pde_idx simp del: drop_bit_eq_div)
  have "\<not> (didx v = 768 \<and> unat v div 4096 mod 1024 < 256)"
  proof
    assume a: "didx v = 768 \<and> unat v div 4096 mod 1024 < 256"
    then have "unat v div 4194304 = 0" using assms(2) by (auto simp: dir_idx_def unat_pde_idx split: if_splits simp del: drop_bit_eq_div)
    then have "unat v < 4194304" by simp
    then have "unat v div 4096 < 256" using a by simp
    then show False using assms(1) by simp
  qed
  then have "pm0 p = 0" if "pte_loc pm0 0x100000 v = Some p" for p using entry0 [OF that nw] by auto
  then show ?thesis by (auto simp: walk_pte_loc present_def split: option.split)
qed

lemma paging_on_tables:
  assumes "\<forall>a. 0x101400 \<le> a \<and> a < 0x200000 \<longrightarrow> pmem s a = 0"
  shows "translate (paging_on s) v = walk pm0 0x100000 v" "boot_tables (paging_on s)" "v < 0x100000 \<Longrightarrow> pmem (paging_on s) v = pmem s v"
proof -
  let ?pm = "setup_page (pmem s)"
  have "pmem s (tword n) = 0" if "1280 \<le> n" "n < 262144" for n
  proof -
    have "unat (tword n) = 1048576 + 4 * n" using unat_tword [OF that(2)] .
    then have "0x101400 \<le> tword n" "tword n < 0x200000" using that by (simp_all only: word_le_nat_alt word_less_nat_alt) simp_all
    then show ?thesis using assms by blast
  qed
  then have "\<forall>j < 262144. ?pm (tword j) = pm0 (tword j)" using setup_page_pm0 by blast
  note same = same_walk [OF this]
  have p: "pmem (paging_on s) = ?pm" "cr3 (paging_on s) = 0x100000" by (simp_all add: paging_on_def PAGE_DIR_TABLE_POS_def)
  show tr: "translate (paging_on s) v = walk pm0 0x100000 v" for v by (simp add: translate_def p same)
  have "boot_tables (mems0 undefined)" by (rule boot_tables0)
  then show "boot_tables (paging_on s)"
    by (simp add: boot_tables_def p tr tables_ok_def self_mapped_top same mapped_def) (simp add: translate_def)
  show "v < 0x100000 \<Longrightarrow> pmem (paging_on s) v = pmem s v" unfolding p by (rule setup_page_low) (simp add: word_less_nat_alt)
qed

section \<open>Properties of the page tables\<close>

text \<open>
  C14: When the memory behind the directory up to 2 MB is zero, \<open>setup_page\<close> builds the tables that the kernel
  relies on: the first megabyte is mapped to itself and at 0xc0000000, all tables of the kernel part exist, the
  last entry of the directory maps the tables themselves, and nothing else is mapped. Memory below
  1 MB, with the size of the memory at 0xb00, stays as it is.
\<close>

theorem setup_page_boot_tables:
  assumes "\<forall>a. 0x101400 \<le> a \<and> a < 0x200000 \<longrightarrow> pmem s a = 0"
  shows "boot_tables (paging_on s) \<and>
    (\<forall>v. v < 0x100000 \<longrightarrow> translate (paging_on s) v = Some v \<and> translate (paging_on s) (0xc0000000 + v) = Some v) \<and>
    (\<forall>v. 0x100000 \<le> v \<and> v < 0xc0000000 \<longrightarrow> translate (paging_on s) v = None) \<and>
    (\<forall>v. v < 0x100000 \<longrightarrow> vload32 v (paging_on s) = Inr (pmem s v))"
proof -
  note t = paging_on_tables [OF assms]
  have "translate (paging_on s) v = Some v" "translate (paging_on s) (0xc0000000 + v) = Some v" if "v < 0x100000" for v
    using walk_first_mb [of v] that by (simp_all add: t(1) word_less_nat_alt)
  moreover have "translate (paging_on s) v = None" if "0x100000 \<le> v" "v < 0xc0000000" for v
    using walk_rest [of v] that by (simp add: t(1) word_less_nat_alt word_le_nat_alt)
  ultimately show ?thesis using t(2,3) by (simp add: vload32_def)
qed

theorem setup_page_boot_tables_witness:
  "let s = paging_on ((mems0 nodes_ready)\<lparr>pmem := (\<lambda>_. 0)(0xb00 := 0x2000000)\<rparr>)
   in boot_tables s \<and> vload32 0xb00 s = Inr 0x2000000 \<and> translate s 0xc00b8000 = Some 0xb8000 \<and> translate s 0x8048000 = None"
proof -
  let ?s = "(mems0 nodes_ready)\<lparr>pmem := (\<lambda>_. 0)(0xb00 := 0x2000000)\<rparr>"
  have "\<forall>a. 0x101400 \<le> a \<and> a < 0x200000 \<longrightarrow> pmem ?s a = 0" by (auto simp: word_le_nat_alt)
  note t = setup_page_boot_tables [OF this]
  have l: "(0xb8000 :: u32) < 0x100000" "(0xb00 :: u32) < 0x100000" "(0x100000 :: u32) \<le> 0x8048000" "(0x8048000 :: u32) < 0xc0000000" by simp_all
  have "translate (paging_on ?s) (0xc0000000 + 0xb8000) = Some 0xb8000" "vload32 0xb00 (paging_on ?s) = Inr (pmem ?s 0xb00)"
    "translate (paging_on ?s) 0x8048000 = None" "boot_tables (paging_on ?s)"
    using t l by blast+
  then show ?thesis by simp
qed

text \<open>What \<open>main\<close> needs of the loader.\<close>

lemma loader_boot_state:
  assumes "\<forall>a. 0x101400 \<le> a \<and> a < 0x200000 \<longrightarrow> pmem s a = 0" "pmem s 0xb00 = M" "running_thread s = 0xc009e000"
    "length (idt s) = IDT_DESC_CNT" "length (idt_table s) = IDT_DESC_CNT" "length (buffer (ioqs s kbd_buf)) = 64"
  shows "boot_state M (paging_on s)"
proof -
  note t = paging_on_tables [OF assms(1)]
  have "running_thread (paging_on s) = 0xc009e000" using assms(3) by (simp add: paging_on_def running_thread_def)
  moreover have "translate (paging_on s) 0xc009e000 \<noteq> None" using walk_pcb by (simp add: t(1))
  moreover have "vload32 0xb00 (paging_on s) = Inr M" using walk_b00 t(3) [of "0xb00"] assms(2) by (simp add: vload32_def t(1))
  ultimately show ?thesis using t(2) assms(4-6) by (simp add: boot_state_def paging_on_def)
qed

end
