(* ===== verification/Port_Words.thy ===== *)
theory Port_Words
  imports Cstring
begin

text \<open>
  lib/kernel/io.h, the string instructions: \<open>outsw\<close> writes words of memory to a port and \<open>insw\<close> reads words of
  a port into memory. The words written to the ports are a trace and the words that a port delivers a sequence, of
  which \<open>reads\<close> counts the ones already taken. The kernel does not call the two functions yet.
\<close>

section \<open>State\<close>

record wports = bytemem +
  word_out :: "(u16 \<times> u16) list"
  word_in :: "u16 \<Rightarrow> nat \<Rightarrow> u16"
  reads :: "u16 \<Rightarrow> nat"

definition load16 :: "(addr \<Rightarrow> u8) \<Rightarrow> addr \<Rightarrow> u16" where
  "load16 m a = ucast (m a) OR push_bit 8 (ucast (m (a + 1)))"

definition store16 :: "addr \<Rightarrow> u16 \<Rightarrow> (addr \<Rightarrow> u8) \<Rightarrow> (addr \<Rightarrow> u8)" where
  "store16 a w m = m(a := ucast w, a + 1 := ucast (drop_bit 8 w))"

section \<open>Operations\<close>

text \<open>\<open>cld\<close> clears the direction flag, so that the address grows.\<close>

definition EFLAGS_DF :: u32 where "EFLAGS_DF = 0x400"

definition cld :: "'a machine_scheme \<Rightarrow> 'a machine_scheme" where
  "cld s = s\<lparr>eflags := eflags s AND NOT EFLAGS_DF\<rparr>"

fun rep_outsw :: "nat \<Rightarrow> u16 \<Rightarrow> addr \<Rightarrow> 'a wports_scheme \<Rightarrow> 'a wports_scheme" where
  "rep_outsw 0 port a s = s"
| "rep_outsw (Suc n) port a s = rep_outsw n port (a + 2) (s\<lparr>word_out := word_out s @ [(port, load16 (mem s) a)]\<rparr>)"

definition outsw :: "u16 \<Rightarrow> addr \<Rightarrow> u32 \<Rightarrow> 'a wports_scheme \<Rightarrow> 'a wports_scheme" where
  "outsw port addr word_cnt s = rep_outsw (unat word_cnt) port addr (cld s)"

fun rep_insw :: "nat \<Rightarrow> u16 \<Rightarrow> addr \<Rightarrow> 'a wports_scheme \<Rightarrow> 'a wports_scheme" where
  "rep_insw 0 port a s = s"
| "rep_insw (Suc n) port a s =
     rep_insw n port (a + 2) (s\<lparr>mem := store16 a (word_in s port (reads s port)) (mem s), reads := (reads s)(port := reads s port + 1)\<rparr>)"

definition insw :: "u16 \<Rightarrow> addr \<Rightarrow> u32 \<Rightarrow> 'a wports_scheme \<Rightarrow> 'a wports_scheme" where
  "insw port addr word_cnt s = rep_insw (unat word_cnt) port addr (cld s)"

section \<open>Words in memory\<close>

lemma load16_bytes: "ucast (load16 m a) = m a" "ucast (drop_bit 8 (load16 m a)) = m (a + 1)"
  by (rule bit_word_eqI, auto simp: load16_def bit_simps dest: bit_imp_le_length)+

lemma words_of_memory:
  "rep_outsw n port a s = s\<lparr>word_out := word_out s @ map (\<lambda>i. (port, load16 (mem s) (a + 2 * of_nat i))) [0..<n]\<rparr>"
proof (induction n port a s rule: rep_outsw.induct)
  case (2 n port a s)
  have "map f [0..<Suc n] = f 0 # map (\<lambda>i. f (Suc i)) [0..<n]" for f :: "nat \<Rightarrow> u16 \<times> u16"
    by (simp only: map_upt_Suc)
  with 2 show ?case by (simp add: algebra_simps del: upt_Suc)
qed simp

lemma insw_run:
  "2 * n \<le> 2 ^ 32 \<Longrightarrow> \<exists>m. rep_insw n port a s = s\<lparr>mem := m, reads := (reads s)(port := reads s port + n)\<rparr> \<and>
     (\<forall>i < n. m (a + 2 * of_nat i) = ucast (word_in s port (reads s port + i)) \<and>
              m (a + 2 * of_nat i + 1) = ucast (drop_bit 8 (word_in s port (reads s port + i)))) \<and>
     (\<forall>b. 2 * n \<le> unat (b - a) \<longrightarrow> m b = mem s b)"
proof (induction n arbitrary: a s)
  case 0 then show ?case by (intro exI [of _ "mem s"]) simp
next
  case (Suc n)
  let ?w = "\<lambda>i. word_in s port (reads s port + i)"
  let ?t = "s\<lparr>mem := store16 a (?w 0) (mem s), reads := (reads s)(port := reads s port + 1)\<rparr>"
  have lim: "2 * n + 2 \<le> 2 ^ 32" using Suc.prems by simp
  then have "2 * n \<le> 2 ^ 32" by simp
  from Suc.IH [OF this, of "a + 2" ?t] obtain m where m: "rep_insw n port (a + 2) ?t = ?t\<lparr>mem := m, reads := (reads ?t)(port := reads ?t port + n)\<rparr>"
    "\<forall>i < n. m (a + 2 + 2 * of_nat i) = ucast (word_in ?t port (reads ?t port + i)) \<and>
       m (a + 2 + 2 * of_nat i + 1) = ucast (drop_bit 8 (word_in ?t port (reads ?t port + i)))"
    "\<forall>b. 2 * n \<le> unat (b - (a + 2)) \<longrightarrow> m b = mem ?t b"
    by (elim exE conjE) (rule that)
  have before: "unat (a - (a + 2)) = 2 ^ 32 - 2" "unat (a + 1 - (a + 2)) = 2 ^ 32 - 1" by (simp_all add: unsigned_minus_1_eq_mask mask_eq_exp_minus_1)
  have "m a = ucast (?w 0)" "m (a + 1) = ucast (drop_bit 8 (?w 0))"
    using m(3) [rule_format, of a] m(3) [rule_format, of "a + 1"] lim unfolding before by (simp_all add: store16_def)
  then have "m (a + 2 * of_nat i) = ucast (?w i) \<and> m (a + 2 * of_nat i + 1) = ucast (drop_bit 8 (?w i))" if "i < Suc n" for i
    using m(2) that by (cases i) (auto simp: algebra_simps)
  moreover have "m b = mem s b" if "2 * Suc n \<le> unat (b - a)" for b
  proof -
    have "unat (b - a - 2) = unat (b - a) - 2" using that unat_sub [of 2 "b - a"] by (simp add: word_le_nat_alt)
    then have "unat (b - (a + 2)) = unat (b - a) - 2" by (simp add: diff_diff_eq)
    moreover have "b \<noteq> a" "b \<noteq> a + 1" using that by auto
    ultimately show ?thesis using m(3) that by (simp add: store16_def)
  qed
  moreover have "rep_insw (Suc n) port a s = s\<lparr>mem := m, reads := (reads s)(port := reads s port + Suc n)\<rparr>"
    using m(1) by (simp add: fun_upd_def cong: if_cong)
  ultimately show ?case by (intro exI [of _ m]) blast
qed

section \<open>Properties\<close>

text \<open>
  \<open>outsw\<close> writes the words of memory to the port in the order of their addresses, and when the port
  delivers them again \<open>insw\<close> leaves at its address a copy of the bytes that were sent. No other byte changes and
  both leave the direction flag clear.
\<close>

theorem words_round_trip:
  assumes "2 * unat cnt \<le> 2 ^ 32" "\<forall>i < unat cnt. word_in s port (reads s port + i) = snd (drop (length (word_out s)) (word_out (outsw port src cnt s)) ! i)"
  shows "\<exists>m. insw port dst cnt (outsw port src cnt s) =
      s\<lparr>eflags := eflags s AND NOT EFLAGS_DF, mem := m, word_out := word_out (outsw port src cnt s),
        reads := (reads s)(port := reads s port + unat cnt)\<rparr> \<and>
    length (word_out (outsw port src cnt s)) = length (word_out s) + unat cnt \<and>
    (\<forall>k < 2 * unat cnt. m (dst + of_nat k) = mem s (src + of_nat k)) \<and>
    (\<forall>b. 2 * unat cnt \<le> unat (b - dst) \<longrightarrow> m b = mem s b)"
proof -
  let ?n = "unat cnt" and ?o = "outsw port src cnt s"
  let ?ws = "map (\<lambda>i. (port, load16 (mem s) (src + 2 * of_nat i))) [0..<unat cnt]"
  have o_eq: "?o = s\<lparr>eflags := eflags s AND NOT EFLAGS_DF, word_out := word_out s @ ?ws\<rparr>"
    by (simp add: outsw_def words_of_memory cld_def)
  have w: "word_in s port (reads s port + i) = load16 (mem s) (src + 2 * of_nat i)" if "i < ?n" for i
    using assms(2) that by (simp add: o_eq)
  obtain m where m: "rep_insw ?n port dst (cld ?o) = (cld ?o)\<lparr>mem := m, reads := (reads (cld ?o))(port := reads (cld ?o) port + ?n)\<rparr>"
    "\<forall>i < ?n. m (dst + 2 * of_nat i) = ucast (word_in (cld ?o) port (reads (cld ?o) port + i)) \<and>
       m (dst + 2 * of_nat i + 1) = ucast (drop_bit 8 (word_in (cld ?o) port (reads (cld ?o) port + i)))"
    "\<forall>b. 2 * ?n \<le> unat (b - dst) \<longrightarrow> m b = mem (cld ?o) b"
    using insw_run [OF assms(1), of port dst "cld ?o"] by (elim exE conjE) (rule that)
  have c: "word_in (cld ?o) = word_in s" "reads (cld ?o) = reads s" "mem (cld ?o) = mem s" by (simp_all add: cld_def o_eq)
  have "m (dst + of_nat k) = mem s (src + of_nat k)" if "k < 2 * ?n" for k
  proof -
    have i: "k div 2 < ?n" using that by auto
    have k: "k = 2 * (k div 2) \<or> k = 2 * (k div 2) + 1" by auto
    have "m (dst + 2 * of_nat (k div 2)) = mem s (src + 2 * of_nat (k div 2))" "m (dst + 2 * of_nat (k div 2) + 1) = mem s (src + 2 * of_nat (k div 2) + 1)"
      using m(2) i w [OF i] by (simp_all add: load16_bytes c)
    moreover have "of_nat k = (2 * of_nat (k div 2) :: u32) \<or> of_nat k = (2 * of_nat (k div 2) + 1 :: u32)" using k by (metis of_nat_1 of_nat_add of_nat_mult of_nat_numeral)
    ultimately show ?thesis by (auto simp: add.assoc)
  qed
  moreover have "insw port dst cnt ?o = s\<lparr>eflags := eflags s AND NOT EFLAGS_DF, mem := m, word_out := word_out ?o,
      reads := (reads s)(port := reads s port + ?n)\<rparr>"
    using m(1) by (simp add: insw_def cld_def o_eq)
  moreover have "length (word_out ?o) = length (word_out s) + ?n" by (simp add: o_eq)
  ultimately show ?thesis using m(3) unfolding c by blast
qed

text \<open>A disk port that echoes two words.\<close>

definition wports0 :: wports where
  "wports0 = bytemem.extend (bytemem0 (\<lambda>a. if a < 0x1004 then ucast a else 0)) (wports.fields [] (\<lambda>_ i. if i = 0 then 0x0100 else 0x0302) (\<lambda>_. 0))"

theorem words_round_trip_witness:
  "word_out (outsw 0x1f0 0x1000 2 wports0) = [(0x1f0, 0x0100), (0x1f0, 0x0302)] \<and>
   (\<forall>k < 4. mem (insw 0x1f0 0x2000 2 (outsw 0x1f0 0x1000 2 wports0)) (0x2000 + of_nat k) = of_nat k)"
proof -
  have w0: "word_out wports0 = []" "word_in wports0 = (\<lambda>_ i. if i = 0 then 0x0100 else 0x0302)" "reads wports0 = (\<lambda>_. 0)"
    "mem wports0 = (\<lambda>a. if a < 0x1004 then ucast a else 0)"
    by (simp_all add: wports0_def bytemem.extend_def wports.fields_def bytemem0_def machine.extend_def bytemem.fields_def)
  have out: "word_out (outsw 0x1f0 0x1000 2 wports0) = [(0x1f0, 0x0100), (0x1f0, 0x0302)]"
    by (simp add: outsw_def words_of_memory cld_def w0 load16_def upt_rec)
  then have "\<forall>i < unat (2 :: u32). word_in wports0 0x1f0 (reads wports0 0x1f0 + i) =
      snd (drop (length (word_out wports0)) (word_out (outsw 0x1f0 0x1000 2 wports0)) ! i)"
    by (auto simp: w0 less_2_cases_iff)
  from words_round_trip [OF _ this, of "0x2000"] obtain m where
    "mem (insw 0x1f0 0x2000 2 (outsw 0x1f0 0x1000 2 wports0)) = m" "\<forall>k < 4. m (0x2000 + of_nat k) = mem wports0 (0x1000 + of_nat k)"
    by auto
  moreover have "mem wports0 (0x1000 + of_nat k) = of_nat k" if "k < 4" for k
  proof -
    have "k = 0 \<or> k = 1 \<or> k = 2 \<or> k = 3" using that by linarith
    then show ?thesis by (auto simp: w0)
  qed
  ultimately show ?thesis using out by simp
qed

end
