(* ===== verification/Loader.thy ===== *)
theory Loader
  imports Boot_Paging Port_Words
begin

text \<open>
  boot/loader.S and boot/mbr.S, the loading of the kernel: the size of the memory from what the BIOS reports,
  the reading of sectors and \<open>kernel_init\<close>, which copies the segments of the image. The answers of the BIOS and the bytes
  of the status port are arguments. The memory is seen through the page tables; the low alias of the
  kernel addresses is not used. The switch to protected mode itself is not modelled.
\<close>

section \<open>The size of the memory\<close>

text \<open>
  The answers of the BIOS to \<open>int 0x15\<close>, \<open>None\<close> where it sets the carry flag: the areas of function 0xe820, of
  which there is at least one, by the low halves of base and length; \<open>ax\<close> and \<open>bx\<close> of 0xe801; \<open>ax\<close> of 0x88.
\<close>

record bios =
  e820 :: "((u32 \<times> u32) \<times> (u32 \<times> u32) list) option"
  e801 :: "(u16 \<times> u16) option"
  ext88 :: "u16 option"

text \<open>The comparison \<open>jge\<close> is signed.\<close>

fun find_max_mem_area :: "(u32 \<times> u32) list \<Rightarrow> u32 \<Rightarrow> u32" where
  "find_max_mem_area [] dx = dx"
| "find_max_mem_area ((base, len) # areas) dx =
     (let ax = base + len in find_max_mem_area areas (if ax \<le>s dx then dx else ax))"

definition e801_size :: "u16 \<Rightarrow> u16 \<Rightarrow> u32" where
  "e801_size ax bx =
     (let product = ucast ax * 0x400 :: u32;
          dx = push_bit 16 (drop_bit 16 product);
          dx = dx + 0x100000
      in dx + ucast bx * 0x10000)"

text \<open>Here the register edx still holds what the failed calls left there.\<close>

definition ext88_size :: "u32 \<Rightarrow> u16 \<Rightarrow> u32" where
  "ext88_size dx ax = (push_bit 16 dx OR ucast ax) + 0x100000"

definition total_mem_bytes :: "bios \<Rightarrow> u32 \<Rightarrow> err + u32" where
  "total_mem_bytes b dx =
     (case e820 b of
        Some (area, areas) \<Rightarrow> Inr (find_max_mem_area (area # areas) 0)
      | None \<Rightarrow>
          (case e801 b of
             Some (ax, bx) \<Rightarrow> Inr (e801_size ax bx)
           | None \<Rightarrow>
               (case ext88 b of
                  Some ax \<Rightarrow> Inr (ext88_size dx ax)
                | None \<Rightarrow> Inl Hang)))"

lemma find_max_small:
  assumes "\<forall>(base, len) \<in> set areas. unat base + unat len < 2 ^ 31" "unat dx < 2 ^ 31"
  shows "unat (find_max_mem_area areas dx) = Max (insert (unat dx) ((\<lambda>(base, len). unat base + unat len) ` set areas))"
  using assms
proof (induction areas arbitrary: dx)
  case (Cons a areas)
  obtain base len where a: "a = (base, len)" by fastforce
  let ?ax = "base + len"
  have u: "unat ?ax = unat base + unat len" "unat ?ax < 2 ^ 31" using Cons.prems(1) by (simp_all add: a unat_add_u32)
  have cmp: "?ax \<le>s dx \<longleftrightarrow> unat ?ax \<le> unat dx"
    using sint_u32_small [of ?ax] sint_u32_small [of dx] u(2) Cons.prems(2)
    by (simp add: word_sle_eq) (simp add: word_le_nat_alt flip: word_le_def)
  define e where "e = (if ?ax \<le>s dx then dx else ?ax)"
  have e: "unat e = max (unat dx) (unat ?ax)" "unat e < 2 ^ 31" using cmp u(2) Cons.prems(2) by (auto simp: e_def)
  let ?E = "(\<lambda>(base, len). unat base + unat len) ` set areas"
  have "unat (find_max_mem_area areas e) = Max (insert (unat e) ?E)" using Cons.IH [OF _ e(2)] Cons.prems(1) by simp
  also have "\<dots> = Max (insert (unat dx) (insert (unat ?ax) ?E))" unfolding e(1) by (cases "?E = {}") (simp_all add: max.assoc)
  finally show ?case by (simp add: a u(1) e_def [symmetric] Let_def)
qed simp

text \<open>
  When the BIOS reports the areas of the memory and all end below 2 GB, the loader takes the largest end of an area
  as the size of the memory; when all three functions fail it stops.
\<close>

theorem memory_size_detected:
  assumes "\<forall>areas. e820 b = Some areas \<longrightarrow> (\<forall>(base, len) \<in> set (fst areas # snd areas). unat base + unat len < 2 ^ 31)"
  shows "(\<forall>areas. e820 b = Some areas \<longrightarrow> (\<exists>M. total_mem_bytes b dx = Inr M \<and>
      unat M = Max ((\<lambda>(base, len). unat base + unat len) ` set (fst areas # snd areas)))) \<and>
    (e820 b = None \<and> e801 b = None \<and> ext88 b = None \<longrightarrow> total_mem_bytes b dx = Inl Hang)"
proof -
  have "\<exists>M. total_mem_bytes b dx = Inr M \<and> unat M = Max ((\<lambda>(base, len). unat base + unat len) ` set (fst areas # snd areas))"
    if "e820 b = Some areas" for areas
  proof -
    obtain x xs where areas: "areas = (x, xs)" by fastforce
    let ?E = "(\<lambda>(base, len). unat base + unat len) ` set (x # xs)"
    have "unat (find_max_mem_area (x # xs) 0) = Max (insert 0 ?E)" using find_max_small [of "x # xs" 0] assms that areas by auto
    also have "\<dots> = Max ?E" by (subst Max_insert) simp_all
    finally show ?thesis using that by (simp add: areas total_mem_bytes_def)
  qed
  then show ?thesis by (simp add: total_mem_bytes_def)
qed

theorem memory_size_detected_witness:
  "total_mem_bytes \<lparr>e820 = Some ((0, 0x9fc00), [(0x100000, 0x1f00000)]), e801 = None, ext88 = None\<rparr> 0 = Inr 0x2000000"
proof -
  let ?b = "\<lparr>e820 = Some ((0, 0x9fc00), [(0x100000, 0x1f00000)]), e801 = None, ext88 = None\<rparr>"
  have "\<forall>areas. e820 ?b = Some areas \<longrightarrow> (\<forall>(base, len) \<in> set (fst areas # snd areas). unat base + unat len < 2 ^ 31)" by auto
  from memory_size_detected [OF this, of 0] obtain M where "total_mem_bytes ?b 0 = Inr M" "unat M = 0x2000000" by auto
  then show ?thesis by (metis unat_of_nat_self of_nat_numeral)
qed

text \<open>The answer of function 0xe801 counts kilobytes; the low 16 bits of the product are lost.\<close>

lemma e801_loses_low_bits: "e801_size 1 0 = 0x100000"
  by (simp add: e801_size_def)

text \<open>The answer of function 0x88 counts kilobytes too, but is added as bytes.\<close>

lemma ext88_adds_kilobytes: "ext88_size 0 ax = ucast ax + 0x100000"
  by (simp add: ext88_size_def)


section \<open>Reading sectors\<close>

text \<open>
  The port 0x1f7 delivers the bytes \<open>st 0\<close>, \<open>st 1\<close> and so on; the loop returns the index of the one that ends it.
\<close>

partial_function (option) not_ready :: "(nat \<Rightarrow> u8) \<Rightarrow> nat \<Rightarrow> nat option" where
  "not_ready st k = (if st k AND 0x88 = 0x08 then Some k else not_ready st (k + 1))"

text \<open>The commands for the sector \<open>ax\<close> and the number of sectors in the low byte of \<open>cx\<close>.\<close>

definition rd_disk_command :: "u32 \<Rightarrow> u32 \<Rightarrow> 'a machine_scheme \<Rightarrow> 'a machine_scheme" where
  "rd_disk_command ax cx s =
     (let s = outb 0x1f2 (ucast cx) s;
          s = outb 0x1f3 (ucast ax) s;
          ax = drop_bit 8 ax; s = outb 0x1f4 (ucast ax) s;
          ax = drop_bit 8 ax; s = outb 0x1f5 (ucast ax) s;
          ax = drop_bit 8 ax; s = outb 0x1f6 (ucast ax AND 0x0f OR 0xe0) s
      in outb 0x1f7 0x20 s)"

text \<open>
  In the loader \<open>loop\<close> counts in the whole of ecx, of which only the low half is set. The instruction takes a
  count of 0 as \<open>2 ^ 32\<close>.
\<close>

definition rd_disk_m_32 :: "u32 \<Rightarrow> addr \<Rightarrow> u32 \<Rightarrow> (nat \<Rightarrow> u8) \<Rightarrow> 'a wports_scheme \<Rightarrow> 'a wports_scheme option" where
  "rd_disk_m_32 ax bx cx st s =
     (let s = rd_disk_command ax cx s
      in case not_ready st 0 of
           None \<Rightarrow> None
         | Some _ \<Rightarrow>
             let words = (ucast cx :: u16) * 0x100;
                 cx = cx AND 0xffff0000 OR ucast words
             in Some (rep_insw (if cx = 0 then 2 ^ 32 else unat cx) 0x1f0 bx s))"

text \<open>The copy in the boot sector counts in cx and addresses the memory by bx, which is 16 bits wide.\<close>

fun go_on_read_16 :: "nat \<Rightarrow> u16 \<Rightarrow> 'a wports_scheme \<Rightarrow> 'a wports_scheme" where
  "go_on_read_16 0 bx s = s"
| "go_on_read_16 (Suc n) bx s =
     go_on_read_16 n (bx + 2) (s\<lparr>mem := store16 (ucast bx) (word_in s 0x1f0 (reads s 0x1f0)) (mem s),
       reads := (reads s)(0x1f0 := reads s 0x1f0 + 1)\<rparr>)"

definition rd_disk_m_16 :: "u32 \<Rightarrow> u16 \<Rightarrow> u16 \<Rightarrow> (nat \<Rightarrow> u8) \<Rightarrow> 'a wports_scheme \<Rightarrow> 'a wports_scheme option" where
  "rd_disk_m_16 ax bx cx st s =
     (let s = rd_disk_command ax (ucast cx) s
      in case not_ready st 0 of
           None \<Rightarrow> None
         | Some _ \<Rightarrow>
             let words = cx * 256
             in Some (go_on_read_16 (if words = 0 then 2 ^ 16 else unat words) bx s))"

definition mbr_load :: "(nat \<Rightarrow> u8) \<Rightarrow> 'a wports_scheme \<Rightarrow> 'a wports_scheme option" where
  "mbr_load st s = rd_disk_m_16 LOADER_START_SECTOR (ucast LOADER_BASE_ADDR) 4 st s"

definition load_kernel :: "u32 \<Rightarrow> (nat \<Rightarrow> u8) \<Rightarrow> 'a wports_scheme \<Rightarrow> 'a wports_scheme option" where
  "load_kernel cx st s = rd_disk_m_32 KERNEL_START_SECTOR KERNEL_BIN_BASE_ADDR (cx AND 0xffff0000 OR 200) st s"

lemma not_ready_ends:
  assumes "st k AND 0x88 = 0x08" "j \<le> k"
  shows "not_ready st j \<noteq> None"
  using assms(2)
proof (induction "k - j" arbitrary: j)
  case 0
  then show ?case using assms(1) by (subst not_ready.simps) simp
next
  case (Suc n)
  then have "not_ready st (j + 1) \<noteq> None" by (intro Suc.hyps(1)) simp_all
  then show ?case by (subst not_ready.simps) simp
qed

lemma rd_disk_command_eq:
  "rd_disk_command ax cx s = s\<lparr>port_out := port_out s @ [(0x1f2, ucast cx), (0x1f3, ucast ax), (0x1f4, ucast (drop_bit 8 ax)),
     (0x1f5, ucast (drop_bit 16 ax)), (0x1f6, ucast (drop_bit 24 ax) AND 0x0f OR 0xe0), (0x1f7, 0x20)]\<rparr>"
  by (simp add: rd_disk_command_def Let_def outb_def)

lemma load16_of_bytes: "m a = ucast w \<Longrightarrow> m (a + 1) = ucast (drop_bit 8 w) \<Longrightarrow> load16 m a = w"
  by (rule bit_word_eqI) (auto simp: load16_def bit_simps)

lemma same_reads_16:
  assumes "unat bx + 2 * n \<le> 65536"
  shows "go_on_read_16 n bx s = rep_insw n 0x1f0 (ucast bx) s"
  using assms
proof (induction n arbitrary: bx s)
  case (Suc n)
  show ?case
  proof (cases n)
    case (Suc m)
    have ux: "unat (ucast x :: u32) = unat x" for x :: u16
    proof -
      have "unat x < 2 ^ 16" using unsigned_less [of x, where ?'a = nat] by simp
      then show ?thesis by (simp add: unsigned_ucast_eq take_bit_nat_eq_self)
    qed
    have "unat (bx + 2) = unat bx + 2" using Suc.prems Suc by (simp add: unat_word_ariths)
    moreover from this have "ucast (bx + 2) = (ucast bx + 2 :: u32)"
      using Suc.prems Suc by (intro word_unat_eq_iff [THEN iffD2]) (simp add: unat_add_u32 ux)
    ultimately show ?thesis using Suc.IH [of "bx + 2"] Suc.prems by simp
  qed simp
qed simp

text \<open>
  C23: When the disk becomes ready at some time, the loader's read of \<open>n < 256\<close> sectors ends: it has sent the count, the 28 bits of
  the sector number and the read command to the ports of the disk, and the words that the disk delivers are in
  memory from the given address on; no other byte of the memory has changed. The upper half of ecx must be zero.
\<close>

theorem sectors_are_read:
  assumes "st k AND 0x88 = 0x08" "0 < n" "n < 256"
  shows "\<exists>m s'. rd_disk_m_32 sector bx (of_nat n) st s = Some s' \<and>
    s' = s\<lparr>port_out := port_out s @ [(0x1f2, of_nat n), (0x1f3, ucast sector), (0x1f4, ucast (drop_bit 8 sector)),
        (0x1f5, ucast (drop_bit 16 sector)), (0x1f6, ucast (drop_bit 24 sector) AND 0x0f OR 0xe0), (0x1f7, 0x20)],
      mem := m, reads := (reads s)(0x1f0 := reads s 0x1f0 + 256 * n)\<rparr> \<and>
    (\<forall>i < 256 * n. load16 m (bx + 2 * of_nat i) = word_in s 0x1f0 (reads s 0x1f0 + i)) \<and>
    (\<forall>a. 512 * n \<le> unat (a - bx) \<longrightarrow> m a = mem s a)"
proof -
  let ?s = "rd_disk_command sector (of_nat n) s"
  obtain j where j: "not_ready st 0 = Some j" using not_ready_ends [of st k 0, OF assms(1)] by auto
  have n: "unat (of_nat n :: u32) = n" using assms(3) by (intro unat_of_nat_u32) simp
  have hi: "of_nat n AND 0xffff0000 = (0 :: u32)"
  proof -
    have "take_bit 16 (of_nat n :: u32) = of_nat n" using n assms(3) by (intro word_unat_eq_iff [THEN iffD2]) (simp add: unsigned_take_bit_eq take_bit_nat_eq_self)
    then have "(of_nat n :: u32) = of_nat n AND mask 16" by (simp add: take_bit_eq_mask)
    moreover have "(0xffff0000 :: u32) = NOT (mask 16)" by (simp add: mask_eq_exp_minus_1)
    ultimately show ?thesis by (metis and.assoc bit.conj_cancel_right and_zero_eq)
  qed
  have w: "(ucast (of_nat k :: u32) :: u16) = of_nat k" "(ucast (of_nat k :: u32) :: u8) = of_nat k" "(ucast (of_nat k :: u16) :: u32) = of_nat k" if "k < 65536" for k
    using that by (intro word_unat_eq_iff [THEN iffD2], simp add: unsigned_of_nat unsigned_ucast_eq take_bit_nat_eq_self take_bit_take_bit)+
  have "(ucast (of_nat n :: u32) :: u16) * 0x100 = of_nat (256 * n)" using assms(3) by (simp add: w)
  then have count: "(of_nat n AND 0xffff0000 OR ucast ((ucast (of_nat n :: u32) :: u16) * 0x100) :: u32) = of_nat (256 * n)"
    using w(3) [of "256 * n"] assms(3) hi by (simp del: of_nat_mult)
  have "unat (of_nat (256 * n) :: u32) = 256 * n" using assms(3) by (intro unat_of_nat_u32) simp
  moreover from this have "(of_nat (256 * n) :: u32) \<noteq> 0" using assms(2) by (metis mult_eq_0_iff neq0_conv unat_0 zero_neq_numeral)
  ultimately have run: "rd_disk_m_32 sector bx (of_nat n) st s = Some (rep_insw (256 * n) 0x1f0 bx ?s)"
    using j unfolding rd_disk_m_32_def Let_def count by simp
  have "2 * (256 * n) \<le> 2 ^ 32" using assms(3) by simp
  from insw_run [OF this, of "0x1f0" bx ?s] obtain m where m:
    "rep_insw (256 * n) 0x1f0 bx ?s = ?s\<lparr>mem := m, reads := (reads ?s)(0x1f0 := reads ?s 0x1f0 + 256 * n)\<rparr>"
    "\<forall>i < 256 * n. m (bx + 2 * of_nat i) = ucast (word_in ?s 0x1f0 (reads ?s 0x1f0 + i)) \<and>
        m (bx + 2 * of_nat i + 1) = ucast (drop_bit 8 (word_in ?s 0x1f0 (reads ?s 0x1f0 + i)))"
    "\<forall>b. 2 * (256 * n) \<le> unat (b - bx) \<longrightarrow> m b = mem ?s b"
    by (elim exE conjE) (rule that)
  have same: "word_in ?s = word_in s" "reads ?s = reads s" "mem ?s = mem s" by (simp_all add: rd_disk_command_eq)
  have "load16 m (bx + 2 * of_nat i) = word_in s 0x1f0 (reads s 0x1f0 + i)" if "i < 256 * n" for i
    using m(2) that by (simp add: load16_of_bytes same)
  moreover have "m a = mem s a" if "512 * n \<le> unat (a - bx)" for a using m(3) that by (simp add: same)
  moreover have "(ucast (of_nat n :: u32) :: u8) = of_nat n" using assms(3) by (simp add: w)
  ultimately show ?thesis unfolding run using m(1) by (intro exI [of _ m]) (simp add: same rd_disk_command_eq)
qed

theorem sectors_are_read_witness:
  "\<exists>s'. rd_disk_m_32 9 0x70000 1 (\<lambda>k. if k < 2 then 0x80 else 0x58) wports0 = Some s' \<and>
     port_out s' = [(0x1f2, 1), (0x1f3, 9), (0x1f4, 0), (0x1f5, 0), (0x1f6, 0xe0), (0x1f7, 0x20)] \<and> load16 (mem s') 0x70002 = 0x0302"
proof -
  let ?st = "\<lambda>k :: nat. if k < 2 then 0x80 else 0x58 :: u8"
  have w0: "word_in wports0 = (\<lambda>_ i. if i = 0 then 0x0100 else 0x0302)" "reads wports0 = (\<lambda>_. 0)" "port_out wports0 = []"
    by (simp_all add: wports0_def bytemem.extend_def wports.fields_def bytemem0_def machine.extend_def bytemem.fields_def machine0_def)
  have "?st 2 AND 0x88 = 0x08" by simp
  from sectors_are_read [of ?st 2 1 9 "0x70000" wports0, OF this] obtain m s' where
    "rd_disk_m_32 9 0x70000 (of_nat 1) ?st wports0 = Some s'"
    and s': "s' = wports0\<lparr>port_out := port_out wports0 @ [(0x1f2, of_nat 1), (0x1f3, ucast (9 :: u32)), (0x1f4, ucast (drop_bit 8 (9 :: u32))),
        (0x1f5, ucast (drop_bit 16 (9 :: u32))), (0x1f6, ucast (drop_bit 24 (9 :: u32)) AND 0x0f OR 0xe0), (0x1f7, 0x20)],
      mem := m, reads := (reads wports0)(0x1f0 := reads wports0 0x1f0 + 256 * 1)\<rparr>"
    and m: "\<forall>i < 256 * 1. load16 m (0x70000 + 2 * of_nat i) = word_in wports0 0x1f0 (reads wports0 0x1f0 + i)"
    by auto
  moreover have "load16 m (0x70000 + 2 * of_nat 1) = 0x0302" using spec [OF m, of 1] by (simp add: w0)
  ultimately show ?thesis by (auto simp: w0 drop_bit_eq_div)
qed

text \<open>
  After function 0xe801 the upper half of ecx is 1, so that the loader reads 65536 words more than the 200 sectors have.
\<close>

lemma load_kernel_overruns:
  assumes "not_ready st 0 = Some j"
  shows "load_kernel 0x10000 st s = Some (rep_insw (65536 + 51200) 0x1f0 0x70000 (rd_disk_command 9 0x100c8 s))"
  using assms by (simp add: load_kernel_def rd_disk_m_32_def Let_def KERNEL_START_SECTOR_def KERNEL_BIN_BASE_ADDR_def)

text \<open>The boot sector reads the loader like the loader reads the kernel.\<close>

lemma mbr_load_eq:
  assumes "not_ready st 0 = Some j"
  shows "mbr_load st s = Some (rep_insw 1024 0x1f0 0x900 (rd_disk_command 2 4 s))"
  using assms same_reads_16 [of "0x900" 1024]
  by (simp add: mbr_load_def rd_disk_m_16_def Let_def LOADER_START_SECTOR_def LOADER_BASE_ADDR_def)

section \<open>Loading the kernel image\<close>

definition load32 :: "(addr \<Rightarrow> u8) \<Rightarrow> addr \<Rightarrow> u32" where
  "load32 m a = ucast (load16 m a) OR push_bit 16 (ucast (load16 m (a + 2)))"

text \<open>
  \<open>mem_cpy\<close> copies byte by byte upwards like the loop of \<open>memcpy\<close>. The stack of the loader, on which the arguments
  are passed, lies below the image and the segments and is not modelled.
\<close>

definition mem_cpy :: "addr \<Rightarrow> addr \<Rightarrow> u32 \<Rightarrow> (addr \<Rightarrow> u8) \<Rightarrow> (addr \<Rightarrow> u8)" where
  "mem_cpy dst src cnt m = memcpy_loop (unat cnt) dst src m"

fun each_segment :: "nat \<Rightarrow> addr \<Rightarrow> u32 \<Rightarrow> (addr \<Rightarrow> u8) \<Rightarrow> (addr \<Rightarrow> u8)" where
  "each_segment 0 bx dx m = m"
| "each_segment (Suc n) bx dx m =
     each_segment n (bx + dx) dx
       (if m bx = PT_NULL then m
        else mem_cpy (load32 m (bx + 8)) (load32 m (bx + 4) + KERNEL_BIN_BASE_ADDR) (load32 m (bx + 16)) m)"

definition kernel_init :: "(addr \<Rightarrow> u8) \<Rightarrow> (addr \<Rightarrow> u8)" where
  "kernel_init m =
     (let dx = ucast (load16 m (KERNEL_BIN_BASE_ADDR + 42));
          bx = load32 m (KERNEL_BIN_BASE_ADDR + 28) + KERNEL_BIN_BASE_ADDR;
          cx = load16 m (KERNEL_BIN_BASE_ADDR + 44)
      in each_segment (if cx = 0 then 2 ^ 32 else unat cx) bx dx m)"

text \<open>The part of a segment by its header at \<open>h\<close>.\<close>

definition seg_dst :: "(addr \<Rightarrow> u8) \<Rightarrow> addr \<Rightarrow> addr \<Rightarrow> bool" where
  "seg_dst m h a \<longleftrightarrow> m h \<noteq> PT_NULL \<and> unat (a - load32 m (h + 8)) < unat (load32 m (h + 16))"

definition seg_src :: "(addr \<Rightarrow> u8) \<Rightarrow> addr \<Rightarrow> addr \<Rightarrow> addr" where
  "seg_src m h a = load32 m (h + 4) + KERNEL_BIN_BASE_ADDR + (a - load32 m (h + 8))"

text \<open>
  \<open>image_ok m img h n size\<close>: the \<open>n\<close> headers from \<open>h\<close> on and the bytes of their segments lie in the image \<open>img\<close>, and the segments go
  to addresses outside it that do not overlap.
\<close>

definition image_ok :: "(addr \<Rightarrow> u8) \<Rightarrow> addr set \<Rightarrow> addr \<Rightarrow> nat \<Rightarrow> u32 \<Rightarrow> bool" where
  "image_ok m img h n sz \<longleftrightarrow>
     (\<forall>i < n. (\<forall>k < 20. h + of_nat i * sz + of_nat k \<in> img) \<and>
        (\<forall>a. seg_dst m (h + of_nat i * sz) a \<longrightarrow> a \<notin> img \<and> seg_src m (h + of_nat i * sz) a \<in> img \<and>
           (\<forall>j < n. j \<noteq> i \<longrightarrow> \<not> seg_dst m (h + of_nat j * sz) a)))"

lemma header_word:
  assumes "\<forall>k < 20. h + of_nat k \<in> img" "\<forall>a \<in> img. m a = m0 a" "k \<le> 16"
  shows "load32 m (h + of_nat k) = load32 m0 (h + of_nat k)"
proof -
  have "m (h + of_nat (k + j)) = m0 (h + of_nat (k + j))" if "j < 4" for j
  proof -
    have "k + j < 20" using assms(3) that by simp
    then have "h + of_nat (k + j) \<in> img" using assms(1) by blast
    then show ?thesis using assms(2) by blast
  qed
  from this [of 0] this [of 1] this [of 2] this [of 3] show ?thesis by (simp add: load32_def load16_def algebra_simps)
qed

lemma image_same:
  assumes "image_ok m0 img h n sz" "\<forall>a \<in> img. m a = m0 a" "i < n"
  shows "seg_dst m (h + of_nat i * sz) = seg_dst m0 (h + of_nat i * sz)" "seg_src m (h + of_nat i * sz) = seg_src m0 (h + of_nat i * sz)"
proof -
  let ?h = "h + of_nat i * sz"
  have k: "\<forall>k < 20. ?h + of_nat k \<in> img" using assms(1,3) by (simp add: image_ok_def)
  have "?h + of_nat 0 \<in> img" using k by (metis zero_less_numeral)
  then have "m ?h = m0 ?h" using assms(2) by simp
  moreover have "load32 m (?h + 4) = load32 m0 (?h + 4)" "load32 m (?h + 8) = load32 m0 (?h + 8)" "load32 m (?h + 16) = load32 m0 (?h + 16)"
    using header_word [OF k assms(2), of 4] header_word [OF k assms(2), of 8] header_word [OF k assms(2), of 16] by simp_all
  ultimately show "seg_dst m ?h = seg_dst m0 ?h" "seg_src m ?h = seg_src m0 ?h" by (simp_all add: seg_dst_def seg_src_def fun_eq_iff)
qed

lemma each_segment_run:
  assumes "image_ok m0 img h n sz" "\<forall>a \<in> img. m a = m0 a"
  shows "(\<forall>i < n. \<forall>a. seg_dst m0 (h + of_nat i * sz) a \<longrightarrow> each_segment n h sz m a = m0 (seg_src m0 (h + of_nat i * sz) a)) \<and>
    (\<forall>a. (\<forall>i < n. \<not> seg_dst m0 (h + of_nat i * sz) a) \<longrightarrow> each_segment n h sz m a = m a)"
  using assms
proof (induction n arbitrary: h m)
  case (Suc n)
  let ?m = "if m h = PT_NULL then m else mem_cpy (load32 m (h + 8)) (load32 m (h + 4) + KERNEL_BIN_BASE_ADDR) (load32 m (h + 16)) m"
  have i0: "seg_dst m0 h a \<Longrightarrow> a \<notin> img \<and> seg_src m0 h a \<in> img \<and> (\<forall>j < n. \<not> seg_dst m0 (h + of_nat (Suc j) * sz) a)" for a
  proof -
    assume a: "seg_dst m0 h a"
    have "\<forall>b. seg_dst m0 (h + of_nat 0 * sz) b \<longrightarrow> b \<notin> img \<and> seg_src m0 (h + of_nat 0 * sz) b \<in> img \<and>
        (\<forall>j < Suc n. j \<noteq> 0 \<longrightarrow> \<not> seg_dst m0 (h + of_nat j * sz) b)"
      using Suc.prems(1) unfolding image_ok_def by blast
    then have "a \<notin> img \<and> seg_src m0 h a \<in> img \<and> (\<forall>j < Suc n. j \<noteq> 0 \<longrightarrow> \<not> seg_dst m0 (h + of_nat j * sz) a)" using a by simp
    then show ?thesis by (metis Suc_less_eq nat.distinct(1))
  qed
  have same: "seg_dst m h = seg_dst m0 h" "seg_src m h = seg_src m0 h" using image_same [OF Suc.prems, of 0] by simp_all
  have copy: "?m a = (if seg_dst m0 h a then m0 (seg_src m0 h a) else m a)" for a
  proof (cases "m h = PT_NULL")
    case True
    then show ?thesis unfolding same(1) [symmetric] by (simp add: seg_dst_def)
  next
    case False
    let ?d = "load32 m (h + 8)" and ?c = "load32 m (h + 4) + KERNEL_BIN_BASE_ADDR" and ?n = "unat (load32 m (h + 16))"
    have in_dst: "seg_dst m h (?d + of_nat i)" "seg_src m h (?d + of_nat i) = ?c + of_nat i" if "i < ?n" for i
    proof -
      have "unat (of_nat i :: u32) = i" using that unat_less_2p32 [of "load32 m (h + 16)"] by (intro unat_of_nat_u32) simp
      then show "seg_dst m h (?d + of_nat i)" "seg_src m h (?d + of_nat i) = ?c + of_nat i" using that False by (simp_all add: seg_dst_def seg_src_def)
    qed
    have apart: "\<forall>i < ?n. \<forall>j < ?n. ?d + of_nat i \<noteq> ?c + of_nat j"
    proof (intro allI impI notI)
      fix i j assume "i < ?n" "j < ?n" "?d + of_nat i = ?c + of_nat j"
      then show False using in_dst [of i] in_dst [of j] i0 [of "?d + of_nat i"] i0 [of "?d + of_nat j"] unfolding same by metis
    qed
    have "?n \<le> 2 ^ 32" using unat_less_2p32 [of "load32 m (h + 16)"] by simp
    then have "?m a = (if unat (a - ?d) < ?n then m (?c + (a - ?d)) else m a)"
      using False memcpy_loop_apply [OF _ apart] by (simp add: mem_cpy_def)
    moreover have "seg_dst m0 h a \<longleftrightarrow> unat (a - ?d) < ?n" using False unfolding same(1) [symmetric] by (simp add: seg_dst_def)
    moreover have "seg_src m0 h a = ?c + (a - ?d)" unfolding same(2) [symmetric] by (simp add: seg_src_def)
    ultimately show ?thesis using i0 [of a] Suc.prems(2) by auto
  qed
  have next_h: "h + sz + of_nat i * sz = h + of_nat (Suc i) * sz" for i by (simp add: algebra_simps)
  have "image_ok m0 img (h + sz) n sz"
    unfolding image_ok_def next_h
  proof (intro allI impI)
    fix i assume "i < n"
    then have "Suc i < Suc n" by simp
    with Suc.prems(1) show "(\<forall>k < 20. h + of_nat (Suc i) * sz + of_nat k \<in> img) \<and> (\<forall>a. seg_dst m0 (h + of_nat (Suc i) * sz) a \<longrightarrow>
        a \<notin> img \<and> seg_src m0 (h + of_nat (Suc i) * sz) a \<in> img \<and> (\<forall>j < n. j \<noteq> i \<longrightarrow> \<not> seg_dst m0 (h + of_nat (Suc j) * sz) a))"
      unfolding image_ok_def by (metis Suc_less_eq nat.inject)
  qed
  moreover have "\<forall>a \<in> img. ?m a = m0 a" using copy i0 Suc.prems(2) by metis
  ultimately have IH: "\<And>i a. i < n \<Longrightarrow> seg_dst m0 (h + of_nat (Suc i) * sz) a \<Longrightarrow> each_segment n (h + sz) sz ?m a = m0 (seg_src m0 (h + of_nat (Suc i) * sz) a)"
    "\<And>a. (\<forall>i < n. \<not> seg_dst m0 (h + of_nat (Suc i) * sz) a) \<Longrightarrow> each_segment n (h + sz) sz ?m a = ?m a"
    using Suc.IH [of "h + sz" ?m] unfolding next_h by blast+
  have e: "each_segment (Suc n) h sz m = each_segment n (h + sz) sz ?m" by simp
  have "each_segment (Suc n) h sz m a = m0 (seg_src m0 (h + of_nat i * sz) a)" if "i < Suc n" "seg_dst m0 (h + of_nat i * sz) a" for i a
  proof (cases i)
    case 0
    then have "seg_dst m0 h a" using that(2) by simp
    then show ?thesis using IH(2) [of a] i0 [of a] copy [of a] 0 unfolding e by simp
  next
    case (Suc j)
    then show ?thesis using IH(1) [of j a] that unfolding e by simp
  qed
  moreover have "each_segment (Suc n) h sz m a = m a" if "\<forall>i < Suc n. \<not> seg_dst m0 (h + of_nat i * sz) a" for a
  proof -
    have "\<not> seg_dst m0 h a" using that by (auto dest: spec [of _ 0])
    moreover have "\<forall>i < n. \<not> seg_dst m0 (h + of_nat (Suc i) * sz) a" using that by (metis Suc_less_eq)
    ultimately show ?thesis using IH(2) [of a] copy [of a] unfolding e by simp
  qed
  ultimately show ?case by blast
qed simp

text \<open>
  C22: \<open>kernel_init\<close> on an image whose headers are inside it and whose segments go to places outside it that do not
  overlap puts every byte of every segment in use at its address, and changes no other byte of the memory.
\<close>

theorem kernel_init_loads:
  assumes "n = unat (load16 m (KERNEL_BIN_BASE_ADDR + 44))" "0 < n" "sz = ucast (load16 m (KERNEL_BIN_BASE_ADDR + 42))"
    "h = load32 m (KERNEL_BIN_BASE_ADDR + 28) + KERNEL_BIN_BASE_ADDR" "image_ok m img h n sz"
  shows "(\<forall>i < n. \<forall>a. seg_dst m (h + of_nat i * sz) a \<longrightarrow> kernel_init m a = m (seg_src m (h + of_nat i * sz) a)) \<and>
    (\<forall>a. (\<forall>i < n. \<not> seg_dst m (h + of_nat i * sz) a) \<longrightarrow> kernel_init m a = m a)"
proof -
  have "kernel_init m = each_segment n h sz m"
    using assms(1-4) by (auto simp: kernel_init_def Let_def unat_eq_0)
  then show ?thesis using each_segment_run [OF assms(5), of m] by simp
qed

text \<open>An image with one segment of four bytes for 0xc0001500, and a header that is not in use.\<close>

definition image0 :: "addr \<Rightarrow> u8" where
  "image0 = (\<lambda>_. 0)(0x7001c := 52, 0x7002a := 32, 0x7002c := 2, 0x70034 := 1, 0x70038 := 0x80, 0x7003c := 0, 0x7003d := 0x15, 0x7003f := 0xc0,
     0x70044 := 4, 0x70080 := 0x55, 0x70081 := 0x89, 0x70082 := 0xe5, 0x70083 := 0xeb)"

theorem kernel_init_loads_witness:
  "kernel_init image0 0xc0001500 = 0x55 \<and> kernel_init image0 0xc0001501 = 0x89 \<and> kernel_init image0 0xc0001502 = 0xe5 \<and>
   kernel_init image0 0xc0001503 = 0xeb"
proof -
  have v: "load32 image0 0x7001c = 52" "load16 image0 0x7002a = 32" "load16 image0 0x7002c = 2" "load32 image0 0x70038 = 0x80" "load32 image0 0x7003c = 0xc0001500"
    "load32 image0 0x70044 = 4" "image0 0x70034 = 1" "image0 0x70054 = 0"
    by (simp_all add: load32_def load16_def image0_def)
  let ?img = "{a :: addr. unat (a - 0x70000) < 0x1000}"
  have d: "seg_dst image0 0x70034 = (\<lambda>a. unat (a - 0xc0001500) < 4)" "seg_dst image0 0x70054 = (\<lambda>_. False)"
    by (simp_all add: fun_eq_iff seg_dst_def v PT_NULL_def)
  have s: "seg_src image0 0x70034 a = 0x70080 + (a - 0xc0001500)" for a by (simp add: seg_src_def v KERNEL_BIN_BASE_ADDR_def)
  have u: "unat (of_nat k :: u32) = k" if "k < 20" for k using that by (intro unat_of_nat_u32) simp
  have h: "0x70034 + of_nat k \<in> ?img" "0x70054 + of_nat k \<in> ?img" if "k < 20" for k
  proof -
    have "unat (52 + of_nat k :: u32) = 52 + k" "unat (84 + of_nat k :: u32) = 84 + k"
      unfolding unat_add_u32 using that u [OF that] by simp_all
    then show "0x70034 + of_nat k \<in> ?img" "0x70054 + of_nat k \<in> ?img" using that by simp_all
  qed
  have off: "a \<notin> ?img" "0x70080 + (a - 0xc0001500) \<in> ?img" if "unat (a - 0xc0001500) < 4" for a
  proof -
    let ?k = "a - 0xc0001500"
    have "a - 0x70000 = 0xbff91500 + ?k" "0x70080 + ?k - 0x70000 = 0x80 + ?k" by simp_all
    then have "unat (a - 0x70000) = 3220772096 + unat ?k" "unat (0x70080 + ?k - 0x70000) = 128 + unat ?k" using that by (simp_all only: unat_add_u32) simp_all
    then show "a \<notin> ?img" "0x70080 + (a - 0xc0001500) \<in> ?img" using that by simp_all
  qed
  have ok: "image_ok image0 ?img 0x70034 2 32"
    unfolding image_ok_def using h off by (auto simp: less_2_cases_iff d s)
  have "\<forall>i < 2. \<forall>a. seg_dst image0 (0x70034 + of_nat i * 32) a \<longrightarrow> kernel_init image0 a = image0 (seg_src image0 (0x70034 + of_nat i * 32) a)"
    using kernel_init_loads [of 2 image0 32 "0x70034" ?img] ok by (simp add: KERNEL_BIN_BASE_ADDR_def v)
  then have "kernel_init image0 a = image0 (0x70080 + (a - 0xc0001500))" if "unat (a - 0xc0001500) < 4" for a
    using that by (auto simp: d s dest: spec [of _ 0])
  from this [of "0xc0001500"] this [of "0xc0001501"] this [of "0xc0001502"] this [of "0xc0001503"] show ?thesis
    by (simp add: image0_def)
qed

end
