(* ===== verification/Address_Space.thy ===== *)
theory Address_Space
  imports Start
begin

text \<open>
  userprog/process.c, the part on page directories: the directory of a new process, which shares the kernel
  part of the address space, and the change of address space at a task switch. The file is not part of the
  build: its header process.h is missing, and the scheduler does not call \<open>process_activate\<close>.
\<close>

section \<open>Operations\<close>

text \<open>
  \<open>memcpy\<close> of \<open>n\<close> aligned words between mapped addresses; page directories are words of the physical
  memory.
\<close>

fun copy_words :: "nat \<Rightarrow> addr \<Rightarrow> addr \<Rightarrow> 'a paging_scheme \<Rightarrow> err + 'a paging_scheme" where
  "copy_words 0 dst src s = Inr s"
| "copy_words (Suc n) dst src s =
     bindE (vload32 src s) (\<lambda>x. bindE (vstore32 dst x s) (copy_words n (dst + 4) (src + 4)))"

definition memcpy_words :: "addr \<Rightarrow> addr \<Rightarrow> nat \<Rightarrow> 'a paging_scheme \<Rightarrow> err + 'a paging_scheme" where
  "memcpy_words dst src n s =
     ASSERT (dst \<noteq> NULL \<and> src \<noteq> NULL) ''lib/string.c'' 15 ''memcpy'' ''dst_ != NULL && src_ != NULL'' (copy_words n dst src s)"

text \<open>The message of a failed allocation goes through the console, where the thread may have to wait.\<close>

definition page_dir_failed :: "unit locked \<times> 'a mems_scheme \<Rightarrow> err + addr locked \<times> 'a mems_scheme" where
  "page_dir_failed r =
     (case r of (Waits c, s) \<Rightarrow> Inr (Waits c, s) | (Returns _, s) \<Rightarrow> Inr (Returns NULL, s))"

definition create_page_dir :: "'a mems_scheme \<Rightarrow> err + addr locked \<times> 'a mems_scheme" where
  "create_page_dir s =
     bindE (get_kernel_pages 1 s) (\<lambda>(page_dir_vaddr, s).
     if page_dir_vaddr = NULL then
       bindE (console_put_str ''create_page_dir: get_kernel_page failed!'' s) page_dir_failed
     else
       bindE (memcpy_words (page_dir_vaddr + 0x300 * 4) (0xfffff000 + 0x300 * 4) (1024 div 4) s) (\<lambda>s.
       bindE (addr_v2p page_dir_vaddr s) (\<lambda>new_page_dir_phy_addr.
       bindE (vstore32 (page_dir_vaddr + 1023 * 4) (new_page_dir_phy_addr OR PG_US_U OR PG_RW_W OR PG_P_1) s) (\<lambda>s.
       Inr (Returns page_dir_vaddr, s)))))"

definition create_page_dir_resume :: "down_ctx \<Rightarrow> 'a mems_scheme \<Rightarrow> err + addr locked \<times> 'a mems_scheme" where
  "create_page_dir_resume c s =
     bindE (console_put_str_resume ''create_page_dir: get_kernel_page failed!'' c s) page_dir_failed"

definition page_dir_activate :: "addr \<Rightarrow> 'a paging_scheme \<Rightarrow> err + 'a paging_scheme" where
  "page_dir_activate p_thread s =
     (let pagedir_phy_addr = 0x100000
      in bindE (if pgdir (tasks s p_thread) \<noteq> NULL then addr_v2p (pgdir (tasks s p_thread)) s else Inr pagedir_phy_addr)
           (\<lambda>pagedir_phy_addr. Inr (s\<lparr>cr3 := pagedir_phy_addr\<rparr>)))"

definition process_activate :: "addr \<Rightarrow> 'a segs_scheme \<Rightarrow> err + 'a segs_scheme" where
  "process_activate p_thread s =
     ASSERT (p_thread \<noteq> NULL) ''userprog/process.c'' 57 ''process_activate'' ''p_thread != NULL''
       (bindE (page_dir_activate p_thread s) (\<lambda>s.
        Inr (if pgdir (tasks s p_thread) \<noteq> NULL then update_tss_esp p_thread s else s)))"

section \<open>Writing into a frame that holds no table\<close>

lemma frame_written:
  assumes "not_table s f" "\<forall>a. frame_of a \<noteq> f \<longrightarrow> pm a = pmem s a"
  shows "walk pm (cr3 s) v = translate s v" "pm (pde_slot (cr3 s) v) = pde_at s v"
proof -
  show pde: "pm (pde_slot (cr3 s) v) = pde_at s v"
    using assms by (auto simp: not_table_def frame_of_pde_slot)
  have "pm (pte_slot (pde_at s v) v) = pmem s (pte_slot (pde_at s v) v)" if "present (pde_at s v)"
    using assms that by (auto simp: not_table_def frame_of_pte_slot)
  then show "walk pm (cr3 s) v = translate s v"
    by (simp add: translate_def walk_def Let_def pde)
qed

lemma vm_inv_frame_written:
  assumes "vm_inv s" "not_table s f" "\<forall>a. frame_of a \<noteq> f \<longrightarrow> pm a = pmem s a"
  shows "vm_inv (s\<lparr>pmem := pm\<rparr>)"
proof -
  note w = frame_written [OF assms(2,3)]
  have "mapped pm (cr3 s) = mapped (pmem s) (cr3 s)" using w(1) by (simp add: mapped_def translate_def)
  moreover have "tables_ok pm (cr3 s) = tables_ok (pmem s) (cr3 s)" by (simp add: tables_ok_def self_mapped_top w(2))
  ultimately show ?thesis
    using assms(1) w by (simp add: vm_inv_def vm_core_def heap_ok_def pool_bitmaps_def translate_def heap_bits_def heap_page_def)
qed

lemma not_table_written:
  assumes "not_table s f" "\<forall>a. frame_of a \<noteq> f \<longrightarrow> pm a = pmem s a"
  shows "not_table (s\<lparr>pmem := pm\<rparr>) f"
  using assms(1) frame_written(2) [OF assms] by (simp add: not_table_def)

lemma frame_of_slot: "page_aligned f \<Longrightarrow> j < 1024 \<Longrightarrow> frame_of (f + 4 * of_nat j) = f"
  using slot_in_frame [of f "of_nat j"] by (simp add: frame_of_def unat_of_nat_u32)

lemma slot_nat_eq_iff:
  assumes "page_aligned f" "page_aligned g" "i < 1024" "j < 1024"
  shows "f + 4 * of_nat i = g + 4 * of_nat j \<longleftrightarrow> f = g \<and> i = j"
  using slot_eq_iff [OF assms(1,2), of "of_nat i" "of_nat j"] assms(3,4) by (auto simp: unat_of_nat_u32 word_unat_eq_iff)

lemma walk_dir_window:
  assumes "self_mapped pm dir" "j < 1024"
  shows "walk pm dir (0xfffff000 + 4 * of_nat j) = Some (frame_of dir + 4 * of_nat j)"
proof -
  have u: "unat (4 * of_nat j :: u32) = 4 * j" using slot_offset(1) [of "of_nat j"] assms(2) by (simp add: unat_of_nat_u32)
  then have "unat (0xfffff000 + 4 * of_nat j :: u32) = 4290772992 + 4096 * 1023 + 4 * j"
    using assms(2) by (simp only: unat_add_u32) simp
  from walk_window [OF assms(1) this _ assms(2)] assms(1) show ?thesis by (simp add: self_mapped_def Let_def)
qed

lemma slot_offset_mask:
  assumes "page_aligned d" "j < 1024"
  shows "(d + 4 * of_nat j) AND 0xfff = 4 * of_nat j" "(d + 4 * of_nat j) AND 0xfffff000 = d"
proof -
  have u: "unat (4 * of_nat j :: u32) = 4 * j" using slot_offset(1) [of "of_nat j"] assms(2) by (simp add: unat_of_nat_u32)
  obtain k where k: "unat d = 4096 * k" using assms(1) by (auto simp: page_aligned_dvd dvd_def)
  have "unat (d + 4 * of_nat j) = 4096 * k + 4 * j"
    using page_aligned_room [OF assms(1)] k u assms(2) by (simp add: unat_add_u32)
  then have "unat ((d + 4 * of_nat j) AND 0xfff) = unat (4 * of_nat j :: u32)"
    unfolding unat_offset_mask using u assms(2) by simp
  then show "(d + 4 * of_nat j) AND 0xfff = 4 * of_nat j" by (simp only: word_unat_eq_iff)
  show "(d + 4 * of_nat j) AND 0xfffff000 = d" using u assms(2) by (intro page_mask_in_page [OF assms(1)]) simp
qed

text \<open>A page \<open>d\<close> that shows the frame \<open>f\<close>.\<close>

definition shows_frame :: "'a paging_scheme \<Rightarrow> addr \<Rightarrow> addr \<Rightarrow> bool" where
  "shows_frame s d f \<longleftrightarrow> page_aligned d \<and> page_aligned f \<and> (\<forall>w. w AND 0xfffff000 = d \<longrightarrow> translate s w = Some (f + (w AND 0xfff)))"

lemma shows_frame_slot: "shows_frame s d f \<Longrightarrow> j < 1024 \<Longrightarrow> translate s (d + 4 * of_nat j) = Some (f + 4 * of_nat j)"
  by (simp add: shows_frame_def slot_offset_mask)

text \<open>Copying entries of the current directory through the window.\<close>

definition copied :: "addr \<Rightarrow> nat \<Rightarrow> nat \<Rightarrow> 'a paging_scheme \<Rightarrow> addr \<Rightarrow> u32" where
  "copied f i n s a = (if \<exists>j \<in> {i..<i + n}. a = f + 4 * of_nat j then pmem s (frame_of (cr3 s) + (a - f)) else pmem s a)"

lemma copied_outside: "page_aligned f \<Longrightarrow> i + n \<le> 1024 \<Longrightarrow> frame_of a \<noteq> f \<Longrightarrow> copied f i n s a = pmem s a"
  by (auto simp: copied_def frame_of_slot)

lemma copied_slot:
  assumes "page_aligned f" "j < 1024" "i + n \<le> 1024"
  shows "copied f i n s (f + 4 * of_nat j) =
    (if j \<in> {i..<i + n} then pmem s (frame_of (cr3 s) + 4 * of_nat j) else pmem s (f + 4 * of_nat j))"
  using slot_nat_eq_iff [OF assms(1,1,2)] assms(3) by (auto simp: copied_def)

lemma copy_words_dir:
  assumes "self_mapped (pmem s) (cr3 s)" "shows_frame s d f" "not_table s f" "i + n \<le> 1024"
  shows "copy_words n (d + 4 * of_nat i) (0xfffff000 + 4 * of_nat i) s = Inr (s\<lparr>pmem := copied f i n s\<rparr>)"
  using assms
proof (induction n arbitrary: i s)
  case 0
  have "copied f i 0 s = pmem s" by (simp add: fun_eq_iff copied_def)
  then show ?case by simp
next
  case (Suc n)
  have f: "page_aligned f" and i: "i < 1024" using Suc.prems(2,4) by (simp_all add: shows_frame_def)
  define x where "x = pmem s (frame_of (cr3 s) + 4 * of_nat i)"
  define t where "t = s\<lparr>pmem := (pmem s)(f + 4 * of_nat i := x)\<rparr>"
  have load: "vload32 (0xfffff000 + 4 * of_nat i) s = Inr x"
    using walk_dir_window [OF Suc.prems(1) i] by (simp add: vload32_def translate_def x_def)
  have store: "vstore32 (d + 4 * of_nat i) x s = Inr t"
    using shows_frame_slot [OF Suc.prems(2) i] by (simp add: vstore32_def t_def)
  have out: "\<forall>a. frame_of a \<noteq> f \<longrightarrow> pmem t a = pmem s a" using frame_of_slot [OF f i] by (auto simp: t_def)
  note fw = frame_written [OF Suc.prems(3) out]
  have cr3: "cr3 t = cr3 s" by (simp add: t_def)
  have same: "translate t w = translate s w" for w using fw(1) by (simp add: translate_def cr3)
  have "self_mapped (pmem t) (cr3 t)" using Suc.prems(1) fw(2) by (simp add: self_mapped_top cr3)
  moreover have "shows_frame t d f" using Suc.prems(2) by (simp add: shows_frame_def same)
  moreover have "not_table t f" using not_table_written [OF Suc.prems(3) out] by (simp add: t_def fun_upd_def)
  ultimately have "copy_words n (d + 4 * of_nat (Suc i)) (0xfffff000 + 4 * of_nat (Suc i)) t = Inr (t\<lparr>pmem := copied f (Suc i) n t\<rparr>)"
    using Suc.prems(4) by (intro Suc.IH) simp_all
  moreover have "copied f (Suc i) n t = copied f i (Suc n) s"
  proof
    fix a
    have dir: "frame_of (cr3 s) + 4 * of_nat j \<noteq> f + 4 * of_nat i" if "j < 1024" for j
      using slot_nat_eq_iff [OF frame_of_aligned f that i] Suc.prems(3) by (auto simp: not_table_def)
    show "copied f (Suc i) n t a = copied f i (Suc n) s a"
    proof (cases "\<exists>j < 1024. a = f + 4 * of_nat j")
      case True
      then obtain j where j: "j < 1024" "a = f + 4 * of_nat j" by blast
      have "pmem t (frame_of (cr3 s) + 4 * of_nat j) = pmem s (frame_of (cr3 s) + 4 * of_nat j)" using dir [OF j(1)] by (simp add: t_def)
      moreover have "pmem t a = (if j = i then x else pmem s a)"
        using slot_nat_eq_iff [OF f f j(1) i] by (simp add: t_def j(2))
      ultimately show ?thesis
        using copied_slot [OF f j(1), of "Suc i" n t] copied_slot [OF f j(1), of i "Suc n" s] Suc.prems(4)
        by (cases "j = i") (auto simp: cr3 j(2) x_def simp del: of_nat_Suc)
    next
      case False
      then have "pmem t a = pmem s a" using i by (auto simp: t_def)
      with False Suc.prems(4) show ?thesis by (auto simp: copied_def)
    qed
  qed
  moreover have "d + 4 * of_nat (Suc i) = d + 4 * of_nat i + 4" "(0xfffff000 :: u32) + 4 * of_nat (Suc i) = 0xfffff000 + 4 * of_nat i + 4"
    by (simp_all add: distrib_left add.assoc add.commute [of _ 4])
  moreover have "t\<lparr>pmem := p\<rparr> = s\<lparr>pmem := p\<rparr>" for p by (simp add: t_def)
  ultimately show ?case
    by (simp only: copy_words.simps load store bindE_Inr)
qed

section \<open>A directory that shares the kernel part\<close>

text \<open>The directory \<open>f\<close> has the kernel entries of the directory \<open>dir\<close>, itself in the last one, and no others.\<close>

definition shares_kernel :: "(addr \<Rightarrow> u32) \<Rightarrow> addr \<Rightarrow> addr \<Rightarrow> bool" where
  "shares_kernel pm dir f \<longleftrightarrow> page_aligned f \<and>
     (\<forall>v. pm (pde_slot f v) = (if in_window v then f OR 7 else if 0xc0000000 \<le> v then pm (pde_slot dir v) else 0))"

lemma absent_zero: "\<not> present 0"
  by (simp add: present_def)

lemma shares_kernel_walk:
  assumes "shares_kernel pm dir f" "\<not> in_window v"
  shows "walk pm f v = (if 0xc0000000 \<le> v then walk pm dir v else None)"
  using assms by (simp add: shares_kernel_def walk_def Let_def absent_zero)

lemma shares_kernel_self: "shares_kernel pm dir f \<Longrightarrow> self_mapped pm f"
  using window_top by (simp add: shares_kernel_def self_mapped_top low_flags aligned_frame_of)

lemma shares_kernel_tables:
  assumes "shares_kernel pm dir f" "tables_ok pm dir" "\<forall>v. present (pm (pde_slot dir v)) \<longrightarrow> frame_of (pm (pde_slot dir v)) \<noteq> f"
  shows "tables_ok pm f"
proof -
  have e: "pm (pde_slot f v) = (if in_window v then f OR 7 else if 0xc0000000 \<le> v then pm (pde_slot dir v) else 0)" for v
    using assms(1) by (simp add: shares_kernel_def)
  have own: "frame_of (f OR 7) = f" using assms(1) by (simp add: shares_kernel_def low_flags aligned_frame_of)
  have "shared_idx (drop_bit 22 v) (drop_bit 22 w)"
    if "present (pm (pde_slot f v))" "present (pm (pde_slot f w))" "frame_of (pm (pde_slot f v)) = frame_of (pm (pde_slot f w))" for v w
    using that assms(2,3) own unfolding e tables_ok_def
    by (auto simp: absent_zero in_window_def shared_idx_def split: if_splits)
  then show ?thesis using shares_kernel_self [OF assms(1)] by (simp add: tables_ok_def)
qed

lemma shares_kernel_mapped:
  assumes "shares_kernel pm dir f" "tables_ok pm dir" "\<forall>v. present (pm (pde_slot dir v)) \<longrightarrow> frame_of (pm (pde_slot dir v)) \<noteq> f"
    "f \<in> mapped pm dir"
  shows "mapped pm f \<subseteq> mapped pm dir"
proof
  fix x assume "x \<in> mapped pm f"
  then obtain v q where q: "walk pm f v = Some q" "x = frame_of q" by (auto simp: mapped_def)
  show "x \<in> mapped pm dir"
  proof (cases "in_window v")
    case False
    then show ?thesis using q shares_kernel_walk [OF assms(1)] by (auto simp: mapped_def split: if_splits)
  next
    case True
    obtain u where "pte_loc pm f v = Some (pde_slot f u)" using window_loc [OF shares_kernel_self [OF assms(1)] True] by blast
    then have "present (pm (pde_slot f u))" "x = frame_of (pm (pde_slot f u))"
      using q by (auto simp: walk_pte_loc frame_of_in_frame split: if_splits)
    then show ?thesis
      using assms(1,4) table_mapped [of pm dir u] assms(2)
      by (auto simp: shares_kernel_def tables_ok_def low_flags aligned_frame_of absent_zero split: if_splits)
  qed
qed

text \<open>So the invariant of the memory holds under the new directory too.\<close>

lemma shares_kernel_vm_inv:
  assumes "vm_inv s" "shares_kernel (pmem s) (cr3 s) f" "not_table s f" "f \<in> mapped (pmem s) (cr3 s)"
  shows "vm_inv (s\<lparr>cr3 := f\<rparr>)"
proof -
  have core: "vm_core s" and heap: "heap_ok s" using assms(1) by (simp_all add: vm_inv_def)
  have t: "tables_ok (pmem s) (cr3 s)" using core by (simp add: vm_core_def)
  have n: "\<forall>v. present (pde_at s v) \<longrightarrow> frame_of (pde_at s v) \<noteq> f" using assms(3) by (simp add: not_table_def)
  have "mapped (pmem s) f \<subseteq> mapped (pmem s) (cr3 s)" using shares_kernel_mapped [OF assms(2) t n assms(4)] .
  then have "vm_core (s\<lparr>cr3 := f\<rparr>)"
    using core shares_kernel_tables [OF assms(2) t n] by (auto simp: vm_core_def pool_bitmaps_def all_free_def)
  moreover have "heap_ok (s\<lparr>cr3 := f\<rparr>)"
  proof -
    have geo: "heap_geometry s" using heap by (simp add: heap_ok_geometry)
    have "walk (pmem s) f (heap_page s k) = None" if k: "k \<in> free_idx (vaddr_bitmap (kernel_vaddr s)) (mem s)" for k
    proof -
      have "k < heap_bits s" using k by (simp add: free_idx_def heap_bits_def)
      note hp = heap_page_facts [OF geo this]
      have "0xc0000000 \<le> heap_page s k" using hp(3) by (simp add: word_le_nat_alt)
      then show ?thesis
        using shares_kernel_walk [OF assms(2) hp(1)] heap k by (simp add: heap_ok_geometry translate_def)
    qed
    moreover have "present (pmem s (pde_slot f v))" if "0xc0000000 \<le> v" for v
      using assms(2) that geo by (auto simp: shares_kernel_def heap_geometry_def low_flags)
    ultimately show ?thesis
      using geo by (simp add: heap_ok_geometry heap_geometry_def heap_bits_def heap_page_def translate_def)
  qed
  ultimately show ?thesis by (simp add: vm_inv_def)
qed

section \<open>What an allocation of kernel pages changes\<close>

definition allocated :: "addr set \<Rightarrow> 'a mems_scheme \<Rightarrow> 'a mems_scheme \<Rightarrow> bool" where
  "allocated P s s' \<longleftrightarrow> vm_inv s' \<and>
     s' = s\<lparr>mem := mem s', elems := zero_in P zero_elem (elems s), tasks := zero_in P zero_task (tasks s),
       stk := zero_in P 0 (stk s), pmem := pmem s'\<rparr> \<and>
     (\<forall>p \<in> P. page_aligned p \<and> K_HEAP_START \<le> p \<and> \<not> in_window p \<and> translate s p = None \<and>
        (\<exists>f. shows_frame s' p f \<and> not_table s' f \<and> (\<forall>a. frame_of a = f \<longrightarrow> pmem s' a = 0))) \<and>
     (\<forall>w. \<not> in_window w \<and> 0xc0000000 \<le> w \<and> w AND 0xfffff000 \<notin> P \<longrightarrow> translate s' w = translate s w) \<and>
     (\<forall>w. \<not> in_window w \<and> (\<forall>p \<in> P. \<not> mirrored p w) \<longrightarrow> translate s' w = translate s w) \<and>
     (\<forall>a. K_HEAP_START \<le> a \<and> a AND 0xfffff000 \<notin> P \<longrightarrow> mem s' a = mem s a)"

lemma get_kernel_pages_allocated:
  assumes "vm_inv s" "0 < c" "c < 3840" "unat c \<le> card (free_idx (bit_of PF_KERNEL s) (mem s))"
    "first_fit (\<lambda>i. \<not> bm_used (mem s) (vaddr_bitmap (kernel_vaddr s)) i) (heap_bits s) (unat c) = Some k"
  obtains s' where "get_kernel_pages c s = Inr (heap_page s k, s')" "allocated (heap_page s ` {k..<k + unat c}) s s'"
    "card (free_idx (bit_of PF_KERNEL s) (mem s')) + unat c = card (free_idx (bit_of PF_KERNEL s) (mem s))"
    "free_idx (bit_of PF_USER s) (mem s') = free_idx (bit_of PF_USER s) (mem s)"
    "free_idx (vaddr_bitmap (kernel_vaddr s)) (mem s') = free_idx (vaddr_bitmap (kernel_vaddr s)) (mem s) - {k..<k + unat c}"
    "k + unat c \<le> heap_bits s"
proof -
  let ?P = "heap_page s ` {k..<k + unat c}"
  have core: "vm_core s" and heap: "heap_ok s" using assms(1) by (simp_all add: vm_inv_def)
  then have geo: "heap_geometry s" by (simp add: heap_ok_geometry)
  obtain fs t s' where r: "get_kernel_pages c s = Inr (heap_page s k, s')" "vm_inv s'"
    "length fs = unat c" "distinct fs" "set fs \<subseteq> free_idx (bit_of PF_KERNEL s) (mem s)"
    "free_idx (bit_of PF_KERNEL s) (mem s') = free_idx (bit_of PF_KERNEL s) (mem s) - set fs"
    "free_idx (bit_of PF_USER s) (mem s') = free_idx (bit_of PF_USER s) (mem s)"
    "free_idx (vaddr_bitmap (kernel_vaddr s)) (mem s') = free_idx (vaddr_bitmap (kernel_vaddr s)) (mem s) - {k..<k + unat c}"
    "pages_mapped k fs s s'" "k + unat c \<le> heap_bits s"
    "t = s\<lparr>mem := mem t, pmem := pmem t\<rparr>" "wiped ?P t s'" "\<forall>a \<ge> K_HEAP_START. mem t a = mem s a"
    using get_kernel_pages_maps [OF assms] .
  have same: "elems t = elems s" "tasks t = tasks s" "stk t = stk s" "cr3 t = cr3 s" by (subst r(11), simp)+
  then have cr3: "cr3 s' = cr3 s" using wiped_frame(1) [OF r(12)] by simp
  have upd: "s' = s\<lparr>mem := mem s', elems := zero_in ?P zero_elem (elems s), tasks := zero_in ?P zero_task (tasks s),
      stk := zero_in ?P 0 (stk s), pmem := pmem s'\<rparr>"
    using r(11,12) same by (cases s, cases t, cases s') (simp add: wiped_def wipe_def)
  have pages: "page_aligned p \<and> K_HEAP_START \<le> p \<and> \<not> in_window p \<and> translate s p = None \<and>
      (\<exists>f. shows_frame s' p f \<and> not_table s' f \<and> (\<forall>a. frame_of a = f \<longrightarrow> pmem s' a = 0))" if "p \<in> ?P" for p
  proof -
    obtain i where i: "k \<le> i" "i < k + unat c" "p = heap_page s i" using \<open>p \<in> ?P\<close> by auto
    define j where "j = i - k"
    have j: "j < unat c" "p = heap_page s (k + j)" using i by (simp_all add: j_def)
    then have b: "k + j < heap_bits s" using r(10) by simp
    note hp = heap_page_facts [OF geo b]
    let ?f = "pool_frame (kernel_pool s) (fs ! j)"
    have free: "fs ! j \<in> free_idx (bit_of PF_KERNEL s) (mem s)" using j(1) r(3,5) nth_mem by (metis subsetD)
    then have free': "?f \<in> all_free s" by (auto simp: all_free_def free_frames_def bit_of_def mem_pool_def)
    have al: "page_aligned ?f"
      using frame_facts [OF vm_core_pool [OF core, of PF_KERNEL], of "fs ! j"] free by (auto simp: bit_of_def mem_pool_def free_idx_def)
    have sf: "shows_frame s' p ?f"
      using r(3,9) j al hp by (simp add: shows_frame_def pages_mapped_def)
    have "pde_at s' v = pde_at s v" for v using r(9) by (simp add: pages_mapped_def)
    then have nt: "not_table s' ?f" using free_not_table [OF core free'] by (simp add: not_table_def cr3)
    have "p AND 0xfffff000 = p" "p AND 0xfff = 0" using hp(4) j(2) aligned_frame_of by (simp_all add: frame_of_def page_aligned_def)
    then have "translate t p = Some ?f" using sf wiped_frame(2) [OF r(12)] by (simp add: shows_frame_def)
    then have zero: "\<forall>a. frame_of a = ?f \<longrightarrow> pmem s' a = 0"
      using r(12) \<open>p \<in> ?P\<close> by (auto simp: wiped_def frame_of_def)
    have "k + j \<in> free_idx (vaddr_bitmap (kernel_vaddr s)) (mem s)"
      using first_fit_Some [OF assms(5)] j(1) b by (simp add: fits_def free_idx_def heap_bits_def)
    then have "translate s p = None" using heap j(2) by (simp add: heap_ok_geometry)
    with hp(1,3,4) j(2) sf nt zero show ?thesis by (auto simp: word_le_nat_alt K_HEAP_START_def)
  qed
  have rest: "translate s' w = translate s w" if w: "\<not> in_window w" "0xc0000000 \<le> w" "w AND 0xfffff000 \<notin> ?P" for w
  proof -
    have "\<not> mirrored (heap_page s (k + j)) w" if j: "j < unat c" for j
    proof
      assume "mirrored (heap_page s (k + j)) w"
      moreover have "k + j < heap_bits s" using j r(10) by simp
      note hp = heap_page_facts [OF geo this]
      ultimately have "heap_page s (k + j) = w AND 0xfffff000"
        using kernel_mirrored [of "heap_page s (k + j)" w] hp(3,5) w(2) by (simp add: word_le_nat_alt)
      moreover have "heap_page s (k + j) \<in> ?P" using j by simp
      ultimately show False using w(3) by simp
    qed
    then show ?thesis using r(3,9) w(1) by (simp add: pages_mapped_def)
  qed
  have low: "translate s' w = translate s w" if "\<not> in_window w" "\<forall>p \<in> ?P. \<not> mirrored p w" for w
    using r(3,9) that by (simp add: pages_mapped_def)
  have bytes: "mem s' a = mem s a" if "K_HEAP_START \<le> a" "a AND 0xfffff000 \<notin> ?P" for a
    using r(13) wiped_frame(4) [OF r(12)] that by (simp add: zero_in_def)
  have "allocated ?P s s'"
    unfolding allocated_def by (intro conjI [OF r(2) conjI [OF upd conjI [OF ballI [OF pages]]]]) (use rest low bytes in \<open>simp_all\<close>)
  moreover have "card (free_idx (bit_of PF_KERNEL s) (mem s')) + unat c = card (free_idx (bit_of PF_KERNEL s) (mem s))"
  proof -
    have "finite (free_idx (bit_of PF_KERNEL s) (mem s))" by (simp add: free_idx_def)
    then show ?thesis using r(3-6) assms(4) by (simp add: card_Diff_subset finite_subset distinct_card)
  qed
  ultimately show thesis using that r(1,7,8,10) by blast
qed

section \<open>The directory of a new process\<close>

lemma create_page_dir_run:
  assumes "vm_inv s" "free_idx (bit_of PF_KERNEL s) (mem s) \<noteq> {}"
    "first_fit (\<lambda>i. \<not> bm_used (mem s) (vaddr_bitmap (kernel_vaddr s)) i) (heap_bits s) 1 = Some k"
  obtains t f s' where "create_page_dir s = Inr (Returns (heap_page s k), s')" "allocated {heap_page s k} s t"
    "s' = t\<lparr>pmem := pmem s'\<rparr>" "\<forall>w. translate s' w = translate t w" "\<forall>a. frame_of a \<noteq> f \<longrightarrow> pmem s' a = pmem t a"
    "vm_inv s'" "shows_frame s' (heap_page s k) f" "not_table s' f" "shares_kernel (pmem s') (cr3 s') f"
    "free_idx (vaddr_bitmap (kernel_vaddr s)) (mem s') = free_idx (vaddr_bitmap (kernel_vaddr s)) (mem s) - {k}"
    "card (free_idx (bit_of PF_KERNEL s) (mem s')) + 1 = card (free_idx (bit_of PF_KERNEL s) (mem s))"
    "free_idx (bit_of PF_USER s) (mem s') = free_idx (bit_of PF_USER s) (mem s)"
proof -
  let ?d = "heap_page s k"
  have "finite (free_idx (bit_of PF_KERNEL s) (mem s))" by (simp add: free_idx_def)
  then have c: "unat (1 :: u32) \<le> card (free_idx (bit_of PF_KERNEL s) (mem s))"
    using assms(2) by (simp add: Suc_le_eq card_gt_0_iff)
  have fit: "first_fit (\<lambda>i. \<not> bm_used (mem s) (vaddr_bitmap (kernel_vaddr s)) i) (heap_bits s) (unat (1 :: u32)) = Some k"
    using assms(3) by simp
  obtain t where t: "get_kernel_pages 1 s = Inr (?d, t)" "allocated (heap_page s ` {k..<k + unat (1 :: u32)}) s t"
    "card (free_idx (bit_of PF_KERNEL s) (mem t)) + unat (1 :: u32) = card (free_idx (bit_of PF_KERNEL s) (mem s))"
    "free_idx (bit_of PF_USER s) (mem t) = free_idx (bit_of PF_USER s) (mem s)"
    "free_idx (vaddr_bitmap (kernel_vaddr s)) (mem t) = free_idx (vaddr_bitmap (kernel_vaddr s)) (mem s) - {k..<k + unat (1 :: u32)}"
    by (rule get_kernel_pages_allocated [OF assms(1) _ _ c fit]) simp_all
  have al: "allocated {?d} s t" using t(2) by simp
  then obtain f where f: "shows_frame t ?d f" "not_table t f" "\<forall>a. frame_of a = f \<longrightarrow> pmem t a = 0" and inv: "vm_inv t"
    by (auto simp: allocated_def)
  have d: "?d \<noteq> NULL" "?d + 0x300 * 4 \<noteq> NULL"
  proof -
    have h: "K_HEAP_START \<le> ?d" "page_aligned ?d" using al by (simp_all add: allocated_def)
    then show "?d \<noteq> NULL" by (auto simp: K_HEAP_START_def word_le_nat_alt)
    have "unat (?d + 0xc00) = unat ?d + 0xc00" using page_aligned_room [OF h(2)] by (simp add: unat_add_u32)
    then show "?d + 0x300 * 4 \<noteq> NULL" by auto
  qed
  have fa: "page_aligned f" and da: "page_aligned ?d" using f(1) by (simp_all add: shows_frame_def)
  have self: "self_mapped (pmem t) (cr3 t)" using inv by (simp add: vm_inv_def vm_core_def tables_ok_def)
  define p1 where "p1 = copied f 768 256 t"
  define p2 where "p2 = p1(f + 4 * 1023 := f OR 7)"
  have copy: "memcpy_words (?d + 0x300 * 4) (0xfffff000 + 0x300 * 4) (1024 div 4) t = Inr (t\<lparr>pmem := p1\<rparr>)"
    using copy_words_dir [OF self f(1,2), of 768 256] d(2) by (simp add: memcpy_words_def p1_def)
  have out1: "\<forall>a. frame_of a \<noteq> f \<longrightarrow> p1 a = pmem t a" by (simp add: p1_def copied_outside [OF fa])
  have out2: "\<forall>a. frame_of a \<noteq> f \<longrightarrow> p2 a = pmem t a"
    using out1 frame_of_slot [OF fa, of 1023] by (auto simp: p2_def)
  note w1 = frame_written [OF f(2) out1]
  note w2 = frame_written [OF f(2) out2]
  have same1: "translate (t\<lparr>pmem := p1\<rparr>) v = translate t v" for v using w1(1) by (simp add: translate_def)
  have self1: "self_mapped p1 (cr3 t)" using self w1(2) by (simp add: self_mapped_top)
  have show1: "shows_frame (t\<lparr>pmem := p1\<rparr>) ?d f" using f(1) same1 by (simp add: shows_frame_def)
  have dd: "?d AND 0xfffff000 = ?d" "?d AND 0xfff = 0" using da aligned_frame_of by (simp_all add: frame_of_def page_aligned_def)
  have "addr_v2p ?d (t\<lparr>pmem := p1\<rparr>) = Inr f"
  proof -
    have tr: "translate (t\<lparr>pmem := p1\<rparr>) ?d = Some f" using show1 dd by (simp add: shows_frame_def)
    then obtain loc where loc: "pte_loc p1 (cr3 t) ?d = Some loc" "frame_of (p1 loc) = f"
      using dd(2) by (auto simp: translate_def walk_pte_loc split: option.splits if_splits)
    then show ?thesis
      using addr_v2p_walk [of "t\<lparr>pmem := p1\<rparr>" ?d] self1 dd(2) by simp
  qed
  moreover have "vstore32 (?d + 1023 * 4) (f OR 7) (t\<lparr>pmem := p1\<rparr>) = Inr (t\<lparr>pmem := p2\<rparr>)"
    using shows_frame_slot [OF show1, of 1023] by (simp add: vstore32_def p2_def mult.commute)
  ultimately have run: "create_page_dir s = Inr (Returns ?d, t\<lparr>pmem := p2\<rparr>)"
    using t(1) d(1) copy by (simp add: create_page_dir_def page_flags)
  have "shares_kernel p2 (cr3 t) f"
  proof -
    have slot: "p2 (f + 4 * of_nat j) = (if j = 1023 then f OR 7 else if 768 \<le> j then pmem t (frame_of (cr3 t) + 4 * of_nat j) else 0)"
      if j: "j < 1024" for j
      using slot_nat_eq_iff [OF fa fa j, of 1023] copied_slot [OF fa j, of 768 256 t] f(3) frame_of_slot [OF fa j] j
      by (auto simp: p2_def p1_def)
    have "p2 (pde_slot f v) = (if in_window v then f OR 7 else if 0xc0000000 \<le> v then pmem t (pde_slot (cr3 t) v) else 0)" for v
    proof -
      let ?j = "unat (drop_bit 22 v)"
      have j: "?j < 1024" "pde_slot f v = f + 4 * of_nat ?j" "pde_slot (cr3 t) v = frame_of (cr3 t) + 4 * of_nat ?j"
        using pde_idx_less [of v] by (simp_all add: pde_slot_def aligned_frame_of fa del: drop_bit_eq_div)
      have "in_window v \<longleftrightarrow> ?j = 1023" by (rule in_window_unat)
      moreover have "0xc0000000 \<le> v \<longleftrightarrow> 768 \<le> ?j"
        using div_le_mono [of 3221225472 "unat v" 4194304] by (auto simp: unat_pde_idx word_le_nat_alt simp del: drop_bit_eq_div)
      ultimately show ?thesis using slot [OF j(1)] by (simp only: j(2,3))
    qed
    with fa w2(2) show ?thesis by (simp add: shares_kernel_def)
  qed
  moreover have "vm_inv (t\<lparr>pmem := p2\<rparr>)" using vm_inv_frame_written [OF inv f(2) out2] .
  moreover have "not_table (t\<lparr>pmem := p2\<rparr>) f" using not_table_written [OF f(2) out2] .
  moreover have "translate (t\<lparr>pmem := p2\<rparr>) v = translate t v" for v using w2(1) by (simp add: translate_def)
  moreover from this have "shows_frame (t\<lparr>pmem := p2\<rparr>) ?d f" using f(1) by (simp add: shows_frame_def)
  moreover have "{k..<k + unat (1 :: u32)} = {k}" by auto
  ultimately show thesis using run al out2 t(3-5) by (intro that [where t = t and f = f and s' = "t\<lparr>pmem := p2\<rparr>"]) simp_all
qed

lemma shows_frame_v2p:
  assumes "self_mapped (pmem s) (cr3 s)" "shows_frame s d f"
  shows "addr_v2p d s = Inr f"
proof -
  have dd: "d AND 0xfffff000 = d" "d AND 0xfff = 0" using assms(2) aligned_frame_of by (simp_all add: shows_frame_def frame_of_def page_aligned_def)
  then have "translate s d = Some f" using assms(2) by (simp add: shows_frame_def)
  then obtain loc where "pte_loc (pmem s) (cr3 s) d = Some loc" "frame_of (pmem s loc) = f"
    using dd(2) by (auto simp: translate_def walk_pte_loc split: option.splits if_splits)
  then show ?thesis using addr_v2p_walk [OF assms(1), of d] dd(2) by simp
qed

lemma shows_frame_mapped:
  assumes "shows_frame s d f"
  shows "f \<in> mapped (pmem s) (cr3 s)"
proof -
  have "d AND 0xfffff000 = d" "d AND 0xfff = 0" using assms aligned_frame_of by (simp_all add: shows_frame_def frame_of_def page_aligned_def)
  then have "translate s d = Some f" using assms by (simp add: shows_frame_def)
  from mapped_walk [OF this [unfolded translate_def]] show ?thesis using assms by (simp add: shows_frame_def aligned_frame_of)
qed

lemma allocated_upd:
  assumes "allocated P s s'"
  shows "\<exists>m e ts st pm. s' = s\<lparr>mem := m, elems := e, tasks := ts, stk := st, pmem := pm\<rparr>"
  using assms unfolding allocated_def by (elim conjE) (intro exI, assumption)

lemma addr_v2p_cong: "pmem t = pmem s \<Longrightarrow> cr3 t = cr3 s \<Longrightarrow> addr_v2p v t = addr_v2p v s"
  by (simp add: addr_v2p_def vload32_cong [of t s])

section \<open>Properties\<close>

text \<open>
  C9: \<open>create_page_dir\<close> with a free frame and a free heap page returns a new page whose frame is a page
  directory; activating a process that has it loads this frame into cr3 and the top of the page of the process into
  the task state segment. Then every kernel address below the window translates as in the old address space, no user address is
  mapped, and the invariant of the memory management holds, which includes the recursive mapping. In the old
  address space every page outside the window translates as before but the new page and the page that shares its
  entry through the directory entries 0 and 768, which is below 0xc0000000; and outside the new page the control
  blocks, the stacks, the list nodes and the bytes of the heap are what they were.
\<close>

theorem process_address_space:
  assumes "vm_inv s" "free_idx (bit_of PF_KERNEL s) (mem s) \<noteq> {}"
    "first_fit (\<lambda>i. \<not> bm_used (mem s) (vaddr_bitmap (kernel_vaddr s)) i) (heap_bits s) 1 = Some k" "p \<noteq> NULL"
  shows "\<exists>f s' a. create_page_dir s = Inr (Returns (heap_page s k), s') \<and>
    process_activate p (upd_task p (\<lambda>t. t\<lparr>pgdir := heap_page s k\<rparr>) s') = Inr a \<and>
    cr3 a = f \<and> tss a = (tss s)\<lparr>tss_esp0 := p + 4096\<rparr> \<and> vm_inv s' \<and> vm_inv a \<and>
    (\<forall>v. \<not> in_window v \<longrightarrow> translate a v = (if 0xc0000000 \<le> v then translate s' v else None)) \<and>
    (\<forall>v. \<not> in_window v \<and> \<not> mirrored (heap_page s k) v \<longrightarrow> translate s' v = translate s v) \<and>
    (\<forall>v. \<not> in_window v \<and> 0xc0000000 \<le> v \<and> v AND 0xfffff000 \<noteq> heap_page s k \<longrightarrow> translate s' v = translate s v) \<and>
    (\<forall>v. v AND 0xfffff000 \<noteq> heap_page s k \<longrightarrow> tasks s' v = tasks s v \<and> stk s' v = stk s v \<and> elems s' v = elems s v \<and>
       (K_HEAP_START \<le> v \<longrightarrow> mem s' v = mem s v))"
proof -
  let ?d = "heap_page s k"
  obtain t f s' where r: "create_page_dir s = Inr (Returns ?d, s')" "allocated {?d} s t"
    "s' = t\<lparr>pmem := pmem s'\<rparr>" "\<forall>w. translate s' w = translate t w" "vm_inv s'" "shows_frame s' ?d f" "not_table s' f"
    "shares_kernel (pmem s') (cr3 s') f"
    using create_page_dir_run [OF assms(1-3)] by metis
  let ?u = "upd_task p (\<lambda>t. t\<lparr>pgdir := ?d\<rparr>) s'"
  let ?a = "?u\<lparr>cr3 := f, tss := (tss s')\<lparr>tss_esp0 := p + 4096\<rparr>\<rparr>"
  have d: "?d \<noteq> NULL" using r(2) by (auto simp: allocated_def K_HEAP_START_def word_le_nat_alt)
  have "self_mapped (pmem s') (cr3 s')" using r(5) by (simp add: vm_inv_def vm_core_def tables_ok_def)
  then have "addr_v2p ?d s' = Inr f" using r(6) by (rule shows_frame_v2p)
  then have "addr_v2p ?d ?u = Inr f" using addr_v2p_cong [of ?u s'] by (simp add: upd_task_def)
  then have run: "process_activate p ?u = Inr ?a"
    using d assms(4) by (simp add: process_activate_def page_dir_activate_def upd_task_def update_tss_esp_def)
  have tss: "tss s' = tss s"
  proof -
    have "tss t = tss s" using allocated_upd [OF r(2)] by auto
    then show ?thesis by (subst r(3)) simp
  qed
  have "vm_inv (s'\<lparr>cr3 := f\<rparr>)" using shares_kernel_vm_inv [OF r(5,8,7) shows_frame_mapped [OF r(6)]] .
  then have "vm_inv ?a" by (rule vm_inv_cong) (simp_all add: upd_task_def)
  moreover have "translate ?a v = (if 0xc0000000 \<le> v then translate s' v else None)" if "\<not> in_window v" for v
    using shares_kernel_walk [OF r(8) that] by (simp add: translate_def upd_task_def)
  moreover have "translate s' v = translate s v" if "\<not> in_window v" "0xc0000000 \<le> v" "v AND 0xfffff000 \<noteq> ?d" for v
    using r(2,4) that by (simp add: allocated_def)
  moreover have "translate s' v = translate s v" if "\<not> in_window v" "\<not> mirrored ?d v" for v
    using r(2,4) that by (simp add: allocated_def)
  moreover have "tasks s' v = tasks s v \<and> stk s' v = stk s v \<and> elems s' v = elems s v \<and> (K_HEAP_START \<le> v \<longrightarrow> mem s' v = mem s v)"
    if "v AND 0xfffff000 \<noteq> ?d" for v
  proof -
    have t: "t = s\<lparr>mem := mem t, elems := zero_in {?d} zero_elem (elems s), tasks := zero_in {?d} zero_task (tasks s),
        stk := zero_in {?d} 0 (stk s), pmem := pmem t\<rparr>"
      using r(2) unfolding allocated_def by (elim conjE)
    have heap: "\<forall>a. K_HEAP_START \<le> a \<and> a AND 0xfffff000 \<notin> {?d} \<longrightarrow> mem t a = mem s a"
      using r(2) unfolding allocated_def by (elim conjE)
    have "tasks t v = tasks s v" "stk t v = stk s v" "elems t v = elems s v"
      using that by (subst t, simp add: zero_in_def)+
    moreover have "tasks s' = tasks t" "stk s' = stk t" "elems s' = elems t" "mem s' = mem t" by (subst r(3), simp)+
    ultimately show ?thesis using heap that by simp
  qed
  ultimately show ?thesis
    using r(1,5) run tss by (intro exI [of _ f] exI [of _ s'] exI [of _ ?a]) simp
qed

lemma init_all0:
  obtains s where "init_all entry segs0 = Inr s" "system_inv s [] [0xc009e000]" "heap_bits s = 3840"
    "\<forall>k. heap_page s k = 0xc0100000 + of_nat k * 4096" "free_idx (bit_of PF_KERNEL s) (mem s) = {..<3840}"
    "free_idx (vaddr_bitmap (kernel_vaddr s)) (mem s) = {..<3840}"
proof -
  let ?b = "vaddr_bitmap (init_kernel_vaddr 0x2000000)"
  obtain s where s: "init_all entry segs0 = Inr s" "system_inv s [] [0xc009e000]"
    "kernel_pool s = init_kernel_pool 0x2000000" "kernel_vaddr s = init_kernel_vaddr 0x2000000"
    "free_idx (pool_bitmap (init_kernel_pool 0x2000000)) (mem s) = {..<8 * unat (kbm_length 0x2000000)}"
    "free_idx ?b (mem s) = {..<8 * unat (kbm_length 0x2000000)}"
    using init_all_run [OF boot_state0 fit0(1)] by metis
  moreover have "heap_bits s = 3840" "heap_page s k = 0xc0100000 + of_nat k * 4096" for k
    using s(4) by (simp_all add: heap_bits_def heap_page_def bm_bits_def init_kernel_vaddr_def lengths_32mb K_HEAP_START_def PG_SIZE_def)
  ultimately show thesis by (intro that [of s]) (simp_all add: bit_of_def mem_pool_def lengths_32mb)
qed

theorem process_address_space_witness:
  "\<exists>(s :: segs) s' a. init_all (\<lambda>i. 0xc0001c80 + 25 * of_nat i) segs0 = Inr s \<and> create_page_dir s = Inr (Returns 0xc0100000, s') \<and>
     process_activate 0xc009e000 (upd_task 0xc009e000 (\<lambda>t. t\<lparr>pgdir := 0xc0100000\<rparr>) s') = Inr a \<and> vm_inv a \<and> translate a 0x8048000 = None"
proof -
  obtain s where s: "init_all (\<lambda>i. 0xc0001c80 + 25 * of_nat i) segs0 = Inr s" "system_inv s [] [0xc009e000]" "heap_bits s = 3840"
    "\<forall>k. heap_page s k = 0xc0100000 + of_nat k * 4096" "free_idx (bit_of PF_KERNEL s) (mem s) = {..<3840}"
    "free_idx (vaddr_bitmap (kernel_vaddr s)) (mem s) = {..<3840}"
    using init_all0 [of "\<lambda>i. 0xc0001c80 + 25 * of_nat i"] .
  have fit: "first_fit (\<lambda>i. \<not> bm_used (mem s) (vaddr_bitmap (kernel_vaddr s)) i) (heap_bits s) 1 = Some 0"
    using first_fit_all_free [of "vaddr_bitmap (kernel_vaddr s)" "mem s" 1] s(3,6) by (simp add: heap_bits_def)
  have "vm_inv s" using s(2) by (simp add: system_inv_def)
  then obtain f s' a where "create_page_dir s = Inr (Returns 0xc0100000, s')"
    "process_activate 0xc009e000 (upd_task 0xc009e000 (\<lambda>t. t\<lparr>pgdir := 0xc0100000\<rparr>) s') = Inr a" "vm_inv a"
    "\<forall>v. \<not> in_window v \<longrightarrow> translate a v = (if 0xc0000000 \<le> v then translate s' v else None)"
    using process_address_space [OF _ _ fit, of "0xc009e000"] s(4,5) by (auto simp: lessThan_empty_iff)
  moreover have "\<not> in_window 0x8048000" by (simp add: in_window_def drop_bit_eq_div)
  ultimately show ?thesis using s(1) by auto
qed

end
