(* ===== verification/Process.thy ===== *)
theory Process
  imports Address_Space
begin

text \<open>
  userprog/process.c, the creation of a process. USER_VADDR_START and default_prio belong to the missing header
  process.h, the address of \<open>start_process\<close> to the linker, and \<open>block_desc_init\<close> and the field it initialises are
  nowhere in the repository: they are parameters, and nothing is assumed of what \<open>block_desc_init\<close> does.
\<close>

text \<open>The macro of kernel/global.h.\<close>

definition DIV_ROUND_UP :: "u32 \<Rightarrow> u32 \<Rightarrow> u32" where
  "DIV_ROUND_UP X STEP = (X + STEP - 1) div STEP"

section \<open>Creation\<close>

definition user_bitmap_len :: "u32 \<Rightarrow> u32" where
  "user_bitmap_len user_vaddr_start = (0xc0000000 - user_vaddr_start) div PG_SIZE div 8"

definition create_user_vaddr_bitmap :: "u32 \<Rightarrow> addr \<Rightarrow> 'a mems_scheme \<Rightarrow> err + 'a mems_scheme" where
  "create_user_vaddr_bitmap user_vaddr_start user_prog s =
     (let s = upd_task user_prog (\<lambda>t. t\<lparr>userprog_vaddr := (userprog_vaddr t)\<lparr>vaddr_start := user_vaddr_start\<rparr>\<rparr>) s;
          bitmap_pg_cnt = DIV_ROUND_UP (user_bitmap_len user_vaddr_start) PG_SIZE
      in bindE (get_kernel_pages bitmap_pg_cnt s) (\<lambda>(b, s).
         let s = upd_task user_prog (\<lambda>t. t\<lparr>userprog_vaddr := (userprog_vaddr t)\<lparr>vaddr_bitmap :=
                   (vaddr_bitmap (userprog_vaddr t))\<lparr>bits := b\<rparr>\<rparr>\<rparr>) s;
             s = upd_task user_prog (\<lambda>t. t\<lparr>userprog_vaddr := (userprog_vaddr t)\<lparr>vaddr_bitmap :=
                   (vaddr_bitmap (userprog_vaddr t))\<lparr>btmp_bytes_len := user_bitmap_len user_vaddr_start\<rparr>\<rparr>\<rparr>) s
         in bitmap_init (Some (vaddr_bitmap (userprog_vaddr (tasks s user_prog)))) s))"

text \<open>The part of \<open>process_execute\<close> from the disabling of the interrupts on.\<close>

definition enqueue_process :: "addr \<Rightarrow> 'a mems_scheme \<Rightarrow> err + 'a mems_scheme" where
  "enqueue_process thread s =
     (let (old_status, s) = intr_disable s
      in bindE (elem_find thread_ready_list (general_tag thread) s) (\<lambda>found.
         ASSERT (\<not> found) ''userprog/process.c'' 109 ''process_execute''
           ''!elem_find(&thread_ready_list, &thread->general_tag)''
        (bindE (list_append thread_ready_list (general_tag thread) s) (\<lambda>s.
         bindE (elem_find thread_all_list (all_list_tag thread) s) (\<lambda>found.
         ASSERT (\<not> found) ''userprog/process.c'' 112 ''process_execute''
           ''!elem_find(&thread_all_list, &thread->all_list_tag)''
        (bindE (list_append thread_all_list (all_list_tag thread) s) (\<lambda>s.
         Inr (snd (intr_set_status old_status s)))))))))"

text \<open>What follows the call of \<open>create_page_dir\<close> in \<open>process_execute\<close>.\<close>

definition process_enqueue ::
    "(addr \<Rightarrow> 'a mems_scheme \<Rightarrow> err + 'a mems_scheme) \<Rightarrow> addr \<Rightarrow> addr locked \<times> 'a mems_scheme \<Rightarrow> err + unit locked \<times> 'a mems_scheme" where
  "process_enqueue block_desc_init thread r =
     (case r of
        (Waits c, s) \<Rightarrow> Inr (Waits c, s)
      | (Returns dir, s) \<Rightarrow>
          let s = upd_task thread (\<lambda>t. t\<lparr>pgdir := dir\<rparr>) s
          in bindE (block_desc_init thread s) (\<lambda>s.
             bindE (enqueue_process thread s) (\<lambda>s. Inr (Returns (), s))))"

definition process_prepare ::
    "u32 \<Rightarrow> u32 \<Rightarrow> u32 \<Rightarrow> u32 \<Rightarrow> u8 list \<Rightarrow> 'a mems_scheme \<Rightarrow> err + addr \<times> 'a mems_scheme" where
  "process_prepare user_vaddr_start default_prio start_process_addr filename nm s =
     bindE (get_kernel_pages 1 s) (\<lambda>(thread, s).
     bindE (init_thread thread nm default_prio s) (\<lambda>s.
     bindE (create_user_vaddr_bitmap user_vaddr_start thread s) (\<lambda>s.
     Inr (thread, thread_create thread start_process_addr filename s))))"

definition process_execute ::
    "u32 \<Rightarrow> u32 \<Rightarrow> u32 \<Rightarrow> (addr \<Rightarrow> 'a mems_scheme \<Rightarrow> err + 'a mems_scheme) \<Rightarrow> u32 \<Rightarrow> u8 list \<Rightarrow> 'a mems_scheme \<Rightarrow>
      err + unit locked \<times> 'a mems_scheme" where
  "process_execute user_vaddr_start default_prio start_process_addr block_desc_init filename nm s =
     bindE (process_prepare user_vaddr_start default_prio start_process_addr filename nm s) (\<lambda>(thread, s).
     bindE (create_page_dir s) (process_enqueue block_desc_init thread))"

definition process_execute_resume ::
    "(addr \<Rightarrow> 'a mems_scheme \<Rightarrow> err + 'a mems_scheme) \<Rightarrow> addr \<Rightarrow> down_ctx \<Rightarrow> 'a mems_scheme \<Rightarrow> err + unit locked \<times> 'a mems_scheme" where
  "process_execute_resume block_desc_init thread c s =
     bindE (create_page_dir_resume c s) (process_enqueue block_desc_init thread)"

section \<open>Changes that keep the system consistent\<close>

lemma system_inv_change:
  assumes "system_inv s rs ts" "vm_inv s'" "\<forall>u \<in> set ts. tasks s' u = tasks s u \<and> translate s' u = translate s u"
    "main_thread s' = main_thread s" "\<forall>a \<in> ready_nodes rs \<union> all_nodes ts. elems s' a = elems s a"
  shows "system_inv s' rs ts"
proof -
  have inv: "ready_inv s rs" "all_inv s ts" "set rs \<subseteq> set ts" "main_thread s \<in> set ts" "threads_mapped s ts"
    using assms(1) by (simp_all add: system_inv_def)
  have "is_list (elems s') thread_ready_list (map general_tag rs)" "is_list (elems s') thread_all_list (map all_list_tag ts)"
    using inv(1,2) assms(5) by (auto simp: ready_inv_def all_inv_def intro: lq.holds_frame)
  moreover have "tasks s' u = tasks s u" if "u \<in> set rs" for u using that inv(3) assms(3) by blast
  ultimately have "ready_inv s' rs" "all_inv s' ts" using inv(1,2) by (simp_all add: ready_inv_def all_inv_def kstack_ok_def)
  then show ?thesis using inv assms(2-4) by (simp add: system_inv_def threads_mapped_def)
qed

text \<open>The nodes of the queues lie in no page of the heap but those of the threads in the list of all threads.\<close>

lemma node_pages:
  assumes "system_inv s rs ts" "page_aligned p" "K_HEAP_START \<le> p" "p \<notin> set ts" "a \<in> ready_nodes rs \<union> all_nodes ts"
  shows "a AND 0xfffff000 \<noteq> p"
proof -
  have al: "\<forall>u \<in> set ts. page_aligned u" "\<forall>u \<in> set rs. page_aligned u" "p \<notin> set rs"
    using assms(1,4) by (auto simp: system_inv_def all_inv_def ready_inv_def)
  have "p \<noteq> 0xc0006000" using assms(3) by (auto simp: K_HEAP_START_def)
  then show ?thesis
    using assms(5) queue_nodes_outside [OF assms(2) _ al(1) assms(4)] queue_nodes_outside [OF assms(2) _ al(2,3)] by blast
qed

lemma allocated_objects:
  assumes "allocated P s s'"
  shows "elems s' = zero_in P zero_elem (elems s)" "tasks s' = zero_in P zero_task (tasks s)" "stk s' = zero_in P 0 (stk s)"
    "main_thread s' = main_thread s"
proof -
  obtain m pm where "s' = s\<lparr>mem := m, elems := zero_in P zero_elem (elems s), tasks := zero_in P zero_task (tasks s), stk := zero_in P 0 (stk s), pmem := pm\<rparr>"
    using assms unfolding allocated_def by blast
  then show "elems s' = zero_in P zero_elem (elems s)" "tasks s' = zero_in P zero_task (tasks s)" "stk s' = zero_in P 0 (stk s)"
    "main_thread s' = main_thread s" by simp_all
qed

lemma allocated_system:
  assumes "system_inv s rs ts" "allocated P s s'"
  shows "system_inv s' rs ts" "set ts \<inter> P = {}"
proof -
  note s' = allocated_objects [OF assms(2)]
  have P: "page_aligned p" "K_HEAP_START \<le> p" "translate s p = None" if "p \<in> P" for p using assms(2) that by (simp_all add: allocated_def)
  have ts: "page_aligned u" "0xc0000000 \<le> u" "\<not> in_window u" "translate s u \<noteq> None" if "u \<in> set ts" for u
    using assms(1) that by (auto simp: system_inv_def all_inv_def threads_mapped_def word_le_nat_alt)
  show disj: "set ts \<inter> P = {}" using P(3) ts(4) by fastforce
  have page: "u AND 0xfffff000 = u" if "u \<in> set ts" for u using ts(1) [OF that] aligned_frame_of by (simp add: frame_of_def)
  have "translate s' u = translate s u" if "u \<in> set ts" for u
    using assms(2) ts [OF that] page [OF that] disj that by (auto simp: allocated_def)
  moreover have "tasks s' u = tasks s u" if "u \<in> set ts" for u
    using page [OF that] disj that by (auto simp: s' zero_in_def)
  moreover have "elems s' a = elems s a" if "a \<in> ready_nodes rs \<union> all_nodes ts" for a
  proof -
    have "a AND 0xfffff000 \<notin> P" using node_pages [OF assms(1) P(1,2) _ that] disj by blast
    then show ?thesis by (simp add: s' zero_in_def)
  qed
  moreover have "main_thread s' = main_thread s" by (simp add: s')
  moreover have "vm_inv s'" using assms(2) by (simp add: allocated_def)
  ultimately show "system_inv s' rs ts" using assms(1) by (intro system_inv_change [OF assms(1)]) auto
qed

text \<open>A page that is mapped stays as it is when others are allocated.\<close>

definition own_page :: "'a paging_scheme \<Rightarrow> addr \<Rightarrow> bool" where
  "own_page s p \<longleftrightarrow> page_aligned p \<and> K_HEAP_START \<le> p \<and> \<not> in_window p \<and> translate s p \<noteq> None"

lemma allocated_own: "allocated P s s' \<Longrightarrow> p \<in> P \<Longrightarrow> own_page s' p"
proof -
  assume a: "allocated P s s'" "p \<in> P"
  then obtain f where "shows_frame s' p f" by (auto simp: allocated_def)
  moreover have "page_aligned p" using a by (simp add: allocated_def)
  then have "p AND 0xfffff000 = p" using aligned_frame_of by (simp add: frame_of_def)
  ultimately show ?thesis using a by (auto simp: own_page_def allocated_def shows_frame_def)
qed

lemma allocated_keeps:
  assumes "allocated P s s'" "own_page s p"
  shows "p \<notin> P" "own_page s' p" "tasks s' p = tasks s p" "a AND 0xfffff000 = p \<Longrightarrow> stk s' a = stk s a"
proof -
  show p: "p \<notin> P" using assms by (auto simp: allocated_def own_page_def)
  have page: "p AND 0xfffff000 = p" using assms(2) aligned_frame_of by (simp add: own_page_def frame_of_def)
  have "0xc0000000 \<le> p" using assms(2) by (auto simp: own_page_def K_HEAP_START_def word_le_nat_alt)
  then have "translate s' p = translate s p" using assms p page by (simp add: allocated_def own_page_def)
  then show "own_page s' p" using assms(2) by (simp add: own_page_def)
  note s' = allocated_objects [OF assms(1)]
  show "tasks s' p = tasks s p" "a AND 0xfffff000 = p \<Longrightarrow> stk s' a = stk s a" using p page by (simp_all add: s' zero_in_def)
qed

text \<open>Writing objects in the page of a thread that is in no queue.\<close>

lemma system_inv_own:
  assumes "system_inv s rs ts" "own_page s t" "t \<notin> set ts" "s' = s\<lparr>elems := h, tasks := tk, stk := st\<rparr>"
    "\<forall>u. u \<noteq> t \<longrightarrow> tk u = tasks s u" "\<forall>a. a AND 0xfffff000 \<noteq> t \<longrightarrow> h a = elems s a"
  shows "system_inv s' rs ts" "own_page s' t"
proof -
  have "vm_inv s'" using assms(1) by (simp add: assms(4) vm_inv_objects system_inv_def)
  moreover have "elems s' a = elems s a" if "a \<in> ready_nodes rs \<union> all_nodes ts" for a
    using node_pages [OF assms(1) _ _ assms(3) that] assms(2,4,6) by (simp add: own_page_def)
  moreover have "tasks s' u = tasks s u" if "u \<in> set ts" for u using that assms(3,4,5) by auto
  ultimately show "system_inv s' rs ts"
    by (intro system_inv_change [OF assms(1)]) (simp_all add: assms(4) translate_def)
  show "own_page s' t" using assms(2) by (simp add: own_page_def assms(4) translate_def)
qed

text \<open>Writing bytes above the start of the heap.\<close>

lemma free_idx_above:
  assumes "vm_core s" "b \<in> set (pool_bitmaps s)" "\<forall>a. a < K_HEAP_START \<longrightarrow> m a = mem s a"
  shows "free_idx b m = free_idx b (mem s)"
proof -
  have "bm_used m b i = bm_used (mem s) b i" if "i < bm_bits b" for i
    using vm_core_bitmap [OF assms(1,2)] assms(3) that by (intro bm_used_frame) auto
  then show ?thesis by (auto simp: free_idx_def)
qed

lemma vm_core_above:
  assumes "vm_core s" "\<forall>a. a < K_HEAP_START \<longrightarrow> m a = mem s a"
  shows "vm_core (s\<lparr>mem := m\<rparr>)" "all_free (s\<lparr>mem := m\<rparr>) = all_free s"
proof -
  show free: "all_free (s\<lparr>mem := m\<rparr>) = all_free s"
    using free_idx_above [OF assms(1) _ assms(2)] by (simp add: all_free_def free_frames_def pool_bitmaps_def)
  show "vm_core (s\<lparr>mem := m\<rparr>)" using assms(1) free by (simp add: vm_core_def pool_bitmaps_def)
qed

lemma vm_inv_above:
  assumes "vm_inv s" "\<forall>a. a < K_HEAP_START \<longrightarrow> m a = mem s a"
  shows "vm_inv (s\<lparr>mem := m\<rparr>)"
  using assms vm_core_above(1) [OF _ assms(2)] free_idx_above [OF _ bit_of_in(2) assms(2)]
  by (simp add: vm_inv_def heap_ok_def pool_bitmaps_def translate_def)

lemma first_fit_suffix:
  assumes "free_idx b m = {k..<bm_bits b}" "k + cnt \<le> bm_bits b" "0 < cnt"
  shows "first_fit (\<lambda>i. \<not> bm_used m b i) (bm_bits b) cnt = Some k"
proof -
  have free: "\<not> bm_used m b i \<longleftrightarrow> k \<le> i" if "i < bm_bits b" for i
    using assms(1) that by (auto simp: free_idx_def set_eq_iff)
  have fit: "fits (\<lambda>i. \<not> bm_used m b i) cnt k" using assms(2) free by (simp add: fits_def)
  have "\<not> fits (\<lambda>i. \<not> bm_used m b i) cnt j" if "j < k" for j
    using free [of j] that assms(2,3) by (auto simp: fits_def intro!: exI [of _ 0])
  then show ?thesis
    using assms(2) fit by (auto simp: first_fit_def find_Some_iff intro!: exI [of _ k])
qed

section \<open>A new process\<close>

definition bitmap_pages :: "u32 \<Rightarrow> nat" where
  "bitmap_pages uvs = unat (DIV_ROUND_UP (user_bitmap_len uvs) PG_SIZE)"

definition user_bitmap :: "u32 \<Rightarrow> addr \<Rightarrow> bitmap" where
  "user_bitmap uvs b = \<lparr>btmp_bytes_len = user_bitmap_len uvs, bits = b\<rparr>"

lemma unat_user_bitmap_len: "unat (user_bitmap_len uvs) \<le> 131071"
proof -
  have "unat (user_bitmap_len uvs) = unat (0xc0000000 - uvs) div 4096 div 8"
    by (simp add: user_bitmap_len_def unat_div PG_SIZE_def)
  also have "\<dots> \<le> 4294967295 div 4096 div 8"
    using unat_less_2p32 [of "0xc0000000 - uvs"] by (intro div_le_mono) simp
  finally show ?thesis by simp
qed

lemma bitmap_pages_bounds:
  "bitmap_pages uvs = (unat (user_bitmap_len uvs) + 4095) div 4096" "bitmap_pages uvs \<le> 32"
  "unat (user_bitmap_len uvs) \<le> 4096 * bitmap_pages uvs"
proof -
  let ?l = "unat (user_bitmap_len uvs)"
  have "unat (user_bitmap_len uvs + 4096 - 1) = ?l + 4095"
  proof -
    have e: "user_bitmap_len uvs + 4096 - 1 = user_bitmap_len uvs + 4095" by simp
    show ?thesis unfolding e using unat_user_bitmap_len [of uvs] by (simp add: unat_add_u32)
  qed
  then show eq: "bitmap_pages uvs = (?l + 4095) div 4096"
    by (simp add: bitmap_pages_def DIV_ROUND_UP_def PG_SIZE_def unat_div)
  show "bitmap_pages uvs \<le> 32"
    using unat_user_bitmap_len [of uvs] div_le_mono [of "?l + 4095" 135166 4096] unfolding eq by simp
  show "?l \<le> 4096 * bitmap_pages uvs" unfolding eq by (simp add: algebra_simps)
qed

lemma user_bitmap_bytes:
  assumes "heap_geometry s" "k + bitmap_pages uvs \<le> heap_bits s" "0 < bitmap_pages uvs" "in_bytes (user_bitmap uvs (heap_page s k)) a"
  shows "K_HEAP_START \<le> a" "unat a < unat (heap_page s k) + 4096 * bitmap_pages uvs"
proof -
  let ?b = "heap_page s k" and ?n = "bitmap_pages uvs"
  have k: "k < heap_bits s" using assms(2,3) by simp
  note u = unat_heap_page [OF assms(1)] and f = heap_page_facts [OF assms(1) k]
  have off: "unat (a - ?b) < 4096 * ?n"
    using assms(4) bitmap_pages_bounds(3) [of uvs] by (simp add: in_bytes_def user_bitmap_def)
  have "unat ?b + 4096 * ?n \<le> 0xffc00000"
    using assms(1,2) u [OF k] by (simp add: heap_geometry_def)
  then have "unat ?b + unat (a - ?b) < 4294967296" using off by simp
  then have "unat (?b + (a - ?b)) = unat ?b + unat (a - ?b)" unfolding unat_add_u32 by (rule mod_less)
  then have "unat a = unat ?b + unat (a - ?b)" by simp
  with f(3) off show "K_HEAP_START \<le> a" "unat a < unat ?b + 4096 * ?n" by (simp_all add: word_le_nat_alt K_HEAP_START_def)
qed

text \<open>The kernel addresses outside the pages \<open>P\<close> translate alike.\<close>

definition same_kernel :: "addr set \<Rightarrow> 'a paging_scheme \<Rightarrow> 'a paging_scheme \<Rightarrow> bool" where
  "same_kernel P s s' \<longleftrightarrow>
     (\<forall>v. \<not> in_window v \<and> 0xc0000000 \<le> v \<and> v AND 0xfffff000 \<notin> P \<longrightarrow> translate s' v = translate s v)"

lemma same_kernel_trans: "same_kernel P s t \<Longrightarrow> same_kernel Q t u \<Longrightarrow> same_kernel (P \<union> Q) s u"
  by (simp add: same_kernel_def)

lemma same_kernel_tables: "pmem s' = pmem s \<Longrightarrow> cr3 s' = cr3 s \<Longrightarrow> same_kernel P s s'"
  by (simp add: same_kernel_def translate_def)

lemma same_kernel_allocated: "allocated P s s' \<Longrightarrow> same_kernel P s s'"
  by (simp add: allocated_def same_kernel_def)

text \<open>The control block of a process before it has its directory.\<close>

definition process_task :: "u32 \<Rightarrow> addr \<Rightarrow> addr \<Rightarrow> u8 list \<Rightarrow> u32 \<Rightarrow> task_struct" where
  "process_task uvs t b nm prio = (started_task t nm prio TASK_READY)\<lparr>self_kstack := t + 3664,
     userprog_vaddr := \<lparr>vaddr_bitmap = user_bitmap uvs b, vaddr_start = uvs\<rparr>\<rparr>"

lemma create_user_vaddr_bitmap_run:
  assumes "system_inv s rs ts" "own_page s t" "t \<notin> set ts" "free_idx (vaddr_bitmap (kernel_vaddr s)) (mem s) = {k..<heap_bits s}"
    "k + bitmap_pages uvs \<le> heap_bits s" "bitmap_pages uvs \<le> card (free_idx (bit_of PF_KERNEL s) (mem s))" "0 < user_bitmap_len uvs"
  obtains s' where "create_user_vaddr_bitmap uvs t s = Inr s'" "system_inv s' rs ts" "own_page s' t"
    "s' = s\<lparr>mem := mem s', elems := elems s', tasks := tasks s', stk := stk s', pmem := pmem s'\<rparr>"
    "tasks s' t = (tasks s t)\<lparr>userprog_vaddr := \<lparr>vaddr_bitmap = user_bitmap uvs (heap_page s k), vaddr_start = uvs\<rparr>\<rparr>"
    "\<forall>u. own_page s u \<and> u \<noteq> t \<or> u \<in> set ts \<longrightarrow> tasks s' u = tasks s u"
    "free_idx (user_bitmap uvs (heap_page s k)) (mem s') = {..<bm_bits (user_bitmap uvs (heap_page s k))}"
    "free_idx (vaddr_bitmap (kernel_vaddr s)) (mem s') = {k + bitmap_pages uvs..<heap_bits s}"
    "card (free_idx (bit_of PF_KERNEL s) (mem s')) + bitmap_pages uvs = card (free_idx (bit_of PF_KERNEL s) (mem s))"
    "free_idx (bit_of PF_USER s) (mem s') = free_idx (bit_of PF_USER s) (mem s)"
    "own_page s' (heap_page s k)" "same_kernel (heap_page s ` {k..<k + bitmap_pages uvs}) s s'"
proof -
  let ?n = "bitmap_pages uvs" and ?c = "DIV_ROUND_UP (user_bitmap_len uvs) PG_SIZE" and ?b = "heap_page s k"
  let ?P = "heap_page s ` {k..<k + ?n}" and ?ub = "user_bitmap uvs (heap_page s k)"
  have n: "0 < ?n" "?n \<le> 32" using bitmap_pages_bounds [of uvs] assms(7) by (simp_all add: word_less_nat_alt)
  have inv: "vm_inv s" using assms(1) by (simp add: system_inv_def)
  then have geo: "heap_geometry s" by (simp add: vm_inv_def heap_ok_geometry)
  define u where "u = upd_task t (\<lambda>t. t\<lparr>userprog_vaddr := (userprog_vaddr t)\<lparr>vaddr_start := uvs\<rparr>\<rparr>) s"
  have u: "u = s\<lparr>elems := elems s, tasks := tasks u, stk := stk s\<rparr>" "\<forall>v. v \<noteq> t \<longrightarrow> tasks u v = tasks s v"
    "tasks u t = (tasks s t)\<lparr>userprog_vaddr := (userprog_vaddr (tasks s t))\<lparr>vaddr_start := uvs\<rparr>\<rparr>"
    by (simp_all add: u_def upd_task_def)
  have u2: "system_inv u rs ts" "own_page u t" using system_inv_own [OF assms(1-3) u(1,2)] by simp_all
  have same: "kernel_vaddr u = kernel_vaddr s" "mem u = mem s" "heap_bits u = heap_bits s" "heap_page u = heap_page s"
    "bit_of pf u = bit_of pf s" "pool_bitmaps u = pool_bitmaps s" for pf
    by (simp_all add: u_def upd_task_def heap_bits_def heap_page_def fun_eq_iff bit_of_def mem_pool_def pool_bitmaps_def split: pool_flags.split)
  have fit: "first_fit (\<lambda>i. \<not> bm_used (mem u) (vaddr_bitmap (kernel_vaddr u)) i) (heap_bits u) (unat ?c) = Some k"
    using first_fit_suffix [of "vaddr_bitmap (kernel_vaddr s)" "mem s" k ?n] assms(4,5) n by (simp add: same heap_bits_def bitmap_pages_def)
  have c: "0 < ?c" "?c < 3840" using n by (simp_all add: word_less_nat_alt bitmap_pages_def)
  have inv_u: "vm_inv u" using u2(1) by (simp add: system_inv_def)
  have cc: "unat ?c \<le> card (free_idx (bit_of PF_KERNEL u) (mem u))" using assms(6) by (simp add: same bitmap_pages_def)
  obtain v where v: "get_kernel_pages ?c u = Inr (?b, v)" "allocated ?P u v"
    "card (free_idx (bit_of PF_KERNEL s) (mem v)) + ?n = card (free_idx (bit_of PF_KERNEL s) (mem s))"
    "free_idx (bit_of PF_USER s) (mem v) = free_idx (bit_of PF_USER s) (mem s)"
    "free_idx (vaddr_bitmap (kernel_vaddr s)) (mem v) = free_idx (vaddr_bitmap (kernel_vaddr s)) (mem s) - {k..<k + ?n}"
    by (rule get_kernel_pages_allocated [OF inv_u c cc fit]) (simp add: same bitmap_pages_def)
  note keep = allocated_keeps [OF v(2) u2(2)]
  have vs: "system_inv v rs ts" "set ts \<inter> ?P = {}" using allocated_system [OF u2(1) v(2)] by simp_all
  define w where "w = upd_task t (\<lambda>t. t\<lparr>userprog_vaddr := (userprog_vaddr t)\<lparr>vaddr_bitmap := ?ub\<rparr>\<rparr>) v"
  have w: "w = v\<lparr>elems := elems v, tasks := tasks w, stk := stk v\<rparr>" "\<forall>x. x \<noteq> t \<longrightarrow> tasks w x = tasks v x"
    by (simp_all add: w_def upd_task_def)
  have w2: "system_inv w rs ts" "own_page w t" using system_inv_own [OF vs(1) keep(2) assms(3) w] by simp_all
  have wt: "tasks w t = (tasks s t)\<lparr>userprog_vaddr := \<lparr>vaddr_bitmap = ?ub, vaddr_start = uvs\<rparr>\<rparr>"
    using keep(3) u(3) by (simp add: w_def upd_task_def)
  have wf: "bm_wf ?ub" using unat_user_bitmap_len [of uvs] by (simp add: bm_wf_def bm_bits_def user_bitmap_def)
  have "bits ?ub \<noteq> NULL" using heap_page_facts(2) [OF geo, of k] assms(5) n by (simp add: user_bitmap_def)
  then obtain m where m: "bitmap_init (Some ?ub) w = Inr (w\<lparr>mem := m\<rparr>)" "\<forall>i < bm_bits ?ub. \<not> bm_used m ?ub i"
    "\<forall>a. \<not> in_bytes ?ub a \<longrightarrow> m a = mem w a"
    using bitmap_init_clears [OF _ wf, of w] by blast
  have above: "\<forall>a. a < K_HEAP_START \<longrightarrow> m a = mem w a"
    using m(3) user_bitmap_bytes(1) [OF geo assms(5) n(1)] by (auto simp: not_le [symmetric])
  let ?s' = "w\<lparr>mem := m\<rparr>"
  have inv': "vm_inv ?s'" using vm_inv_above [OF _ above] w2(1) by (simp add: system_inv_def)
  have pools: "pool_bitmaps w = pool_bitmaps s"
    using allocated_upd [OF v(2)] by (auto simp: w_def upd_task_def pool_bitmaps_def u_def)
  have "vm_core w" using w2(1) by (simp add: system_inv_def vm_inv_def)
  then have free: "free_idx b m = free_idx b (mem v)" if "b \<in> set (pool_bitmaps s)" for b
    using free_idx_above [OF _ _ above, of b] that by (simp add: pools) (simp add: w_def upd_task_def)
  have bm: "(x :: bitmap)\<lparr>bits := y, btmp_bytes_len := z\<rparr> = \<lparr>btmp_bytes_len = z, bits = y\<rparr>" for x y z by (cases x) simp
  show thesis
  proof
    have "upd_task t (\<lambda>t. t\<lparr>userprog_vaddr := (userprog_vaddr t)\<lparr>vaddr_bitmap := (vaddr_bitmap (userprog_vaddr t))\<lparr>btmp_bytes_len := user_bitmap_len uvs\<rparr>\<rparr>\<rparr>)
        (upd_task t (\<lambda>t. t\<lparr>userprog_vaddr := (userprog_vaddr t)\<lparr>vaddr_bitmap := (vaddr_bitmap (userprog_vaddr t))\<lparr>bits := ?b\<rparr>\<rparr>\<rparr>) v) = w"
      by (simp add: w_def upd_task_def user_bitmap_def bm)
    then show "create_user_vaddr_bitmap uvs t s = Inr ?s'"
      unfolding create_user_vaddr_bitmap_def Let_def u_def [symmetric] using v(1) m(1) wt by simp
    show "system_inv ?s' rs ts"
      by (rule system_inv_change [OF w2(1) inv']) (simp_all add: translate_def)
    show "own_page ?s' t" using w2(2) by (simp add: own_page_def translate_def)
    show "?s' = s\<lparr>mem := mem ?s', elems := elems ?s', tasks := tasks ?s', stk := stk ?s', pmem := pmem ?s'\<rparr>"
      using allocated_upd [OF v(2)] by (auto simp: w_def u_def upd_task_def)
    show "tasks ?s' t = (tasks s t)\<lparr>userprog_vaddr := \<lparr>vaddr_bitmap = ?ub, vaddr_start = uvs\<rparr>\<rparr>" using wt by simp
    show "\<forall>x. own_page s x \<and> x \<noteq> t \<or> x \<in> set ts \<longrightarrow> tasks ?s' x = tasks s x"
    proof (intro allI impI)
      fix x assume x: "own_page s x \<and> x \<noteq> t \<or> x \<in> set ts"
      then have ne: "x \<noteq> t" using assms(3) by auto
      have "tasks v x = tasks u x"
      proof (cases "x \<in> set ts")
        case True
        then have "page_aligned x" "x \<notin> ?P" using u2(1) vs(2) by (auto simp: system_inv_def all_inv_def)
        then have "x AND 0xfffff000 \<notin> ?P" using aligned_frame_of by (simp add: frame_of_def)
        then show ?thesis using allocated_objects(2) [OF v(2)] by (simp add: zero_in_def)
      next
        case False
        then have "own_page u x" using x by (simp add: u_def upd_task_def own_page_def translate_def)
        then show ?thesis using allocated_keeps(3) [OF v(2)] by blast
      qed
      then show "tasks ?s' x = tasks s x" using w(2) u(2) ne by simp
    qed
    show "free_idx ?ub (mem ?s') = {..<bm_bits ?ub}" using m(2) by (auto simp: free_idx_def)
    show "free_idx (vaddr_bitmap (kernel_vaddr s)) (mem ?s') = {k + ?n..<heap_bits s}"
      using free [OF bit_of_in(2)] v(5) assms(4,5) by auto
    show "card (free_idx (bit_of PF_KERNEL s) (mem ?s')) + ?n = card (free_idx (bit_of PF_KERNEL s) (mem s))"
      using free [OF bit_of_in(1)] v(3) by simp
    show "free_idx (bit_of PF_USER s) (mem ?s') = free_idx (bit_of PF_USER s) (mem s)" using free [OF bit_of_in(1)] v(4) by simp
    have "own_page v ?b" using allocated_own [OF v(2), of ?b] n(1) by simp
    then show "own_page ?s' ?b" by (simp add: w_def upd_task_def own_page_def translate_def)
    show "same_kernel ?P s ?s'"
      using same_kernel_allocated [OF v(2)] by (simp add: same_kernel_def translate_def w_def u_def upd_task_def)
  qed
qed

lemma process_prepare_run:
  assumes "system_inv s rs ts" "free_idx (vaddr_bitmap (kernel_vaddr s)) (mem s) = {k..<heap_bits s}"
    "k + 1 + bitmap_pages uvs \<le> heap_bits s" "1 + bitmap_pages uvs \<le> card (free_idx (bit_of PF_KERNEL s) (mem s))"
    "0 < user_bitmap_len uvs" "length nm \<le> 16"
  defines "t \<equiv> heap_page s k" and "b \<equiv> heap_page s (k + 1)"
  obtains s' where "process_prepare uvs prio f a nm s = Inr (t, s')" "system_inv s' rs ts" "own_page s' t" "t \<notin> set ts"
    "s' = s\<lparr>mem := mem s', elems := elems s', tasks := tasks s', stk := stk s', pmem := pmem s'\<rparr>"
    "tasks s' t = process_task uvs t b nm prio" "\<forall>u \<in> set ts. tasks s' u = tasks s u" "entry_frame s' t f a"
    "free_idx (user_bitmap uvs b) (mem s') = {..<bm_bits (user_bitmap uvs b)}"
    "free_idx (vaddr_bitmap (kernel_vaddr s)) (mem s') = {k + 1 + bitmap_pages uvs..<heap_bits s}"
    "card (free_idx (bit_of PF_KERNEL s) (mem s')) + bitmap_pages uvs + 1 = card (free_idx (bit_of PF_KERNEL s) (mem s))"
    "free_idx (bit_of PF_USER s) (mem s') = free_idx (bit_of PF_USER s) (mem s)"
    "same_kernel (heap_page s ` {k..<k + 1 + bitmap_pages uvs}) s s'"
proof -
  have inv: "vm_inv s" and main: "main_thread s \<in> set ts" using assms(1) by (simp_all add: system_inv_def)
  then have geo: "heap_geometry s" by (simp add: vm_inv_def heap_ok_geometry)
  have fit: "first_fit (\<lambda>i. \<not> bm_used (mem s) (vaddr_bitmap (kernel_vaddr s)) i) (heap_bits s) (unat (1 :: u32)) = Some k"
    using first_fit_suffix [of "vaddr_bitmap (kernel_vaddr s)" "mem s" k 1] assms(2,3) by (simp add: heap_bits_def)
  have c: "unat (1 :: u32) \<le> card (free_idx (bit_of PF_KERNEL s) (mem s))" using assms(4) by simp
  obtain s1 where s1: "get_kernel_pages 1 s = Inr (t, s1)" "allocated {t} s s1"
    "card (free_idx (bit_of PF_KERNEL s) (mem s1)) + 1 = card (free_idx (bit_of PF_KERNEL s) (mem s))"
    "free_idx (bit_of PF_USER s) (mem s1) = free_idx (bit_of PF_USER s) (mem s)"
    "free_idx (vaddr_bitmap (kernel_vaddr s)) (mem s1) = {k..<heap_bits s} - {k}"
    by (rule get_kernel_pages_allocated [OF inv _ _ c fit]) (simp_all add: t_def assms(2))
  note al = allocated_system [OF assms(1) s1(2)] allocated_objects [OF s1(2)]
  have own1: "own_page s1 t" using allocated_own [OF s1(2)] by simp
  then have ta: "page_aligned t" "t \<noteq> NULL" by (auto simp: own_page_def K_HEAP_START_def)
  have new: "t \<notin> set ts" using al(2) by simp
  define h where "h = (elems s1)(general_tag t := \<lparr>le_prev = NULL, le_next = NULL\<rparr>, all_list_tag t := \<lparr>le_prev = NULL, le_next = NULL\<rparr>)"
  define s2 where "s2 = s1\<lparr>elems := h, tasks := (tasks s1)(t := started_task t nm prio TASK_READY), stk := stk s1\<rparr>"
  have "t \<noteq> main_thread s1" using al(6) main new by auto
  then have i: "init_thread t nm prio s1 = Inr s2"
    using init_thread_eq [OF ta(2) assms(6), of prio s1] by (simp add: s2_def h_def)
  have "\<forall>x. x AND 0xfffff000 \<noteq> t \<longrightarrow> h x = elems s1 x" using tag_page [OF ta(1)] by (auto simp: h_def)
  then have sys2: "system_inv s2 rs ts" "own_page s2 t"
    using system_inv_own [OF al(1) own1 new s2_def] by simp_all
  have up1: "kernel_vaddr s1 = kernel_vaddr s" "kernel_pool s1 = kernel_pool s" "user_pool s1 = user_pool s" using allocated_upd [OF s1(2)] by auto
  have same: "kernel_vaddr s2 = kernel_vaddr s" "mem s2 = mem s1" "heap_bits s2 = heap_bits s" "heap_page s2 = heap_page s"
    "bit_of pf s2 = bit_of pf s" for pf
    using up1 by (simp_all add: s2_def heap_bits_def heap_page_def fun_eq_iff bit_of_def mem_pool_def split: pool_flags.split)
  have f2: "free_idx (vaddr_bitmap (kernel_vaddr s2)) (mem s2) = {k + 1..<heap_bits s2}" "k + 1 + bitmap_pages uvs \<le> heap_bits s2"
    "bitmap_pages uvs \<le> card (free_idx (bit_of PF_KERNEL s2) (mem s2))"
  proof -
    have "{k..<heap_bits s} - {k} = {k + 1..<heap_bits s}" by auto
    then show "free_idx (vaddr_bitmap (kernel_vaddr s2)) (mem s2) = {k + 1..<heap_bits s2}" using s1(5) by (simp only: same)
  qed (use s1(3) assms(3,4) in \<open>simp_all only: same\<close>)
  obtain s3 where s3: "create_user_vaddr_bitmap uvs t s2 = Inr s3" "system_inv s3 rs ts" "own_page s3 t"
    "s3 = s2\<lparr>mem := mem s3, elems := elems s3, tasks := tasks s3, stk := stk s3, pmem := pmem s3\<rparr>"
    "tasks s3 t = (tasks s2 t)\<lparr>userprog_vaddr := \<lparr>vaddr_bitmap = user_bitmap uvs b, vaddr_start = uvs\<rparr>\<rparr>"
    "\<forall>u. own_page s2 u \<and> u \<noteq> t \<or> u \<in> set ts \<longrightarrow> tasks s3 u = tasks s2 u"
    "free_idx (user_bitmap uvs b) (mem s3) = {..<bm_bits (user_bitmap uvs b)}"
    "free_idx (vaddr_bitmap (kernel_vaddr s)) (mem s3) = {k + 1 + bitmap_pages uvs..<heap_bits s}"
    "card (free_idx (bit_of PF_KERNEL s) (mem s3)) + bitmap_pages uvs = card (free_idx (bit_of PF_KERNEL s) (mem s1))"
    "free_idx (bit_of PF_USER s) (mem s3) = free_idx (bit_of PF_USER s) (mem s1)"
    "same_kernel (heap_page s ` {k + 1..<k + 1 + bitmap_pages uvs}) s2 s3"
    by (rule create_user_vaddr_bitmap_run [OF sys2 new f2 assms(5)]) (simp_all add: same b_def)
  obtain tk st where c: "thread_create t f a s3 = s3\<lparr>tasks := tk, stk := st\<rparr>" "\<forall>u. u \<noteq> t \<longrightarrow> tk u = tasks s3 u"
    "tk t = (tasks s3 t)\<lparr>self_kstack := self_kstack (tasks s3 t) - 432\<rparr>"
    using thread_create_fields [of t f a s3] by blast
  let ?s' = "s3\<lparr>elems := elems s3, tasks := tk, stk := st\<rparr>"
  have c1: "thread_create t f a s3 = ?s'" using c(1) by simp
  have sys: "system_inv ?s' rs ts" "own_page ?s' t" by (rule system_inv_own [OF s3(2,3) new refl c(2)], simp)+
  show thesis
  proof
    show "process_prepare uvs prio f a nm s = Inr (t, ?s')"
      using s1(1) i s3(1) c1 by (simp add: process_prepare_def)
    show "tasks ?s' t = process_task uvs t b nm prio"
      using c(3) s3(5) by (simp add: s2_def process_task_def started_task_def PG_SIZE_def)
    show "entry_frame ?s' t f a"
      using thread_create_entry_frame [of s3 t f a] s3(5) unfolding c1 by (simp add: s2_def started_task_def)
    show "?s' = s\<lparr>mem := mem ?s', elems := elems ?s', tasks := tasks ?s', stk := stk ?s', pmem := pmem ?s'\<rparr>"
      using allocated_upd [OF s1(2)] by (subst s3(4)) (auto simp: s2_def)
    show "\<forall>u \<in> set ts. tasks ?s' u = tasks s u"
    proof
      fix u assume u: "u \<in> set ts"
      then have "page_aligned u" "u \<noteq> t" using assms(1) new by (auto simp: system_inv_def all_inv_def)
      then have "u AND 0xfffff000 \<noteq> t" using aligned_frame_of by (simp add: frame_of_def)
      then have "tasks s1 u = tasks s u" by (simp add: al(4) zero_in_def)
      then show "tasks ?s' u = tasks s u" using c(2) s3(6) u \<open>u \<noteq> t\<close> by (simp add: s2_def)
    qed
    have "{t} \<union> {} \<union> heap_page s ` {k + 1..<k + 1 + bitmap_pages uvs} \<union> {} = heap_page s ` {k..<k + 1 + bitmap_pages uvs}"
      by (auto simp: t_def image_iff) (metis atLeastLessThan_iff le_neq_implies_less Suc_leI)
    moreover have "same_kernel {} s1 s2" "same_kernel {} s3 ?s'" by (simp_all add: same_kernel_tables s2_def)
    ultimately show "same_kernel (heap_page s ` {k..<k + 1 + bitmap_pages uvs}) s ?s'"
      using same_kernel_trans [OF same_kernel_trans [OF same_kernel_trans [OF same_kernel_allocated [OF s1(2)]] s3(11)]] by metis
  qed (use sys new s3(7-10) s1(3,4) in simp_all)
qed

lemma enqueue_system:
  assumes "system_inv s rs ts" "own_page s t" "t \<notin> set ts" "kstack_ok s t" "status (tasks s t) = TASK_READY"
  obtains h1 h where "elem_find thread_ready_list (general_tag t) s = Inr False"
    "list_append thread_ready_list (general_tag t) s = Inr (s\<lparr>elems := h1\<rparr>)"
    "elem_find thread_all_list (all_list_tag t) (s\<lparr>elems := h1\<rparr>) = Inr False"
    "list_append thread_all_list (all_list_tag t) (s\<lparr>elems := h1\<rparr>) = Inr (s\<lparr>elems := h\<rparr>)"
    "system_inv (s\<lparr>elems := h\<rparr>) (rs @ [t]) (ts @ [t])"
proof -
  have inv: "vm_inv s" "ready_inv s rs" "all_inv s ts" "set rs \<subseteq> set ts" "main_thread s \<in> set ts" "threads_mapped s ts"
    using assms(1) by (simp_all add: system_inv_def)
  have t: "page_aligned t" "K_HEAP_START \<le> t" "\<not> in_window t" "translate s t \<noteq> None" using assms(2) by (simp_all add: own_page_def)
  have al: "\<forall>u \<in> set rs \<union> set ts. page_aligned u" using inv(2,3) by (auto simp: ready_inv_def all_inv_def)
  have out: "general_tag t \<notin> ready_nodes rs \<union> all_nodes ts" "all_list_tag t \<notin> ready_nodes rs \<union> all_nodes ts"
    using node_pages [OF assms(1) t(1,2) assms(3)] tag_page [OF t(1)] by blast+
  have l: "is_list (elems s) thread_ready_list (map general_tag rs)" "is_list (elems s) thread_all_list (map all_list_tag ts)"
    using inv(2,3) by (simp_all add: ready_inv_def all_inv_def)
  obtain h1 h where e: "elem_find thread_ready_list (general_tag t) s = Inr False"
    "elem_find thread_all_list (all_list_tag t) (s\<lparr>elems := h1\<rparr>) = Inr False"
    "list_append thread_ready_list (general_tag t) s = Inr (s\<lparr>elems := h1\<rparr>)"
    "list_append thread_all_list (all_list_tag t) (s\<lparr>elems := h1\<rparr>) = Inr (s\<lparr>elems := h\<rparr>)"
    "is_list h thread_ready_list (map general_tag (rs @ [t]))" "is_list h thread_all_list (map all_list_tag (ts @ [t]))"
    using enqueue_both [OF l out t(1) al] by metis
  have "ready_inv (s\<lparr>elems := h\<rparr>) (rs @ [t])"
    using e(5) t(1) assms(4,5) by (intro ready_inv_snoc [OF inv(2)]) (simp_all add: kstack_ok_def)
  moreover have "threads_mapped (s\<lparr>elems := h\<rparr>) (ts @ [t])"
    using inv(6) t by (auto simp: threads_mapped_def translate_def word_le_nat_alt K_HEAP_START_def)
  ultimately have "system_inv (s\<lparr>elems := h\<rparr>) (rs @ [t]) (ts @ [t])"
    using inv(1,3-5) e(6) t(1) by (auto simp: system_inv_def vm_inv_objects all_inv_def)
  with that e(1-4) show thesis by blast
qed

lemma entry_frame_words:
  "entry_frame s t fn a \<longleftrightarrow> self_kstack (tasks s t) = t + 3664 \<and> stk s (t + 3664) = 0 \<and> stk s (t + 3668) = 0 \<and> stk s (t + 3672) = 0 \<and>
     stk s (t + 3676) = 0 \<and> stk s (t + 3680) = link_kernel_thread s \<and> stk s (t + 3688) = fn \<and> stk s (t + 3692) = a"
  by (cases "self_kstack (tasks s t) = t + 3664") (simp_all add: entry_frame_def saved_ctx_def Let_def add.commute [of _ t])

lemma process_dir_run:
  assumes "system_inv s rs ts" "own_page s t" "t \<notin> set ts" "entry_frame s t fn a" "free_idx (bit_of PF_KERNEL s) (mem s) \<noteq> {}"
    "free_idx (vaddr_bitmap (kernel_vaddr s)) (mem s) = {k..<heap_bits s}" "k < heap_bits s"
  obtains f s' where "create_page_dir s = Inr (Returns (heap_page s k), s')" "system_inv s' rs ts" "own_page s' t" "entry_frame s' t fn a"
    "tasks s' t = tasks s t" "\<forall>u \<in> set ts. tasks s' u = tasks s u" "eflags s' = eflags s"
    "\<forall>a. K_HEAP_START \<le> a \<and> a AND 0xfffff000 \<noteq> heap_page s k \<longrightarrow> mem s' a = mem s a"
    "addr_v2p (heap_page s k) s' = Inr f" "vm_inv (s'\<lparr>cr3 := f\<rparr>)" "shares_kernel (pmem s') (cr3 s') f"
    "same_kernel {heap_page s k} s s'"
proof -
  let ?d = "heap_page s k"
  have inv: "vm_inv s" using assms(1) by (simp add: system_inv_def)
  have fit: "first_fit (\<lambda>i. \<not> bm_used (mem s) (vaddr_bitmap (kernel_vaddr s)) i) (heap_bits s) 1 = Some k"
    using first_fit_suffix [of "vaddr_bitmap (kernel_vaddr s)" "mem s" k 1] assms(6,7) by (simp add: heap_bits_def)
  obtain u f s' where r: "create_page_dir s = Inr (Returns ?d, s')" "allocated {?d} s u"
    "s' = u\<lparr>pmem := pmem s'\<rparr>" "\<forall>w. translate s' w = translate u w" "vm_inv s'" "shows_frame s' ?d f" "not_table s' f"
    "shares_kernel (pmem s') (cr3 s') f"
    using create_page_dir_run [OF inv assms(5) fit] by metis
  have same: "tasks s' = tasks u" "elems s' = elems u" "stk s' = stk u" "main_thread s' = main_thread u" "eflags s' = eflags u"
    "link_kernel_thread s' = link_kernel_thread u" by (subst r(3), simp)+
  note al = allocated_system [OF assms(1) r(2)] allocated_objects [OF r(2)]
  have up: "eflags u = eflags s" "link_kernel_thread u = link_kernel_thread s" using allocated_upd [OF r(2)] by auto
  note keep = allocated_keeps [OF r(2) assms(2)]
  have "self_mapped (pmem s') (cr3 s')" using r(5) by (simp add: vm_inv_def vm_core_def tables_ok_def)
  then have v2p: "addr_v2p ?d s' = Inr f" using r(6) by (rule shows_frame_v2p)
  have page: "(t + c) AND 0xfffff000 = t" if "unat c < 4096" for c
    using assms(2) that by (intro page_mask_in_page) (simp_all add: own_page_def)
  have "entry_frame s' t fn a"
    using assms(4) keep(3) keep(4) [OF page [of 3664]] keep(4) [OF page [of 3668]] keep(4) [OF page [of 3672]] keep(4) [OF page [of 3676]]
      keep(4) [OF page [of 3680]] keep(4) [OF page [of 3688]] keep(4) [OF page [of 3692]]
    by (simp add: entry_frame_words same up)
  moreover have "tasks u x = tasks s x" if "x \<in> set ts" for x
  proof -
    have "page_aligned x" "x \<noteq> ?d" using al(2) assms(1) that by (auto simp: system_inv_def all_inv_def)
    then have "x AND 0xfffff000 \<noteq> ?d" using aligned_frame_of by (simp add: frame_of_def)
    then show ?thesis by (simp add: al(4) zero_in_def)
  qed
  moreover have "system_inv s' rs ts" by (rule system_inv_change [OF al(1) r(5)]) (simp_all add: same r(4))
  moreover have "own_page s' t" using keep(2) r(4) by (simp add: own_page_def)
  moreover have "mem s' = mem u" by (subst r(3)) simp
  then have "\<forall>a. K_HEAP_START \<le> a \<and> a AND 0xfffff000 \<noteq> ?d \<longrightarrow> mem s' a = mem s a" using r(2) by (simp add: allocated_def)
  moreover have "vm_inv (s'\<lparr>cr3 := f\<rparr>)" using shares_kernel_vm_inv [OF r(5,8,7) shows_frame_mapped [OF r(6)]] .
  moreover have "same_kernel {?d} s s'" using same_kernel_allocated [OF r(2)] r(4) by (simp add: same_kernel_def)
  ultimately show thesis using that [where f = f and s' = s'] r(1,8) v2p keep(3) up(1) by (simp add: same)
qed

lemma user_bitmap_kept:
  assumes "heap_geometry s" "k + bitmap_pages uvs < heap_bits s" "0 < bitmap_pages uvs"
    "\<forall>a. K_HEAP_START \<le> a \<and> a AND 0xfffff000 \<noteq> heap_page s (k + bitmap_pages uvs) \<longrightarrow> m' a = m a"
  shows "free_idx (user_bitmap uvs (heap_page s k)) m' = free_idx (user_bitmap uvs (heap_page s k)) m"
proof -
  let ?ub = "user_bitmap uvs (heap_page s k)" and ?n = "bitmap_pages uvs"
  have wf: "bm_wf ?ub" using unat_user_bitmap_len [of uvs] by (simp add: bm_wf_def bm_bits_def user_bitmap_def)
  have "m' a = m a" if a: "in_bytes ?ub a" for a
  proof -
    note b = user_bitmap_bytes [OF assms(1) _ assms(3) a]
    have "unat (heap_page s (k + ?n)) = unat (heap_page s k) + 4096 * ?n"
      using unat_heap_page [OF assms(1), of k] unat_heap_page [OF assms(1), of "k + ?n"] assms(2) by simp
    then have "a AND 0xfffff000 \<noteq> heap_page s (k + ?n)"
      using b(2) assms(2) unat_in_page_mono [of a] by auto
    then show ?thesis using assms(2,4) b(1) by simp
  qed
  then have "bm_used m' ?ub i = bm_used m ?ub i" if "i < bm_bits ?ub" for i
    using that wf by (intro bm_used_frame) auto
  then show ?thesis by (auto simp: free_idx_def)
qed

text \<open>The last part, from any consistent state in which the control block is ready and in no queue.\<close>

lemma enqueue_process_run:
  assumes "system_inv u rs ts" "own_page u t" "t \<notin> set ts" "entry_frame u t sp filename" "status (tasks u t) = TASK_READY"
  obtains h where "enqueue_process t u = Inr (u\<lparr>elems := h\<rparr>)" "system_inv (u\<lparr>elems := h\<rparr>) (rs @ [t]) (ts @ [t])"
    "entry_frame (u\<lparr>elems := h\<rparr>) t sp filename"
proof -
  let ?v = "u\<lparr>eflags := eflags u AND NOT EFLAGS_IF\<rparr>"
  have sys: "system_inv ?v rs ts" by (rule system_inv_frame [OF assms(1)]) simp_all
  have own: "own_page ?v t" using assms(2) by (simp add: own_page_def translate_def)
  have k: "kstack_ok ?v t" using entry_frame_kstack [OF assms(4)] by simp
  have st: "status (tasks ?v t) = TASK_READY" using assms(5) by simp
  obtain h1 h where e: "elem_find thread_ready_list (general_tag t) ?v = Inr False"
    "list_append thread_ready_list (general_tag t) ?v = Inr (?v\<lparr>elems := h1\<rparr>)"
    "elem_find thread_all_list (all_list_tag t) (?v\<lparr>elems := h1\<rparr>) = Inr False"
    "list_append thread_all_list (all_list_tag t) (?v\<lparr>elems := h1\<rparr>) = Inr (?v\<lparr>elems := h\<rparr>)"
    "system_inv (?v\<lparr>elems := h\<rparr>) (rs @ [t]) (ts @ [t])"
    using enqueue_system [OF sys own assms(3) k st] .
  have "snd (intr_set_status (intr_get_status u) (?v\<lparr>elems := h\<rparr>)) = (?v\<lparr>elems := h\<rparr>)\<lparr>eflags := eflags u\<rparr>"
    by (rule intr_restore) simp
  then have "enqueue_process t u = Inr (u\<lparr>elems := h\<rparr>)"
    using e(1-4) by (simp add: enqueue_process_def intr_disable_eq)
  moreover have "system_inv (u\<lparr>elems := h\<rparr>) (rs @ [t]) (ts @ [t])" by (rule system_inv_frame [OF e(5)]) simp_all
  moreover have "entry_frame (u\<lparr>elems := h\<rparr>) t sp filename" using assms(4) by (simp add: entry_frame_words)
  ultimately show thesis by (rule that)
qed

section \<open>Properties\<close>

text \<open>
  C8: \<open>process_execute\<close>, with nothing but the upper part of the heap free and enough frames, makes a process. Whatever
  \<open>block_desc_init\<close> does, it is called in a state with a new control block that is ready and in no queue, whose first
  switch enters \<open>start_process\<close> with the program as its argument, with an empty bitmap of user addresses and a page
  directory of its own; the other control blocks, the queues and the interrupt flag are as before; under the new directory
  the kernel addresses translate as they did before the call, but for the new pages, no user address is mapped and the memory
  is consistent. From any state that is consistent, the rest appends the control block to both queues, and changes nothing else.
\<close>

theorem process_execute_creates:
  fixes s :: "'a mems_scheme"
  assumes "system_inv s rs ts" "free_idx (vaddr_bitmap (kernel_vaddr s)) (mem s) = {k..<heap_bits s}"
    "k + 2 + bitmap_pages uvs \<le> heap_bits s" "2 + bitmap_pages uvs \<le> card (free_idx (bit_of PF_KERNEL s) (mem s))"
    "0 < user_bitmap_len uvs" "length nm \<le> 16"
    "t = heap_page s k" "b = heap_page s (k + 1)" "d = heap_page s (k + 1 + bitmap_pages uvs)"
  shows "\<exists>f q. (\<forall>block_desc_init. process_execute uvs prio sp block_desc_init filename nm s =
        bindE (block_desc_init t q) (\<lambda>s. bindE (enqueue_process t s) (\<lambda>s. Inr (Returns (), s)))) \<and>
    system_inv q rs ts \<and> own_page q t \<and> t \<notin> set ts \<and> entry_frame q t sp filename \<and>
    tasks q t = (process_task uvs t b nm prio)\<lparr>pgdir := d\<rparr> \<and> (\<forall>u \<in> set ts. tasks q u = tasks s u) \<and>
    free_idx (user_bitmap uvs b) (mem q) = {..<bm_bits (user_bitmap uvs b)} \<and> eflags q = eflags s \<and>
    addr_v2p d q = Inr f \<and> vm_inv (q\<lparr>cr3 := f\<rparr>) \<and>
    (\<forall>v. \<not> in_window v \<longrightarrow> walk (pmem q) f v = (if 0xc0000000 \<le> v then translate q v else None)) \<and>
    same_kernel (heap_page s ` {k..<k + 2 + bitmap_pages uvs}) s q \<and>
    (\<forall>u :: 'a mems_scheme. system_inv u rs ts \<and> own_page u t \<and> entry_frame u t sp filename \<and> status (tasks u t) = TASK_READY \<longrightarrow>
      (\<exists>h. enqueue_process t u = Inr (u\<lparr>elems := h\<rparr>) \<and> system_inv (u\<lparr>elems := h\<rparr>) (rs @ [t]) (ts @ [t]) \<and>
        entry_frame (u\<lparr>elems := h\<rparr>) t sp filename))"
proof -
  let ?n = "bitmap_pages uvs"
  have inv: "vm_inv s" using assms(1) by (simp add: system_inv_def)
  then have geo: "heap_geometry s" by (simp add: vm_inv_def heap_ok_geometry)
  have n: "0 < ?n" using bitmap_pages_bounds(3) [of uvs] assms(5) by (cases "?n = 0") (simp_all add: word_less_nat_alt)
  obtain p where p: "process_prepare uvs prio sp filename nm s = Inr (t, p)" "system_inv p rs ts" "own_page p t" "t \<notin> set ts"
    "p = s\<lparr>mem := mem p, elems := elems p, tasks := tasks p, stk := stk p, pmem := pmem p\<rparr>"
    "tasks p t = process_task uvs t b nm prio" "\<forall>u \<in> set ts. tasks p u = tasks s u" "entry_frame p t sp filename"
    "free_idx (user_bitmap uvs b) (mem p) = {..<bm_bits (user_bitmap uvs b)}"
    "free_idx (vaddr_bitmap (kernel_vaddr s)) (mem p) = {k + 1 + ?n..<heap_bits s}"
    "card (free_idx (bit_of PF_KERNEL s) (mem p)) + ?n + 1 = card (free_idx (bit_of PF_KERNEL s) (mem s))"
    "same_kernel (heap_page s ` {k..<k + 1 + ?n}) s p"
    by (rule process_prepare_run [OF assms(1,2) _ _ assms(5,6), of prio sp filename]) (use assms(3,4,7,8) in simp_all)
  have same: "kernel_vaddr p = kernel_vaddr s" "eflags p = eflags s" "kernel_pool p = kernel_pool s" by (subst p(5), simp)+
  then have same': "heap_bits p = heap_bits s" "heap_page p = heap_page s" "bit_of PF_KERNEL p = bit_of PF_KERNEL s"
    by (simp_all add: heap_bits_def heap_page_def fun_eq_iff bit_of_def mem_pool_def)
  have room: "free_idx (bit_of PF_KERNEL p) (mem p) \<noteq> {}" using p(11) assms(4) by (auto simp: same')
  have pf: "free_idx (vaddr_bitmap (kernel_vaddr p)) (mem p) = {k + 1 + ?n..<heap_bits p}" "k + 1 + ?n < heap_bits p"
    using p(10) assms(3) by (simp_all add: same same')
  obtain f r where r: "create_page_dir p = Inr (Returns d, r)" "system_inv r rs ts" "own_page r t" "entry_frame r t sp filename"
    "tasks r t = tasks p t" "\<forall>u \<in> set ts. tasks r u = tasks p u" "eflags r = eflags p"
    "\<forall>a. K_HEAP_START \<le> a \<and> a AND 0xfffff000 \<noteq> d \<longrightarrow> mem r a = mem p a"
    "addr_v2p d r = Inr f" "vm_inv (r\<lparr>cr3 := f\<rparr>)" "shares_kernel (pmem r) (cr3 r) f" "same_kernel {d} p r"
    using process_dir_run [OF p(2,3,4,8) room pf] unfolding same' assms(9) by metis
  define q where "q = upd_task t (\<lambda>t. t\<lparr>pgdir := d\<rparr>) r"
  have q: "q = r\<lparr>elems := elems r, tasks := tasks q, stk := stk r\<rparr>" "\<forall>u. u \<noteq> t \<longrightarrow> tasks q u = tasks r u"
    "tasks q t = (tasks r t)\<lparr>pgdir := d\<rparr>" "pmem q = pmem r" "cr3 q = cr3 r" "mem q = mem r" "eflags q = eflags r"
    "kernel_pool q = kernel_pool r" "user_pool q = user_pool r" "kernel_vaddr q = kernel_vaddr r"
    by (simp_all add: q_def upd_task_def)
  have "process_execute uvs prio sp block_desc_init filename nm s =
      bindE (block_desc_init t q) (\<lambda>s. bindE (enqueue_process t s) (\<lambda>s. Inr (Returns (), s)))" for block_desc_init
    using p(1) r(1) by (simp add: process_execute_def process_enqueue_def q_def)
  moreover have "system_inv q rs ts" "own_page q t" using system_inv_own [OF r(2,3) p(4) q(1,2)] by simp_all
  moreover have "entry_frame q t sp filename" using r(4) by (simp add: entry_frame_words q_def upd_task_def)
  moreover have "\<forall>u \<in> set ts. tasks q u = tasks s u" using p(4,7) r(6) q(2) by auto
  moreover have "free_idx (user_bitmap uvs b) (mem q) = {..<bm_bits (user_bitmap uvs b)}"
    using user_bitmap_kept [OF geo, of "k + 1" uvs "mem r" "mem p"] r(8) p(9) assms(3,8,9) n by (simp add: q(6))
  moreover have "addr_v2p d q = Inr f" using r(9) addr_v2p_cong [OF q(4,5)] by simp
  moreover have "vm_inv (q\<lparr>cr3 := f\<rparr>)" by (rule vm_inv_cong [OF r(10)]) (simp_all add: q(4-10))
  moreover have "walk (pmem q) f a = (if 0xc0000000 \<le> a then translate q a else None)" if "\<not> in_window a" for a
    using shares_kernel_walk [OF r(11) that] by (simp add: translate_def q(4,5))
  moreover have "same_kernel (heap_page s ` {k..<k + 2 + ?n}) s q"
  proof -
    have "heap_page s ` {k..<k + 1 + ?n} \<union> {d} = heap_page s ` {k..<k + 2 + ?n}"
      by (simp add: assms(9) atLeastLessThanSuc insert_commute)
    then show ?thesis
      using same_kernel_trans [OF p(12) r(12)] by (simp add: same_kernel_def translate_def q(4,5))
  qed
  moreover have "\<exists>h. enqueue_process t u = Inr (u\<lparr>elems := h\<rparr>) \<and> system_inv (u\<lparr>elems := h\<rparr>) (rs @ [t]) (ts @ [t]) \<and>
      entry_frame (u\<lparr>elems := h\<rparr>) t sp filename"
    if "system_inv u rs ts" "own_page u t" "entry_frame u t sp filename" "status (tasks u t) = TASK_READY" for u :: "'a mems_scheme"
    using enqueue_process_run [OF that(1,2) p(4) that(3,4)] by metis
  ultimately show ?thesis using p(4,6) r(5,7) q(3,7) same(2) by (intro exI [of _ f] exI [of _ q]) simp
qed

text \<open>With 32 MB of memory, user addresses from 0x8048000 on, the program at that address and a \<open>block_desc_init\<close> that does nothing.\<close>

theorem process_execute_creates_witness:
  "\<exists>(s :: segs) s'. init_all (\<lambda>i. 0xc0001c80 + 25 * of_nat i) segs0 = Inr s \<and>
     process_execute 0x8048000 31 0xc0002000 (\<lambda>_. Inr) 0x8048000 (cstr ''prog'') s = Inr (Returns (), s') \<and>
     system_inv s' [0xc0100000] [0xc009e000, 0xc0100000] \<and> entry_frame s' 0xc0100000 0xc0002000 0x8048000 \<and>
     pgdir (tasks s' 0xc0100000) = 0xc0118000"
proof -
  obtain s where s: "init_all (\<lambda>i. 0xc0001c80 + 25 * of_nat i) segs0 = Inr s" "system_inv s [] [0xc009e000]" "heap_bits s = 3840"
    "\<forall>k. heap_page s k = 0xc0100000 + of_nat k * 4096" "free_idx (bit_of PF_KERNEL s) (mem s) = {..<3840}"
    "free_idx (vaddr_bitmap (kernel_vaddr s)) (mem s) = {..<3840}"
    using init_all0 [of "\<lambda>i. 0xc0001c80 + 25 * of_nat i"] .
  have len: "user_bitmap_len 0x8048000 = 94199" by (simp add: user_bitmap_len_def PG_SIZE_def)
  then have n: "bitmap_pages 0x8048000 = 23" by (simp add: bitmap_pages_bounds(1))
  have free: "free_idx (vaddr_bitmap (kernel_vaddr s)) (mem s) = {0..<heap_bits s}" using s(3,6) by (simp add: atLeast0LessThan)
  have d: "0xc0100000 = heap_page s 0" "0xc0101000 = heap_page s (0 + 1)" "0xc0118000 = heap_page s (0 + 1 + bitmap_pages 0x8048000)"
    using s(4) by (simp_all add: n)
  have side: "0 + 2 + bitmap_pages 0x8048000 \<le> heap_bits s" "2 + bitmap_pages 0x8048000 \<le> card (free_idx (bit_of PF_KERNEL s) (mem s))"
    "0 < user_bitmap_len 0x8048000" "length (cstr ''prog'') \<le> 16"
    using s(3,5) by (simp_all add: n len cstr_def)
  obtain q :: segs where q: "\<forall>bdi. process_execute 0x8048000 31 0xc0002000 bdi 0x8048000 (cstr ''prog'') s =
      bindE (bdi 0xc0100000 q) (\<lambda>s. bindE (enqueue_process 0xc0100000 s) (\<lambda>s. Inr (Returns (), s)))"
    "system_inv q [] [0xc009e000]" "own_page q 0xc0100000" "entry_frame q 0xc0100000 0xc0002000 0x8048000"
    "tasks q 0xc0100000 = (process_task 0x8048000 0xc0100000 0xc0101000 (cstr ''prog'') 31)\<lparr>pgdir := 0xc0118000\<rparr>"
    "\<forall>u :: segs. system_inv u [] [0xc009e000] \<and> own_page u 0xc0100000 \<and> entry_frame u 0xc0100000 0xc0002000 0x8048000 \<and>
        status (tasks u 0xc0100000) = TASK_READY \<longrightarrow>
      (\<exists>h. enqueue_process 0xc0100000 u = Inr (u\<lparr>elems := h\<rparr>) \<and> system_inv (u\<lparr>elems := h\<rparr>) ([] @ [0xc0100000]) ([0xc009e000] @ [0xc0100000]) \<and>
        entry_frame (u\<lparr>elems := h\<rparr>) 0xc0100000 0xc0002000 0x8048000)"
    using process_execute_creates [OF s(2) free side d, of 31 "0xc0002000" "0x8048000"] by blast
  have "status (tasks q 0xc0100000) = TASK_READY" using q(5) by (simp add: process_task_def started_task_def)
  with q(2-4,6) obtain h where "enqueue_process 0xc0100000 q = Inr (q\<lparr>elems := h\<rparr>)"
    "system_inv (q\<lparr>elems := h\<rparr>) [0xc0100000] [0xc009e000, 0xc0100000]" "entry_frame (q\<lparr>elems := h\<rparr>) 0xc0100000 0xc0002000 0x8048000"
    by auto
  then show ?thesis using s(1) q(1,5) by (intro exI [of _ s] exI [of _ "q\<lparr>elems := h\<rparr>"]) simp
qed

end
