(* ===== verification/Trap.thy ===== *)
theory Trap
  imports Start
begin

text \<open>
  kernel/kernel.S: the entry points of the interrupts and \<open>intr_exit\<close>, with what the processor does at an
  interrupt and at \<open>iretd\<close>, for interrupts of the kernel and of user programs. The order of the pushes is
  that of \<open>struct intr_stack\<close> of thread/thread.h.

  A segment register is its selector; loading one checks the descriptor that it selects, and every fault
  of such a check is \<open>Segment_Fault\<close>.
\<close>

section \<open>State\<close>

record procs = segs +
  eax :: u32
  ecx :: u32
  edx :: u32
  seg_cs :: u16
  seg_ss :: u16
  seg_ds :: u16
  seg_es :: u16
  seg_fs :: u16
  seg_gs :: u16

section \<open>Segment checks of the processor\<close>

definition cpl :: "'a procs_scheme \<Rightarrow> u16" where
  "cpl s = seg_cs s AND 3"

definition null_sel :: "u16 \<Rightarrow> bool" where
  "null_sel sel \<longleftrightarrow> sel AND 0xfffc = 0"

definition seg_desc :: "u16 \<Rightarrow> 'a segs_scheme \<Rightarrow> gdt_desc option" where
  "seg_desc sel s =
     (if null_sel sel \<or> bit sel 2 \<or> ucast (gdtr s) < sel OR 7 then None else Some (gdt s (gdt_entry (gdtr s) sel)))"

text \<open>\<open>code_ok d rpl c\<close>: code of privilege \<open>rpl\<close> may be entered from the privilege \<open>c\<close> by a return.\<close>

definition code_ok :: "gdt_desc \<Rightarrow> u16 \<Rightarrow> u16 \<Rightarrow> bool" where
  "code_ok d rpl c \<longleftrightarrow> desc_present d \<and> desc_type d AND 0x18 = 0x18 \<and> c \<le> rpl \<and>
     (if bit (attr_low_byte d) 2 then ucast (desc_dpl d) \<le> rpl else ucast (desc_dpl d) = rpl)"

definition stack_ok :: "gdt_desc \<Rightarrow> u16 \<Rightarrow> u16 \<Rightarrow> bool" where
  "stack_ok d sel c \<longleftrightarrow> desc_present d \<and> desc_type d AND 0x1a = 0x12 \<and> ucast (desc_dpl d) = c \<and> sel AND 3 = c"

definition data_ok :: "gdt_desc \<Rightarrow> u16 \<Rightarrow> u16 \<Rightarrow> bool" where
  "data_ok d sel c \<longleftrightarrow> desc_present d \<and> (desc_type d AND 0x18 = 0x10 \<or> desc_type d AND 0x1a = 0x1a) \<and>
     c \<le> ucast (desc_dpl d) \<and> sel AND 3 \<le> ucast (desc_dpl d)"

definition data_sel_ok :: "u16 \<Rightarrow> u16 \<Rightarrow> 'a segs_scheme \<Rightarrow> bool" where
  "data_sel_ok sel c s \<longleftrightarrow> null_sel sel \<or> (case seg_desc sel s of None \<Rightarrow> False | Some d \<Rightarrow> data_ok d sel c)"

section \<open>Operations\<close>

definition push_sel :: "u16 \<Rightarrow> 'a threads_scheme \<Rightarrow> 'a threads_scheme" where
  "push_sel sel s = push32 (ucast sel) s"

definition pop_sel ::
    "(u16 \<Rightarrow> 'a procs_scheme \<Rightarrow> 'a procs_scheme) \<Rightarrow> 'a procs_scheme \<Rightarrow> err + 'a procs_scheme" where
  "pop_sel load s =
     (let (v, s) = pop32 s; sel = ucast v
      in if data_sel_ok sel (cpl s) s then Inr (load sel s) else Inl (Segment_Fault sel))"

definition pushad :: "'a procs_scheme \<Rightarrow> 'a procs_scheme" where
  "pushad s =
     (let sp = esp s;
          s = push32 (eax s) s; s = push32 (ecx s) s; s = push32 (edx s) s; s = push32 (ebx s) s;
          s = push32 sp s; s = push32 (ebp s) s; s = push32 (esi s) s
      in push32 (edi s) s)"

definition popad :: "'a procs_scheme \<Rightarrow> 'a procs_scheme" where
  "popad s =
     (let (v, s) = pop32 s; s = s\<lparr>edi := v\<rparr>; (v, s) = pop32 s; s = s\<lparr>esi := v\<rparr>;
          (v, s) = pop32 s; s = s\<lparr>ebp := v\<rparr>; (v, s) = pop32 s;
          (v, s) = pop32 s; s = s\<lparr>ebx := v\<rparr>; (v, s) = pop32 s; s = s\<lparr>edx := v\<rparr>;
          (v, s) = pop32 s; s = s\<lparr>ecx := v\<rparr>; (v, s) = pop32 s
      in s\<lparr>eax := v\<rparr>)"

text \<open>
  The processor takes interrupt \<open>vec\<close> through its gate, \<open>code\<close> being the error code that it pushes for
  some of the exceptions. From a lower privilege it changes to the stack that the task state segment names.
\<close>

definition deliver :: "nat \<Rightarrow> u32 option \<Rightarrow> 'a procs_scheme \<Rightarrow> 'a procs_scheme" where
  "deliver vec code s =
     (let g = idt s ! vec;
          dpl = ucast (desc_dpl (gdt s (gdt_entry (gdtr s) (selector g))));
          fl = eflags s; c = seg_cs s; ip = eip s;
          s = (if dpl < cpl s then
                 let sp = esp s; st = seg_ss s;
                     s = s\<lparr>esp := tss_esp0 (tss s), seg_ss := ucast (tss_ss0 (tss s))\<rparr>
                 in push32 sp (push_sel st s)
               else s);
          s = push32 fl s; s = push_sel c s; s = push32 ip s;
          s = (case code of None \<Rightarrow> s | Some e \<Rightarrow> push32 e s)
      in s\<lparr>seg_cs := selector g AND 0xfffc OR dpl, eip := gate_target g, eflags := fl AND NOT EFLAGS_IF\<rparr>)"

text \<open>
  The macro \<open>VECTOR\<close> up to the call of the handler: all vectors but 0x1e push a zero in place of an error
  code. The call and the return of the handler leave the stack pointer as it is here.
\<close>

definition pushes_zero :: "nat \<Rightarrow> bool" where
  "pushes_zero vec \<longleftrightarrow> vec \<noteq> 0x1e"

definition intr_entry :: "nat \<Rightarrow> 'a procs_scheme \<Rightarrow> 'a procs_scheme" where
  "intr_entry vec s =
     (let s = (if pushes_zero vec then push32 0 s else s);
          s = push_sel (seg_ds s) s; s = push_sel (seg_es s) s; s = push_sel (seg_fs s) s; s = push_sel (seg_gs s) s;
          s = pushad s;
          s = s\<lparr>eax := eax s AND NOT 0xff OR 0x20\<rparr>;
          s = outb 0xa0 0x20 s; s = outb 0x20 0x20 s
      in push32 (of_nat vec) s)"

text \<open>The call through \<open>idt_table\<close>. A null entry is a jump to address 0.\<close>

definition call_handler :: "nat \<Rightarrow> 'a procs_scheme \<Rightarrow> err + 'a procs_scheme" where
  "call_handler vec s =
     (if length (idt_table s) \<le> vec then Inl (Out_Of_Bounds ''idt_table'')
      else case idt_table s ! vec of
          No_Handler \<Rightarrow> Inl (Page_Fault 0)
        | General_Intr_Handler \<Rightarrow> bindE (general_intr_handler (of_nat vec) s) (\<lambda>(returned, s). if returned then Inr s else Inl Hang)
        | Intr_Timer_Handler \<Rightarrow> intr_timer_handler s
        | Intr_Keyboard_Handler \<Rightarrow> intr_keyboard_handler s)"

text \<open>A return to a lower privilege clears the data segment registers that are above it.\<close>

definition revalidate :: "u16 \<Rightarrow> 'a segs_scheme \<Rightarrow> u16 \<Rightarrow> u16" where
  "revalidate c s sel =
     (if null_sel sel then sel
      else case seg_desc sel s of None \<Rightarrow> 0 | Some d \<Rightarrow> if ucast (desc_dpl d) < c then 0 else sel)"

definition iretd :: "'a procs_scheme \<Rightarrow> err + 'a procs_scheme" where
  "iretd s =
     (let old = cpl s; (ip, s) = pop32 s; (c, s) = pop32 s; (fl, s) = pop32 s; sel = ucast c; rpl = sel AND 3
      in case seg_desc sel s of
          None \<Rightarrow> Inl (Segment_Fault sel)
        | Some d \<Rightarrow>
            if \<not> code_ok d rpl old then Inl (Segment_Fault sel)
            else if rpl = old then Inr (s\<lparr>eip := ip, seg_cs := sel, eflags := fl\<rparr>)
            else
              let (sp, s) = pop32 s; (st, s) = pop32 s; stsel = ucast st
              in case seg_desc stsel s of
                  None \<Rightarrow> Inl (Segment_Fault stsel)
                | Some d \<Rightarrow>
                    if \<not> stack_ok d stsel rpl then Inl (Segment_Fault stsel)
                    else Inr (s\<lparr>eip := ip, seg_cs := sel, eflags := fl, esp := sp, seg_ss := stsel,
                           seg_ds := revalidate rpl s (seg_ds s), seg_es := revalidate rpl s (seg_es s),
                           seg_fs := revalidate rpl s (seg_fs s), seg_gs := revalidate rpl s (seg_gs s)\<rparr>))"

definition intr_exit :: "'a procs_scheme \<Rightarrow> err + 'a procs_scheme" where
  "intr_exit s =
     (let s = s\<lparr>esp := esp s + 4\<rparr>;
          s = popad s
      in bindE (pop_sel (\<lambda>v. seg_gs_update (\<lambda>_. v)) s) (\<lambda>s.
         bindE (pop_sel (\<lambda>v. seg_fs_update (\<lambda>_. v)) s) (\<lambda>s.
         bindE (pop_sel (\<lambda>v. seg_es_update (\<lambda>_. v)) s) (\<lambda>s.
         bindE (pop_sel (\<lambda>v. seg_ds_update (\<lambda>_. v)) s) (\<lambda>s.
         iretd (s\<lparr>esp := esp s + 4\<rparr>))))))"

section \<open>The stack as a list of words\<close>

fun words_at :: "addr \<Rightarrow> (addr \<Rightarrow> u32) \<Rightarrow> u32 list \<Rightarrow> bool" where
  "words_at e m [] \<longleftrightarrow> True"
| "words_at e m (w # ws) \<longleftrightarrow> m e = w \<and> words_at (e + 4) m ws"

definition stack_holds :: "'a threads_scheme \<Rightarrow> u32 list \<Rightarrow> bool" where
  "stack_holds s ws \<longleftrightarrow> words_at (esp s) (stk s) ws"

lemma words_at_upd:
  assumes "unat (a - e) + 4 * length ws < 2 ^ 32" "e \<noteq> a"
  shows "words_at a (m(e := v)) ws = words_at a m ws"
proof -
  have ne: "a \<noteq> e" using assms(2) by blast
  from assms(1) ne show ?thesis
  proof (induction ws arbitrary: a)
    case (Cons w ws)
    have u: "unat (a - e) + 4 < 2 ^ 32" using Cons.prems(1) by simp
    have a: "a + 4 - e = (a - e) + 4" by simp
    have "unat (a + 4 - e) = unat (a - e) + 4"
      unfolding a using u by (simp add: unat_add_u32)
    moreover from this have "a + 4 \<noteq> e" by auto
    ultimately show ?case using Cons by simp
  qed simp
qed

lemma stack_holds_Nil [simp]: "stack_holds s []"
  by (simp add: stack_holds_def)

lemma stack_holds_push [simp]:
  assumes "length ws < 1000"
  shows "stack_holds (push32 v s) (w # ws) \<longleftrightarrow> w = v \<and> stack_holds s ws"
proof -
  have "words_at (esp s) ((stk s)(esp s - 4 := v)) ws = words_at (esp s) (stk s) ws"
    using assms by (intro words_at_upd) simp_all
  then show ?thesis by (auto simp: stack_holds_def push32_def)
qed

lemma stack_holds_frame [simp]:
  "stack_holds (s\<lparr>eflags := fl\<rparr>) ws = stack_holds s ws" "stack_holds (s\<lparr>eip := ip\<rparr>) ws = stack_holds s ws"
  "stack_holds (outb p v s) ws = stack_holds s ws"
  by (simp_all add: stack_holds_def outb_def)

lemma stack_holds_procs [simp]:
  "stack_holds (s\<lparr>eax := v\<rparr>) ws = stack_holds s ws" "stack_holds (s\<lparr>seg_cs := c\<rparr>) ws = stack_holds s ws"
  by (simp_all add: stack_holds_def)

lemma words_at_same:
  assumes "\<forall>k < n. m' (e + 4 * of_nat k) = m (e + 4 * of_nat k)" "length ws \<le> n"
  shows "words_at e m' ws = words_at e m ws"
  using assms
proof (induction ws arbitrary: e n)
  case (Cons w ws)
  obtain l where n: "n = Suc l" using Cons.prems(2) by (cases n) auto
  have "m' (e + 4 + 4 * of_nat k) = m (e + 4 + 4 * of_nat k)" if "k < l" for k
    using Cons.prems(1) [rule_format, of "Suc k"] n that by (simp add: distrib_left add.assoc)
  moreover have "m' e = m e" using Cons.prems(1) n by (auto dest: spec [of _ 0])
  ultimately show ?case using Cons.IH [of l "e + 4"] Cons.prems(2) n by simp
qed simp

lemma ucast_sel [simp]: "ucast (ucast (sel :: u16) :: u32) = sel"
  by (simp add: unsigned_ucast_eq take_bit_word_eq_self)

section \<open>The frame of an interrupt\<close>

definition inner_dpl :: "nat \<Rightarrow> 'a procs_scheme \<Rightarrow> u16" where
  "inner_dpl vec s = ucast (desc_dpl (gdt s (gdt_entry (gdtr s) (selector (idt s ! vec)))))"

text \<open>The words of \<open>struct intr_stack\<close>; the last two are there when the privilege changed.\<close>

definition intr_stack_words :: "u32 \<Rightarrow> u32 \<Rightarrow> 'a procs_scheme \<Rightarrow> u32 list" where
  "intr_stack_words vec_no esp_dummy s =
     [vec_no, edi s, esi s, ebp s, esp_dummy, ebx s, edx s, ecx s, eax s, ucast (seg_gs s), ucast (seg_fs s), ucast (seg_es s),
      ucast (seg_ds s), 0, eip s, ucast (seg_cs s), eflags s, esp s, ucast (seg_ss s)]"

lemma push32_fields [simp]:
  "eflags (push32 v s) = eflags s" "eip (push32 v s) = eip s" "edi (push32 v s) = edi s" "esi (push32 v s) = esi s"
  "ebp (push32 v s) = ebp s" "ebx (push32 v s) = ebx s" "eax (push32 v s') = eax s'" "ecx (push32 v s') = ecx s'"
  "edx (push32 v s') = edx s'" "seg_cs (push32 v s') = seg_cs s'" "seg_ss (push32 v s') = seg_ss s'" "seg_ds (push32 v s') = seg_ds s'"
  "seg_es (push32 v s') = seg_es s'" "seg_fs (push32 v s') = seg_fs s'" "seg_gs (push32 v s') = seg_gs s'"
  by (simp_all add: push32_def)

lemma intr_entry_stack:
  assumes "pushes_zero vec"
  shows "\<exists>sp. stack_holds (intr_entry vec (deliver vec None s))
    (take (if inner_dpl vec s < cpl s then 19 else 17) (intr_stack_words (of_nat vec) sp s))"
  using assms
  by (auto simp: intr_entry_def deliver_def pushad_def push_sel_def intr_stack_words_def Let_def inner_dpl_def)

section \<open>The return\<close>

text \<open>The segment registers hold selectors that a return from the kernel accepts and keeps.\<close>

definition segs_valid :: "'a procs_scheme \<Rightarrow> bool" where
  "segs_valid s \<longleftrightarrow>
     (\<exists>d. seg_desc (seg_cs s) s = Some d \<and> code_ok d (cpl s) 0) \<and>
     (cpl s \<noteq> 0 \<longrightarrow> (\<exists>d. seg_desc (seg_ss s) s = Some d \<and> stack_ok d (seg_ss s) (cpl s))) \<and>
     (\<forall>sel \<in> {seg_ds s, seg_es s, seg_fs s, seg_gs s}. data_sel_ok sel (cpl s) s)"

lemma seg_desc_cong: "gdt t = gdt s \<Longrightarrow> gdtr t = gdtr s \<Longrightarrow> seg_desc sel t = seg_desc sel s"
  by (simp add: seg_desc_def)

lemma data_sel_ok_mono: "data_sel_ok sel c s \<Longrightarrow> data_sel_ok sel 0 s"
  by (auto simp: data_sel_ok_def data_ok_def split: option.splits)

lemma revalidate_ok: "data_sel_ok sel c s \<Longrightarrow> revalidate c s sel = sel"
  by (auto simp: data_sel_ok_def data_ok_def revalidate_def split: option.splits)

text \<open>The four pops of data segment registers.\<close>

lemma pop_sel_ok:
  assumes "stk s (esp s) = ucast sel" "data_sel_ok sel 0 s" "cpl s = 0"
  shows "pop_sel load s = Inr (load sel (s\<lparr>esp := esp s + 4\<rparr>))"
proof -
  have "data_sel_ok sel 0 (s\<lparr>esp := e\<rparr>) = data_sel_ok sel 0 s" for e by (simp add: data_sel_ok_def seg_desc_def)
  with assms show ?thesis by (simp add: pop_sel_def pop32_def cpl_def)
qed

lemma popad_run:
  assumes "stack_holds s (di # si # bp # sp # bx # dx # cx # ax # ws)"
  shows "popad s = s\<lparr>edi := di, esi := si, ebp := bp, ebx := bx, edx := dx, ecx := cx, eax := ax, esp := esp s + 32\<rparr>"
    "words_at (32 + esp s) (stk s) ws"
  using assms by (simp_all add: stack_holds_def popad_def pop32_def Let_def)

text \<open>\<open>intr_exit\<close> up to \<open>iretd\<close>.\<close>

lemma intr_exit_run:
  assumes "stack_holds s (v # di # si # bp # sp # bx # dx # cx # ax # ucast gsel # ucast fsel # ucast esel # ucast dsel # ec # ws)"
    "cpl s = 0" "\<forall>sel \<in> {gsel, fsel, esel, dsel}. data_sel_ok sel 0 s"
  defines "t \<equiv> s\<lparr>edi := di, esi := si, ebp := bp, ebx := bx, edx := dx, ecx := cx, eax := ax,
    seg_gs := gsel, seg_fs := fsel, seg_es := esel, seg_ds := dsel, esp := esp s + 56\<rparr>"
  shows "intr_exit s = iretd t" "stack_holds t ws"
proof -
  let ?a = "s\<lparr>esp := esp s + 4\<rparr>"
  have h: "stack_holds ?a (di # si # bp # sp # bx # dx # cx # ax # ucast gsel # ucast fsel # ucast esel # ucast dsel # ec # ws)"
    using assms(1) by (simp add: stack_holds_def)
  note p = popad_run [OF h]
  have ok: "data_sel_ok sel 0 s' = data_sel_ok sel 0 s" if "gdt s' = gdt s" "gdtr s' = gdtr s" for sel s'
    using that by (simp add: data_sel_ok_def seg_desc_def)
  have w: "stk s (36 + esp s) = ucast gsel" "stk s (40 + esp s) = ucast fsel" "stk s (44 + esp s) = ucast esel"
    "stk s (48 + esp s) = ucast dsel" "words_at (56 + esp s) (stk s) ws"
    using p(2) by (simp_all add: add.commute)
  define r where "r = s\<lparr>edi := di, esi := si, ebp := bp, ebx := bx, edx := dx, ecx := cx, eax := ax\<rparr>"
  have pop: "pop_sel load s' = Inr (load sel (s'\<lparr>esp := esp s' + 4\<rparr>))"
    if "sel \<in> {gsel, fsel, esel, dsel}" "gdt s' = gdt s" "gdtr s' = gdtr s" "seg_cs s' = seg_cs s" "stk s' (esp s') = ucast sel"
    for load sel s'
    using that assms(2,3) ok [OF that(2,3), of sel] by (intro pop_sel_ok) (auto simp: cpl_def)
  have r: "gdt r = gdt s" "gdtr r = gdtr s" "seg_cs r = seg_cs s" "stk r = stk s" by (simp_all add: r_def)
  have g: "pop_sel (\<lambda>v. seg_gs_update (\<lambda>_. v)) (r\<lparr>esp := 36 + esp s\<rparr>) = Inr (r\<lparr>esp := 40 + esp s, seg_gs := gsel\<rparr>)"
    by (subst pop [of gsel]) (simp_all add: r w)
  have f: "pop_sel (\<lambda>v. seg_fs_update (\<lambda>_. v)) (r\<lparr>esp := 40 + esp s, seg_gs := gsel\<rparr>) =
      Inr (r\<lparr>esp := 44 + esp s, seg_gs := gsel, seg_fs := fsel\<rparr>)"
    by (subst pop [of fsel]) (simp_all add: r w)
  have e: "pop_sel (\<lambda>v. seg_es_update (\<lambda>_. v)) (r\<lparr>esp := 44 + esp s, seg_gs := gsel, seg_fs := fsel\<rparr>) =
      Inr (r\<lparr>esp := 48 + esp s, seg_gs := gsel, seg_fs := fsel, seg_es := esel\<rparr>)"
    by (subst pop [of esel]) (simp_all add: r w)
  have d: "pop_sel (\<lambda>v. seg_ds_update (\<lambda>_. v)) (r\<lparr>esp := 48 + esp s, seg_gs := gsel, seg_fs := fsel, seg_es := esel\<rparr>) =
      Inr (r\<lparr>esp := 52 + esp s, seg_gs := gsel, seg_fs := fsel, seg_es := esel, seg_ds := dsel\<rparr>)"
    by (subst pop [of dsel]) (simp_all add: r w)
  have "popad ?a = r\<lparr>esp := 36 + esp s\<rparr>" unfolding p(1) by (simp add: r_def)
  then show "intr_exit s = iretd t"
    unfolding intr_exit_def Let_def by (simp add: g f e d) (simp add: t_def r_def add.commute)
  show "stack_holds t ws" using w(5) by (simp add: stack_holds_def t_def add.commute)
qed

lemma iretd_inner:
  assumes "stack_holds s (ip # ucast c # fl # ws)" "cpl s = 0" "c AND 3 = 0" "seg_desc c s = Some d" "code_ok d 0 0"
  shows "iretd s = Inr (s\<lparr>eip := ip, seg_cs := c, eflags := fl, esp := esp s + 12\<rparr>)"
proof -
  have "seg_desc c (s\<lparr>esp := e\<rparr>) = seg_desc c s" for e by (simp add: seg_desc_def)
  then show ?thesis using assms by (simp add: iretd_def Let_def stack_holds_def pop32_def add.commute)
qed

lemma iretd_outer:
  assumes "stack_holds s (ip # ucast c # fl # sp # ucast st # ws)" "cpl s = 0" "c AND 3 \<noteq> 0"
    "seg_desc c s = Some d" "code_ok d (c AND 3) 0" "seg_desc st s = Some e" "stack_ok e st (c AND 3)"
    "\<forall>sel \<in> {seg_ds s, seg_es s, seg_fs s, seg_gs s}. data_sel_ok sel (c AND 3) s"
  shows "iretd s = Inr (s\<lparr>eip := ip, seg_cs := c, eflags := fl, esp := sp, seg_ss := st\<rparr>)"
proof -
  have same: "seg_desc sel (s\<lparr>esp := e\<rparr>) = seg_desc sel s" "revalidate k (s\<lparr>esp := e\<rparr>) sel = revalidate k s sel" for e k sel
    by (simp_all add: seg_desc_def revalidate_def)
  have "revalidate (c AND 3) s (seg_ds s) = seg_ds s" "revalidate (c AND 3) s (seg_es s) = seg_es s"
    "revalidate (c AND 3) s (seg_fs s) = seg_fs s" "revalidate (c AND 3) s (seg_gs s) = seg_gs s"
    using assms(8) by (simp_all add: revalidate_ok)
  then show ?thesis using assms(1-7) by (simp add: iretd_def Let_def stack_holds_def pop32_def same)
qed

lemma intr_entry_esp:
  assumes "pushes_zero vec" "\<not> inner_dpl vec s < cpl s"
  shows "esp (intr_entry vec (deliver vec None s)) = esp s - 68" "seg_ss (intr_entry vec (deliver vec None s)) = seg_ss s"
  using assms by (simp_all add: intr_entry_def deliver_def pushad_def push_sel_def push32_def outb_def Let_def inner_dpl_def)

lemma intr_entry_cpl:
  assumes "inner_dpl vec s = 0"
  shows "cpl (intr_entry vec (deliver vec None s)) = 0"
proof -
  have "(x AND 0xfffc) AND 3 = 0" for x :: u16 by (simp add: and.assoc)
  then show ?thesis
    using assms by (simp add: cpl_def intr_entry_def deliver_def pushad_def push_sel_def outb_def Let_def inner_dpl_def)
qed

text \<open>
  The processor pushes an error code for the exceptions 8, 10 to 14 and 17, and the entry code pushes its zero all
  the same: the word that \<open>iretd\<close> would take as the address to return to is the error code.
\<close>

lemma error_code_shifts_frame:
  assumes "pushes_zero vec"
  shows "\<exists>ws. length ws = 14 \<and> stack_holds (intr_entry vec (deliver vec (Some e) s)) (ws @ [e, eip s, ucast (seg_cs s), eflags s])"
proof -
  define ws where "ws sp = [of_nat vec, edi s, esi s, ebp s, sp, ebx s, edx s, ecx s, eax s,
      ucast (seg_gs s), ucast (seg_fs s), ucast (seg_es s), ucast (seg_ds s), 0]" for sp :: u32
  have "\<exists>sp. stack_holds (intr_entry vec (deliver vec (Some e) s)) (ws sp @ [e, eip s, ucast (seg_cs s), eflags s])"
    using assms by (auto simp: ws_def intr_entry_def deliver_def pushad_def push_sel_def Let_def)
  moreover have "length (ws sp) = 14" for sp by (simp add: ws_def)
  ultimately show ?thesis by blast
qed

section \<open>Properties\<close>

text \<open>
  C6: An interrupt is transparent: the entry code of any vector but 0x1e, taken without an error code from a
  kernel thread or a user program with valid segment registers, followed by \<open>intr_exit\<close> in any later state
  that has the stack pointer, the frame and the descriptors as they were, restores every register, the
  segment registers and the stack of the interrupted program included.
\<close>

theorem interrupt_round_trip:
  assumes "segs_valid s" "pushes_zero vec" "inner_dpl vec s = 0" "s1 = intr_entry vec (deliver vec None s)"
    "esp s2 = esp s1" "\<forall>k < (if cpl s = 0 then 17 else 19). stk s2 (esp s1 + 4 * of_nat k) = stk s1 (esp s1 + 4 * of_nat k)"
    "seg_cs s2 = seg_cs s1" "seg_ss s2 = seg_ss s1" "gdt s2 = gdt s" "gdtr s2 = gdtr s"
  shows "intr_exit s2 = Inr (s2\<lparr>eax := eax s, ecx := ecx s, edx := edx s, ebx := ebx s, ebp := ebp s, esi := esi s, edi := edi s,
    esp := esp s, eip := eip s, eflags := eflags s, seg_cs := seg_cs s, seg_ss := seg_ss s, seg_ds := seg_ds s,
    seg_es := seg_es s, seg_fs := seg_fs s, seg_gs := seg_gs s\<rparr>)"
proof -
  have zero: "inner_dpl vec s < cpl s \<longleftrightarrow> cpl s \<noteq> 0" using assms(3) by (simp add: word_gt_0)
  obtain sp where "stack_holds s1 (take (if cpl s = 0 then 17 else 19) (intr_stack_words (of_nat vec) sp s))"
    using intr_entry_stack [OF assms(2), of s] unfolding zero assms(4) by (auto split: if_splits)
  then have "stack_holds s2 (take (if cpl s = 0 then 17 else 19) (intr_stack_words (of_nat vec) sp s))"
    using words_at_same [OF assms(6)] assms(5) by (simp add: stack_holds_def)
  then have hold: "stack_holds s2 (of_nat vec # edi s # esi s # ebp s # sp # ebx s # edx s # ecx s # eax s # ucast (seg_gs s) #
      ucast (seg_fs s) # ucast (seg_es s) # ucast (seg_ds s) # 0 # eip s # ucast (seg_cs s) # eflags s #
      (if cpl s = 0 then [] else [esp s, ucast (seg_ss s)]))"
    by (simp add: intr_stack_words_def split: if_splits)
  have desc: "seg_desc sel s2 = seg_desc sel s" "data_sel_ok sel c s2 = data_sel_ok sel c s" for sel c
    using assms(9,10) by (simp_all add: seg_desc_def data_sel_ok_def)
  have c2: "cpl s2 = 0" using intr_entry_cpl [OF assms(3)] assms(4,7) by (simp add: cpl_def)
  have data: "\<forall>sel \<in> {seg_gs s, seg_fs s, seg_es s, seg_ds s}. data_sel_ok sel (cpl s) s" using assms(1) by (simp add: segs_valid_def)
  then have "\<forall>sel \<in> {seg_gs s, seg_fs s, seg_es s, seg_ds s}. data_sel_ok sel 0 s2" unfolding desc using data_sel_ok_mono by blast
  note ex = intr_exit_run [OF hold c2 this]
  define t where "t = s2\<lparr>edi := edi s, esi := esi s, ebp := ebp s, ebx := ebx s, edx := edx s, ecx := ecx s, eax := eax s,
    seg_gs := seg_gs s, seg_fs := seg_fs s, seg_es := seg_es s, seg_ds := seg_ds s, esp := esp s2 + 56\<rparr>"
  have t: "seg_desc sel t = seg_desc sel s" "data_sel_ok sel c t = data_sel_ok sel c s" "cpl t = 0" for sel c
    using c2 assms(9,10) by (simp_all add: t_def seg_desc_def data_sel_ok_def cpl_def)
  obtain d where d: "seg_desc (seg_cs s) s = Some d" "code_ok d (cpl s) 0" using assms(1) by (auto simp: segs_valid_def)
  show ?thesis
  proof (cases "cpl s = 0")
    case True
    have "stack_holds t (eip s # ucast (seg_cs s) # eflags s # [])" using ex(2) True by (simp add: t_def)
    then have "iretd t = Inr (t\<lparr>eip := eip s, seg_cs := seg_cs s, eflags := eflags s, esp := esp t + 12\<rparr>)"
      using d True t by (intro iretd_inner [of _ _ _ _ _ d]) (simp_all add: cpl_def)
    moreover have "esp s2 = esp s - 68" "seg_ss s2 = seg_ss s"
      using intr_entry_esp [OF assms(2), of s] zero True assms(4,5,8) by simp_all
    ultimately show ?thesis using ex(1) by (simp flip: t_def) (simp add: t_def)
  next
    case False
    then obtain e where e: "seg_desc (seg_ss s) s = Some e" "stack_ok e (seg_ss s) (cpl s)" using assms(1) by (auto simp: segs_valid_def)
    have "stack_holds t (eip s # ucast (seg_cs s) # eflags s # esp s # ucast (seg_ss s) # [])" using ex(2) False by (simp add: t_def)
    moreover have "seg_ds t = seg_ds s" "seg_es t = seg_es s" "seg_fs t = seg_fs s" "seg_gs t = seg_gs s" by (simp_all add: t_def)
    ultimately have "iretd t = Inr (t\<lparr>eip := eip s, seg_cs := seg_cs s, eflags := eflags s, esp := esp s, seg_ss := seg_ss s\<rparr>)"
      using d e False t data by (intro iretd_outer [of _ _ _ _ _ _ _ d e]) (simp_all add: cpl_def)
    then show ?thesis using ex(1) by (simp flip: t_def) (simp add: t_def)
  qed
qed

text \<open>A user program with its segments after \<open>tss_init\<close>, and the gates and handlers of \<open>idt_init\<close>.\<close>

definition procs0 :: procs where
  "procs0 = segs.extend
     ((tss_init segs0)\<lparr>idt := replicate 48 (make_idt_desc IDT_DESC_ATTR_DPL0 0xc0001c80), idt_table := replicate 48 General_Intr_Handler,
        esp := 0xbfffff00, eip := 0x8048000\<rparr>)
     (procs.fields 1 2 3 SELECTOR_U_CODE SELECTOR_U_DATA SELECTOR_U_DATA SELECTOR_U_DATA SELECTOR_U_DATA 0)"

lemma procs0_simps [simp]:
  "seg_cs procs0 = SELECTOR_U_CODE" "seg_ss procs0 = SELECTOR_U_DATA" "seg_ds procs0 = SELECTOR_U_DATA" "seg_es procs0 = SELECTOR_U_DATA"
  "seg_fs procs0 = SELECTOR_U_DATA" "seg_gs procs0 = 0" "gdt procs0 = gdt (tss_init segs0)" "gdtr procs0 = gdtr (tss_init segs0)"
  "idt procs0 = replicate 48 (make_idt_desc IDT_DESC_ATTR_DPL0 0xc0001c80)" "idt_table procs0 = replicate 48 General_Intr_Handler"
  "esp procs0 = 0xbfffff00" "eip procs0 = 0x8048000" "eax procs0 = 1"
  by (simp_all add: procs0_def segs.extend_def procs.fields_def)

lemma procs0_gdt:
  "gdtr procs0 = 0xc00009000037" "gdt procs0 0xc0000908 = make_gdt_desc 0 0 0 0"
  "gdt procs0 0xc0000928 = make_gdt_desc 0 0xfffff GDT_CODE_ATTR_LOW_DPL3 GDT_ATTR_HIGH"
  "gdt procs0 0xc0000930 = make_gdt_desc 0 0xfffff GDT_DATA_ATTR_LOW_DPL3 GDT_ATTR_HIGH"
  using tss_init_state [of segs0] by (auto simp: segs0_def kbd.extend_def segs.fields_def)

lemma procs0_seg_desc:
  "seg_desc SELECTOR_U_CODE procs0 = Some (make_gdt_desc 0 0xfffff GDT_CODE_ATTR_LOW_DPL3 GDT_ATTR_HIGH)"
  "seg_desc SELECTOR_U_DATA procs0 = Some (make_gdt_desc 0 0xfffff GDT_DATA_ATTR_LOW_DPL3 GDT_ATTR_HIGH)"
  unfolding seg_desc_def procs0_gdt(1) gdt_entries procs0_gdt(3,4)
  by (simp_all add: null_sel_def selectors)

lemma procs0_valid: "segs_valid procs0"
  by (simp add: segs_valid_def procs0_seg_desc data_sel_ok_def cpl_def)
     (simp add: selectors code_ok_def stack_ok_def data_ok_def null_sel_def desc_present_def desc_type_def desc_dpl_def make_gdt_desc_def gdt_constants)

theorem interrupt_round_trip_witness:
  "let s1 = intr_entry 0x27 (deliver 0x27 None procs0)
   in call_handler 0x27 s1 = Inr s1 \<and> (\<exists>s'. intr_exit s1 = Inr s' \<and> esp s' = 0xbfffff00 \<and> eip s' = 0x8048000 \<and> cpl s' = 3 \<and> eax s' = 1)"
proof -
  let ?s1 = "intr_entry 0x27 (deliver 0x27 None procs0)"
  have same: "gdt ?s1 = gdt procs0" "gdtr ?s1 = gdtr procs0" "idt_table ?s1 = idt_table procs0"
    by (simp_all add: intr_entry_def deliver_def pushad_def push_sel_def push32_def outb_def Let_def)
  have "call_handler 0x27 ?s1 = Inr ?s1" by (simp add: call_handler_def same general_intr_handler_def)
  moreover have "inner_dpl 0x27 procs0 = 0"
    by (simp add: inner_dpl_def make_idt_desc_def gdt_entry_def SELECTOR_K_CODE_def procs0_gdt del: procs0_simps(7,8))
      (simp add: desc_dpl_def make_gdt_desc_def)
  ultimately show ?thesis
    using interrupt_round_trip [OF procs0_valid, of "0x27" ?s1 ?s1] same by (simp add: pushes_zero_def cpl_def selectors Let_def)
qed

end
