(* ===== verification/User_Entry.thy ===== *)
theory User_Entry
  imports Process Trap
begin

text \<open>
  userprog/process.c, \<open>start_process\<close>: the first run of a process, which builds the frame of an interrupt on its
  kernel stack, takes a page for the user stack and leaves through \<open>intr_exit\<close> into the user program.
  USER_STACK3_VADDR belongs to the missing header process.h and is a parameter.
\<close>

section \<open>Constants of kernel/global.h\<close>

definition EFLAGS_MBS :: u32 where "EFLAGS_MBS = push_bit 1 1"

definition EFLAGS_IF_1 :: u32 where "EFLAGS_IF_1 = push_bit 9 1"

definition EFLAGS_IOPL_0 :: u32 where "EFLAGS_IOPL_0 = push_bit 12 0"

section \<open>Entry into the user program\<close>

definition store_stk :: "addr \<Rightarrow> u32 \<Rightarrow> 'a threads_scheme \<Rightarrow> 'a threads_scheme" where
  "store_stk a v s = s\<lparr>stk := (stk s)(a := v)\<rparr>"

text \<open>
  The fields of \<open>struct intr_stack\<close> that \<open>start_process\<close> fills before it asks for the page of the user
  stack, at their offsets. As in \<open>thread_create\<close> the pointer to the stack moves by words.
\<close>

definition start_process_frame :: "u32 \<Rightarrow> 'a threads_scheme \<Rightarrow> addr \<times> 'a threads_scheme" where
  "start_process_frame function s =
     (let cur = running_thread s;
          s = upd_task cur (\<lambda>t. t\<lparr>self_kstack := self_kstack t + 4 * sizeof_thread_stack\<rparr>) s;
          proc_stack = self_kstack (tasks s cur);
          s = store_stk (proc_stack + 16) 0 s; s = store_stk (proc_stack + 12) 0 s;
          s = store_stk (proc_stack + 8) 0 s; s = store_stk (proc_stack + 4) 0 s;
          s = store_stk (proc_stack + 32) 0 s; s = store_stk (proc_stack + 28) 0 s;
          s = store_stk (proc_stack + 24) 0 s; s = store_stk (proc_stack + 20) 0 s;
          s = store_stk (proc_stack + 36) 0 s;
          s = store_stk (proc_stack + 40) (ucast SELECTOR_U_DATA) s; s = store_stk (proc_stack + 44) (ucast SELECTOR_U_DATA) s;
          s = store_stk (proc_stack + 48) (ucast SELECTOR_U_DATA) s;
          s = store_stk (proc_stack + 56) function s;
          s = store_stk (proc_stack + 60) (ucast SELECTOR_U_CODE) s;
          s = store_stk (proc_stack + 64) (EFLAGS_IOPL_0 OR EFLAGS_MBS OR EFLAGS_IF_1) s
      in (proc_stack, s))"

definition start_process_enter :: "addr \<Rightarrow> u32 locked \<times> 'a procs_scheme \<Rightarrow> err + unit locked \<times> 'a procs_scheme" where
  "start_process_enter proc_stack r =
     (case r of
        (Waits c, s) \<Rightarrow> Inr (Waits c, s)
      | (Returns page, s) \<Rightarrow>
          let s = store_stk (proc_stack + 68) (page + PG_SIZE) s;
              s = store_stk (proc_stack + 72) (ucast SELECTOR_U_DATA) s
          in bindE (intr_exit (s\<lparr>esp := proc_stack\<rparr>)) (\<lambda>s. Inr (Returns (), s)))"

definition start_process :: "u32 \<Rightarrow> u32 \<Rightarrow> 'a procs_scheme \<Rightarrow> err + unit locked \<times> 'a procs_scheme" where
  "start_process user_stack3_vaddr function s =
     (let (proc_stack, s) = start_process_frame function s
      in bindE (get_a_page PF_USER user_stack3_vaddr s) (start_process_enter proc_stack))"

definition start_process_resume ::
    "u32 \<Rightarrow> addr \<Rightarrow> down_ctx \<Rightarrow> 'a procs_scheme \<Rightarrow> err + unit locked \<times> 'a procs_scheme" where
  "start_process_resume user_stack3_vaddr proc_stack c s =
     bindE (get_a_page_resume PF_USER user_stack3_vaddr c s) (start_process_enter proc_stack)"


section \<open>A page of user memory\<close>

text \<open>The bitmap of user addresses of a process, in pages of the kernel heap.\<close>

definition ubm_ok :: "bitmap \<Rightarrow> bool" where
  "ubm_ok b \<longleftrightarrow> bm_wf b \<and> (\<forall>a. in_bytes b a \<longrightarrow> K_HEAP_START \<le> a \<and> \<not> in_window a)"

definition user_idx :: "task_struct \<Rightarrow> addr \<Rightarrow> nat" where
  "user_idx t v = unat (v - vaddr_start (userprog_vaddr t)) div 4096"

lemma claim_page_user:
  assumes "pgdir (tasks s (running_thread s)) \<noteq> NULL" "0 < user_idx (tasks s (running_thread s)) v"
    "user_idx (tasks s (running_thread s)) v < bm_bits ub" "bm_wf ub" "ub = vaddr_bitmap (userprog_vaddr (tasks s (running_thread s)))"
  shows "claim_page PF_USER v s = Inr (s\<lparr>mem := bm_upd ub (user_idx (tasks s (running_thread s)) v) True (mem s)\<rparr>)"
proof -
  let ?t = "tasks s (running_thread s)" and ?i = "user_idx (tasks s (running_thread s)) v"
  have lim: "?i < 2 ^ 31" using assms(3,4) by (simp add: bm_wf_def)
  have u: "unat (of_nat ?i :: u32) = ?i" using lim by (simp add: unat_of_nat_u32)
  have idx: "(v - vaddr_start (userprog_vaddr ?t)) div PG_SIZE = of_nat ?i"
    by (simp only: word_unat_eq_iff u) (simp add: unat_div PG_SIZE_def user_idx_def)
  have "sint (of_nat ?i :: u32) = int ?i" using u lim sint_u32_small [of "of_nat ?i"] by simp
  then have "0 <s (of_nat ?i :: u32)" using assms(2) by (simp add: word_sless_alt)
  then show ?thesis
    using assms(1,5) bitmap_set_eq [OF assms(4,3), of True s] by (simp add: claim_page_def Let_def idx)
qed

lemma window_page: "in_window (a AND 0xfffff000) = in_window (a :: u32)"
proof -
  have "x div 4194304 = x div 4096 div 1024" for x :: nat by (simp add: div_mult2_eq [symmetric])
  then have "unat a div 4096 * 4096 div 4194304 = unat a div 4194304" by simp
  then show ?thesis by (simp only: in_window_unat unat_pde_idx unat_page_mask)
qed

lemma pte_page_in_window: "in_window (pte_ptr v AND 0xfffff000)"
proof -
  have "unat (pte_ptr v) div 4194304 = 1023"
    using unat_pte_ptr [of v] pde_idx_less [of v] pte_idx_less [of v] by simp
  then have "in_window (pte_ptr v)" by (simp only: in_window_unat unat_pde_idx)
  then show ?thesis by (simp only: window_page)
qed

lemma get_a_page_user:
  assumes "vm_core s" "lock_free user_pool_lock s" "pgdir (tasks s (running_thread s)) \<noteq> NULL"
    "0 < user_idx (tasks s (running_thread s)) v" "user_idx (tasks s (running_thread s)) v < bm_bits ub" "ubm_ok ub"
    "ub = vaddr_bitmap (userprog_vaddr (tasks s (running_thread s)))"
    "\<not> in_window v" "v \<noteq> NULL" "\<not> present (pde_at s v)"
    "free_idx (bit_of PF_USER s) (mem s) \<noteq> {}" "free_idx (bit_of PF_KERNEL s) (mem s) \<noteq> {}"
  obtains i s' where "get_a_page PF_USER v s = Inr (Returns v, s')" "i \<in> free_idx (bit_of PF_USER s) (mem s)"
    "maps_page v (pool_frame (user_pool s) i) s s'" "vm_core s'" "lock_free user_pool_lock s'"
    "bm_used (mem s') ub (user_idx (tasks s (running_thread s)) v)"
    "stk s' = zero_in {pte_ptr v AND 0xfffff000} 0 (stk s)"
    "\<exists>m e tk st pm sv lh lr. s' = s\<lparr>mem := m, elems := e, tasks := tk, stk := st, pmem := pm, sem_value := sv, lock_holder := lh, lock_repeat := lr\<rparr>"
proof -
  let ?h = "holding user_pool_lock s" and ?j = "user_idx (tasks s (running_thread s)) v" and ?w = "pte_ptr v AND 0xfffff000"
  have wf: "bm_wf ub" and ub: "\<And>a. in_bytes ub a \<Longrightarrow> K_HEAP_START \<le> a \<and> \<not> in_window a" using assms(6) by (simp_all add: ubm_ok_def)
  define c where "c = ?h\<lparr>mem := bm_upd ub ?j True (mem s)\<rparr>"
  have claim: "claim_page PF_USER v ?h = Inr c"
    using claim_page_user [of ?h v ub] assms(3-5,7) wf by (simp add: c_def)
  have above: "\<forall>a. a < K_HEAP_START \<longrightarrow> mem c a = mem ?h a"
    using bm_upd_outside [OF wf assms(5)] ub by (auto simp: c_def not_le [symmetric])
  have core_c: "vm_core c" using vm_core_above(1) [of ?h "mem c"] above assms(1) by (simp add: c_def)
  have c: "bit_of pf c = bit_of pf s" "mem_pool pf c = mem_pool pf s" "pmem c = pmem s" "cr3 c = cr3 s" "running_thread c = running_thread s"
    "elems c = elems s" "stk c = stk s" for pf
    by (simp_all add: c_def running_thread_def holding_def bit_of_def mem_pool_def split: pool_flags.split)
  have free_c: "free_idx (bit_of pf s) (mem c) = free_idx (bit_of pf s) (mem s)" for pf
    using free_idx_above [of ?h "bit_of pf s" "mem c"] above assms(1) bit_of_in(1) [of pf ?h] by simp
  have up: "mem_pool PF_USER s = user_pool s" by (simp add: mem_pool_def)
  have "free_idx (bit_of PF_USER c) (mem c) \<noteq> {}" using assms(11) by (simp only: c free_c not_False_eq_True)
  then obtain i where "i \<in> free_idx (bit_of PF_USER c) (mem c)" and i2: "i < bm_bits (bit_of PF_USER c)" and
    "palloc (mem_pool PF_USER c) c = Inr (pool_frame (mem_pool PF_USER c) i, taken PF_USER i c)"
    "page_aligned (pool_frame (mem_pool PF_USER c) i)" "pool_frame (mem_pool PF_USER c) i \<noteq> NULL"
    using palloc_pool_cases [OF core_c, of PF_USER] by metis
  note i = this(1) [unfolded c] i2 this(3-5) [unfolded c up]
  let ?f = "pool_frame (user_pool s) i" and ?t = "taken PF_USER i c"
  have core_t: "vm_core ?t" using vm_core_taken [OF core_c i(2)] .
  have "?f \<notin> all_free ?t" unfolding all_free_taken [OF core_c i(2)] c up by simp
  moreover have "free_idx (bit_of PF_KERNEL ?t) (mem ?t) \<noteq> {}"
    using free_idx_taken(1) [of c i PF_USER PF_KERNEL] core_c i(2) free_c [of PF_KERNEL] assms(12) by (simp add: vm_core_def c)
  moreover have "\<not> present (pde_at ?t v)" using assms(10) by (simp add: c)
  ultimately obtain k u where u: "k \<in> free_idx (bit_of PF_KERNEL ?t) (mem ?t)" "page_table_add v ?f ?t = Inr u" "vm_core u"
    "maps_page v ?f ?t u" "u = cleared ?w ((taken PF_KERNEL k ?t)\<lparr>pmem := pmem u\<rparr>)"
    using add_absent [OF core_t assms(8,9) _ i(4,5)] by blast
  define s' where "s' = u\<lparr>sem_value := (sem_value u)(lock_sema user_pool_lock := 1),
    lock_holder := (lock_holder u)(user_pool_lock := NULL), lock_repeat := (lock_repeat u)(user_pool_lock := 0)\<rparr>"
  have ue: "u = s\<lparr>mem := mem u, elems := elems u, tasks := tasks u, stk := stk u, pmem := pmem u, sem_value := sem_value ?h,
      lock_holder := lock_holder ?h, lock_repeat := lock_repeat ?h\<rparr>"
    by (subst u(5), subst (1 2 3 4) u(5)) (simp add: cleared_def taken_def c_def holding_def)
  have taken: "mem (taken pf l r) = bm_upd (bit_of pf r) l True (mem r)" "elems (taken pf l r) = elems r" "stk (taken pf l r) = stk r" for pf l r
    by (simp_all add: taken_def)
  have el: "elems u = zero_in {?w} zero_elem (elems s)" "stk u = zero_in {?w} 0 (stk s)" "mem u = zero_in {?w} 0 (mem (taken PF_KERNEL k ?t))"
    by (subst u(5), simp add: cleared_wipe wipe_def c taken)+
  have run: "running_thread u = running_thread s" by (subst ue) (simp add: running_thread_def)
  have lf: "sem_value s (lock_sema user_pool_lock) = 1" "lock_holder s user_pool_lock = NULL" "lock_repeat s user_pool_lock = 0"
    "running_thread s \<noteq> NULL" "is_list (elems s) (waiters (lock_sema user_pool_lock)) []"
    using assms(2) by (simp_all add: lock_free_def)
  have "elems u a = elems s a" if "a \<in> set (list_nodes (waiters (lock_sema user_pool_lock)) [])" for a
  proof -
    have "\<not> in_window a" using that by (auto simp: list_nodes_def list_head_def list_tail_def waiters_def lock_sema_def user_pool_lock_def
      in_window_def drop_bit_eq_div)
    then have "a AND 0xfffff000 \<noteq> ?w" using window_page [of a] pte_page_in_window [of v] by metis
    then show ?thesis by (simp add: el zero_in_def)
  qed
  then have list: "is_list (elems u) (waiters (lock_sema user_pool_lock)) []" using lq.holds_frame [OF lf(5)] by blast
  have held: "sem_value u (lock_sema user_pool_lock) = 0" "lock_holder u user_pool_lock = running_thread u" "lock_repeat u user_pool_lock = 1"
    unfolding run by (subst ue, simp add: holding_def)+
  have rel: "lock_release user_pool_lock u = Inr s'"
    unfolding s'_def using held list by (rule lock_release_no_waiter)
  show thesis
  proof
    show "get_a_page PF_USER v s = Inr (Returns v, s')"
      using lock_acquire_holding [OF assms(2)] claim i(3,5) u(2) rel
      by (simp add: get_a_page_def get_a_page_body_def pool_lock_def c(2) up)
    show "i \<in> free_idx (bit_of PF_USER s) (mem s)" using i(1) by (simp only: free_c)
    show "maps_page v ?f s s'" using u(4) by (simp add: maps_page_def s'_def translate_def c)
    show "vm_core s'" using u(3) by (simp add: s'_def vm_core_def pool_bitmaps_def all_free_def)
    show "lock_free user_pool_lock s'" using lf(4) list run by (simp add: lock_free_def s'_def running_thread_def)
    have "bm_used (mem u) ub l = bm_used (mem c) ub l" if "l < bm_bits ub" for l
    proof (rule bm_used_frame [OF wf that])
      fix a assume a: "in_bytes ub a"
      then have "a AND 0xfffff000 \<noteq> ?w" using ub window_page [of a] pte_page_in_window [of v] by metis
      moreover have "mem (taken PF_KERNEL k ?t) a = mem ?t a" using taken_above [OF core_t u(1)] ub [OF a] by blast
      moreover have "mem ?t a = mem c a" using taken_above [OF core_c, of i PF_USER a] i(1) ub [OF a] by (simp only: c)
      ultimately show "mem u a = mem c a" by (simp add: el(3) zero_in_def)
    qed
    then show "bm_used (mem s') ub ?j" using assms(5) bm_used_upd [OF wf assms(5,5)] by (simp add: s'_def c_def)
    show "stk s' = zero_in {?w} 0 (stk s)" by (simp add: s'_def el)
    show "\<exists>m e tk st pm sv lh lr. s' = s\<lparr>mem := m, elems := e, tasks := tk, stk := st, pmem := pm, sem_value := sv, lock_holder := lh, lock_repeat := lr\<rparr>"
      unfolding s'_def by (subst ue) (intro exI, simp)
  qed
qed


section \<open>Entering the user program\<close>

definition user_segs :: "'a segs_scheme \<Rightarrow> bool" where
  "user_segs s \<longleftrightarrow>
     (\<exists>d. seg_desc SELECTOR_U_CODE s = Some d \<and> code_ok d 3 0) \<and>
     (\<exists>d. seg_desc SELECTOR_U_DATA s = Some d \<and> stack_ok d SELECTOR_U_DATA 3 \<and> data_ok d SELECTOR_U_DATA 3)"

lemma user_segs_cong: "gdt r = gdt s \<Longrightarrow> gdtr r = gdtr s \<Longrightarrow> user_segs r = user_segs s"
  using seg_desc_cong [of r s] by (simp add: user_segs_def)

text \<open>\<open>tss_init\<close> provides the two segments.\<close>

lemma tss_init_user_segs: "user_segs (tss_init s)"
proof -
  have g: "gdtr (tss_init s) = 0xc00009000037" "gdt (tss_init s) 0xc0000928 = make_gdt_desc 0 0xfffff GDT_CODE_ATTR_LOW_DPL3 GDT_ATTR_HIGH"
    "gdt (tss_init s) 0xc0000930 = make_gdt_desc 0 0xfffff GDT_DATA_ATTR_LOW_DPL3 GDT_ATTR_HIGH"
    using tss_init_state [of s] by auto
  have "seg_desc SELECTOR_U_CODE (tss_init s) = Some (make_gdt_desc 0 0xfffff GDT_CODE_ATTR_LOW_DPL3 GDT_ATTR_HIGH)"
    "seg_desc SELECTOR_U_DATA (tss_init s) = Some (make_gdt_desc 0 0xfffff GDT_DATA_ATTR_LOW_DPL3 GDT_ATTR_HIGH)"
    unfolding seg_desc_def g(1) gdt_entries g(2,3) by (simp_all add: null_sel_def selectors)
  then show ?thesis
    by (simp add: user_segs_def)
       (simp add: selectors code_ok_def stack_ok_def data_ok_def desc_present_def desc_type_def desc_dpl_def make_gdt_desc_def gdt_constants)
qed

text \<open>The frame that \<open>start_process\<close> builds at \<open>p\<close> before it has the page of the user stack.\<close>

definition user_frame :: "addr \<Rightarrow> u32 \<Rightarrow> (addr \<Rightarrow> u32) \<Rightarrow> bool" where
  "user_frame p fn m \<longleftrightarrow> (\<forall>k \<in> {4, 8, 12, 16, 20, 24, 28, 32, 36}. m (p + k) = 0) \<and> (\<forall>k \<in> {40, 44, 48}. m (p + k) = ucast SELECTOR_U_DATA) \<and>
     m (p + 56) = fn \<and> m (p + 60) = ucast SELECTOR_U_CODE \<and> m (p + 64) = 0x202"

lemma user_frame_kept: "user_frame p fn m \<Longrightarrow> (\<And>k. unat k < 68 \<Longrightarrow> m' (p + k) = m (p + k)) \<Longrightarrow> user_frame p fn m'"
  by (simp add: user_frame_def)

lemma start_process_frame_run:
  assumes "self_kstack (tasks s (running_thread s)) = running_thread s + 3664" "p = running_thread s + 3792"
  obtains tk st where "start_process_frame fn s = (p, s\<lparr>tasks := tk, stk := st\<rparr>)" "user_frame p fn st"
    "tk (running_thread s) = (tasks s (running_thread s))\<lparr>self_kstack := p\<rparr>"
  using assms by (simp add: start_process_frame_def Let_def store_stk_def upd_task_def sizeof_thread_stack_def user_frame_def
      EFLAGS_IOPL_0_def EFLAGS_MBS_def EFLAGS_IF_1_def add.commute [of _ "running_thread s"])

lemma user_frame_exit:
  assumes "user_frame p fn (stk s)" "stk s (p + 68) = sp" "stk s (p + 72) = ucast SELECTOR_U_DATA" "user_segs s" "seg_cs s AND 3 = 0"
  shows "intr_exit (s\<lparr>esp := p\<rparr>) = Inr (s\<lparr>edi := 0, esi := 0, ebp := 0, ebx := 0, edx := 0, ecx := 0, eax := 0, seg_gs := 0,
    seg_fs := SELECTOR_U_DATA, seg_es := SELECTOR_U_DATA, seg_ds := SELECTOR_U_DATA, eip := fn, seg_cs := SELECTOR_U_CODE, eflags := 0x202,
    esp := sp, seg_ss := SELECTOR_U_DATA\<rparr>)"
proof -
  let ?q = "s\<lparr>esp := p\<rparr>" and ?D = SELECTOR_U_DATA
  obtain d e where d: "seg_desc SELECTOR_U_CODE s = Some d" "code_ok d 3 0" and e: "seg_desc ?D s = Some e" "stack_ok e ?D 3" "data_ok e ?D 3"
    using assms(4) by (auto simp: user_segs_def)
  have hold: "stack_holds ?q (stk s p # 0 # 0 # 0 # 0 # 0 # 0 # 0 # 0 # ucast (0 :: u16) # ucast ?D # ucast ?D # ucast ?D # stk s (p + 52) #
      [fn, ucast SELECTOR_U_CODE, 0x202, sp, ucast ?D])"
    using assms(1-3) by (simp add: stack_holds_def user_frame_def add.commute [of _ p])
  have ok3: "data_sel_ok ?D 3 r" "data_sel_ok 0 3 r" if "gdt r = gdt s" "gdtr r = gdtr s" for r :: "'a procs_scheme"
    using e(1,3) seg_desc_cong [OF that] by (simp_all add: data_sel_ok_def null_sel_def)
  have c: "cpl ?q = 0" using assms(5) by (simp add: cpl_def)
  have "\<forall>sel \<in> {0, ?D, ?D, ?D}. data_sel_ok sel 0 ?q" using ok3 [of ?q] data_sel_ok_mono by auto
  note ex = intr_exit_run [OF hold c this]
  define t where "t = ?q\<lparr>edi := 0, esi := 0, ebp := 0, ebx := 0, edx := 0, ecx := 0, eax := 0,
    seg_gs := 0, seg_fs := ?D, seg_es := ?D, seg_ds := ?D, esp := esp ?q + 56\<rparr>"
  have t: "gdt t = gdt s" "gdtr t = gdtr s" "cpl t = 0" "seg_ds t = ?D" "seg_es t = ?D" "seg_fs t = ?D" "seg_gs t = 0"
    using assms(5) by (simp_all add: t_def cpl_def)
  have rpl: "SELECTOR_U_CODE AND 3 = 3" by (simp add: selectors)
  have "stack_holds t [fn, ucast SELECTOR_U_CODE, 0x202, sp, ucast ?D]" using ex(2) by (simp add: t_def)
  then have "iretd t = Inr (t\<lparr>eip := fn, seg_cs := SELECTOR_U_CODE, eflags := 0x202, esp := sp, seg_ss := ?D\<rparr>)"
    using d e ok3 [OF t(1,2)] t(3-7) seg_desc_cong [OF t(1,2)]
    by (intro iretd_outer [of _ _ _ _ _ _ "[]" d e]) (simp_all add: rpl)
  then show ?thesis using ex(1) by (simp flip: t_def) (simp add: t_def)
qed

text \<open>The state in which a new process first runs \<open>start_process\<close>.\<close>

definition process_starts :: "addr \<Rightarrow> 'a procs_scheme \<Rightarrow> bool" where
  "process_starts v s \<longleftrightarrow>
     (let t = tasks s (running_thread s)
      in vm_core s \<and> lock_free user_pool_lock s \<and> \<not> in_window (running_thread s) \<and> self_kstack t = running_thread s + 3664 \<and>
         pgdir t \<noteq> NULL \<and> 0 < user_idx t v \<and> user_idx t v < bm_bits (vaddr_bitmap (userprog_vaddr t)) \<and>
         ubm_ok (vaddr_bitmap (userprog_vaddr t)) \<and> \<not> in_window v \<and> v \<noteq> NULL \<and> \<not> present (pde_at s v) \<and>
         user_segs s \<and> seg_cs s AND 3 = 0)"

text \<open>The page of the user stack, from the state in which the frame is built.\<close>

lemma start_process_page:
  assumes "process_starts v s" "free_idx (bit_of PF_USER s) (mem s) \<noteq> {}" "free_idx (bit_of PF_KERNEL s) (mem s) \<noteq> {}"
    "tk (running_thread s) = (tasks s (running_thread s))\<lparr>self_kstack := p\<rparr>"
  obtains i s2 where "get_a_page PF_USER v (s\<lparr>tasks := tk, stk := st\<rparr>) = Inr (Returns v, s2)" "i \<in> free_idx (bit_of PF_USER s) (mem s)"
    "maps_page v (pool_frame (user_pool s) i) s s2" "vm_core s2" "lock_free user_pool_lock s2"
    "bm_used (mem s2) (vaddr_bitmap (userprog_vaddr (tasks s (running_thread s)))) (user_idx (tasks s (running_thread s)) v)"
    "stk s2 = zero_in {pte_ptr v AND 0xfffff000} 0 st" "gdt s2 = gdt s" "gdtr s2 = gdtr s" "seg_cs s2 = seg_cs s"
proof -
  let ?s = "s\<lparr>tasks := tk, stk := st\<rparr>" and ?k = "tasks s (running_thread s)"
  let ?ub = "vaddr_bitmap (userprog_vaddr ?k)"
  have a: "vm_core s" "lock_free user_pool_lock s" "pgdir ?k \<noteq> NULL" "0 < user_idx ?k v" "user_idx ?k v < bm_bits ?ub" "ubm_ok ?ub"
    "\<not> in_window v" "v \<noteq> NULL" "\<not> present (pde_at s v)"
    using assms(1) by (simp_all add: process_starts_def Let_def)
  have run: "running_thread ?s = running_thread s" by (simp add: running_thread_def)
  have k: "user_idx (tasks ?s (running_thread ?s)) v = user_idx ?k v" "userprog_vaddr (tasks ?s (running_thread ?s)) = userprog_vaddr ?k"
    "pgdir (tasks ?s (running_thread ?s)) = pgdir ?k"
    using assms(4) by (simp_all add: run user_idx_def)
  have bit: "bit_of pf ?s = bit_of pf s" for pf by (simp add: bit_of_def mem_pool_def split: pool_flags.split)
  have core: "vm_core ?s" using a(1) by (simp add: vm_core_def pool_bitmaps_def all_free_def)
  have lf: "lock_free user_pool_lock ?s" using a(2) by (simp add: lock_free_def running_thread_def)
  have u: "pgdir (tasks ?s (running_thread ?s)) \<noteq> NULL" "0 < user_idx (tasks ?s (running_thread ?s)) v"
    "user_idx (tasks ?s (running_thread ?s)) v < bm_bits ?ub" "?ub = vaddr_bitmap (userprog_vaddr (tasks ?s (running_thread ?s)))"
    unfolding k using a(3-5) by simp_all
  have np: "\<not> present (pde_at ?s v)" using a(9) by simp
  have fr: "free_idx (bit_of PF_USER ?s) (mem ?s) \<noteq> {}" "free_idx (bit_of PF_KERNEL ?s) (mem ?s) \<noteq> {}" using assms(2,3) by (simp_all add: bit)
  obtain i s2 where r: "get_a_page PF_USER v ?s = Inr (Returns v, s2)" "i \<in> free_idx (bit_of PF_USER ?s) (mem ?s)"
    "maps_page v (pool_frame (user_pool ?s) i) ?s s2" "vm_core s2" "lock_free user_pool_lock s2"
    "bm_used (mem s2) ?ub (user_idx (tasks ?s (running_thread ?s)) v)" "stk s2 = zero_in {pte_ptr v AND 0xfffff000} 0 (stk ?s)"
    "\<exists>m e tk st pm sv lh lr. s2 = ?s\<lparr>mem := m, elems := e, tasks := tk, stk := st, pmem := pm, sem_value := sv, lock_holder := lh, lock_repeat := lr\<rparr>"
    by (rule get_a_page_user [OF core lf u(1-3) a(6) u(4) a(7,8) np fr])
  show thesis
  proof
    show "maps_page v (pool_frame (user_pool s) i) s s2" using r(3) by (simp add: maps_page_def translate_def)
    show "bm_used (mem s2) ?ub (user_idx ?k v)" using r(6) unfolding k .
    show "gdt s2 = gdt s" "gdtr s2 = gdtr s" "seg_cs s2 = seg_cs s" using r(8) by auto
    show "i \<in> free_idx (bit_of PF_USER s) (mem s)" using r(2) by (simp add: bit)
  qed (use r(1,4,5,7) in simp_all)
qed

lemma frame_page: "page_aligned t \<Longrightarrow> unat k < 300 \<Longrightarrow> (t + 3792 + k) AND 0xfffff000 = t"
proof -
  assume t: "page_aligned t" and k: "unat k < 300"
  have "unat (3792 + k) = 3792 + unat k" using k by (simp add: unat_add_u32)
  then show ?thesis unfolding add.assoc using t k by (intro page_mask_in_page) simp_all
qed

lemma running_page: "page_aligned (running_thread s)"
  by simp

text \<open>
  C7: \<open>start_process\<close>, run for the first time by a process whose directory has no table for the stack address yet,
  with a free frame in each pool, maps the page of the user stack to a frame of the user pool and enters the
  program at privilege 3: with the address of the program, the top of the stack page, interrupts on, user
  segments and zero in all other registers. The page is marked as used and the lock of the pool is free again.
\<close>

theorem start_process_enters_user:
  assumes "process_starts v s" "free_idx (bit_of PF_USER s) (mem s) \<noteq> {}" "free_idx (bit_of PF_KERNEL s) (mem s) \<noteq> {}"
  shows "\<exists>i s'. start_process v fn s = Inr (Returns (), s') \<and> i \<in> free_idx (bit_of PF_USER s) (mem s) \<and>
    maps_page v (pool_frame (user_pool s) i) s s' \<and> vm_core s' \<and> sem_value s' (lock_sema user_pool_lock) = 1 \<and>
    bm_used (mem s') (vaddr_bitmap (userprog_vaddr (tasks s (running_thread s)))) (user_idx (tasks s (running_thread s)) v) \<and>
    cpl s' = 3 \<and> eip s' = fn \<and> esp s' = v + 4096 \<and> eflags s' = 0x202 \<and>
    (seg_ss s', seg_ds s', seg_es s', seg_fs s', seg_gs s') = (SELECTOR_U_DATA, SELECTOR_U_DATA, SELECTOR_U_DATA, SELECTOR_U_DATA, 0) \<and>
    (eax s', ebx s', ecx s', edx s', esi s', edi s', ebp s') = (0, 0, 0, 0, 0, 0, 0)"
proof -
  let ?t = "running_thread s" and ?D = SELECTOR_U_DATA
  let ?k = "tasks s ?t"
  define p where "p = ?t + 3792"
  have a: "\<not> in_window ?t" "self_kstack ?k = ?t + 3664" "user_segs s" "seg_cs s AND 3 = 0" using assms(1) by (simp_all add: process_starts_def Let_def)
  obtain tk st where s1: "start_process_frame fn s = (p, s\<lparr>tasks := tk, stk := st\<rparr>)" "user_frame p fn st" "tk ?t = ?k\<lparr>self_kstack := p\<rparr>"
    using start_process_frame_run [OF a(2) p_def] .
  obtain i s2 where r: "get_a_page PF_USER v (s\<lparr>tasks := tk, stk := st\<rparr>) = Inr (Returns v, s2)" "i \<in> free_idx (bit_of PF_USER s) (mem s)"
    "maps_page v (pool_frame (user_pool s) i) s s2" "vm_core s2" "lock_free user_pool_lock s2"
    "bm_used (mem s2) (vaddr_bitmap (userprog_vaddr ?k)) (user_idx ?k v)"
    "stk s2 = zero_in {pte_ptr v AND 0xfffff000} 0 st" "gdt s2 = gdt s" "gdtr s2 = gdtr s" "seg_cs s2 = seg_cs s"
    by (rule start_process_page [of v s tk p st, OF assms s1(3)])
  define s3 where "s3 = store_stk (p + 72) (ucast ?D) (store_stk (p + 68) (v + PG_SIZE) s2)"
  have "?t \<noteq> pte_ptr v AND 0xfffff000" using a(1) pte_page_in_window [of v] by auto
  then have "stk s3 (p + k) = st (p + k)" if "unat k < 68" for k
    using frame_page [OF running_page [of s], of k, folded p_def] r(7) that by (auto simp: zero_in_def s3_def store_stk_def)
  then have "user_frame p fn (stk s3)" by (rule user_frame_kept [OF s1(2)])
  moreover have "user_segs s3" using a(3) r(8,9) user_segs_cong [of s3 s] by (simp add: s3_def store_stk_def)
  ultimately have ex: "intr_exit (s3\<lparr>esp := p\<rparr>) = Inr (s3\<lparr>edi := 0, esi := 0, ebp := 0, ebx := 0, edx := 0, ecx := 0, eax := 0, seg_gs := 0,
    seg_fs := ?D, seg_es := ?D, seg_ds := ?D, eip := fn, seg_cs := SELECTOR_U_CODE, eflags := 0x202, esp := v + PG_SIZE, seg_ss := ?D\<rparr>)"
    (is "_ = Inr ?s'") using a(4) r(10) by (intro user_frame_exit) (simp_all add: s3_def store_stk_def)
  have "start_process v fn s = Inr (Returns (), ?s')"
    using r(1) ex by (simp add: start_process_def s1(1) start_process_enter_def flip: s3_def)
  moreover have "maps_page v (pool_frame (user_pool s) i) s ?s'" using r(3) by (simp add: maps_page_def translate_def s3_def store_stk_def)
  moreover have "vm_core ?s'" using r(4) by (simp add: vm_core_def pool_bitmaps_def all_free_def s3_def store_stk_def)
  moreover have "sem_value ?s' (lock_sema user_pool_lock) = 1" using r(5) by (simp add: lock_free_def s3_def store_stk_def)
  moreover have "bm_used (mem ?s') (vaddr_bitmap (userprog_vaddr ?k)) (user_idx ?k v)" using r(6) by (simp add: s3_def store_stk_def)
  ultimately show ?thesis
    using r(2) by (intro exI [of _ i] exI [of _ ?s']) (simp add: cpl_def selectors PG_SIZE_def)
qed

text \<open>A process with its control block at 0xc0100000 that runs at privilege 0 in the directory of the boot.\<close>

definition procs1 :: procs where
  "procs1 = segs.extend
     ((tss_init segs0)\<lparr>esp := 0xc0100ff0,
        tasks := (tasks segs0)(0xc0100000 := (process_task 0x8048000 0xc0100000 0xc0101000 (cstr ''prog'') 31)\<lparr>pgdir := 0xc0118000\<rparr>)\<rparr>)
     (procs.fields 0 0 0 SELECTOR_K_CODE SELECTOR_K_DATA SELECTOR_K_DATA SELECTOR_K_DATA SELECTOR_K_DATA 0)"

lemma procs1_simps:
  "tasks procs1 0xc0100000 = (process_task 0x8048000 0xc0100000 0xc0101000 (cstr ''prog'') 31)\<lparr>pgdir := 0xc0118000\<rparr>"
  "esp procs1 = 0xc0100ff0" "seg_cs procs1 = SELECTOR_K_CODE" "gdt procs1 = gdt (tss_init segs0)" "gdtr procs1 = gdtr (tss_init segs0)"
  "pmem procs1 = pmem (tss_init segs0)" "cr3 procs1 = cr3 (tss_init segs0)"
  by (simp_all add: procs1_def segs.extend_def procs.fields_def)

lemma procs1_pages: "pmem procs1 = pm0" "cr3 procs1 = 0x100000"
  using segs0_simps(4,5) by (simp_all add: procs1_simps tss_init_def Let_def put_str_def ltr_def lgdt_def set_desc_def)

lemma user_bitmap0: "ubm_ok (user_bitmap 0x8048000 0xc0101000)" "bm_bits (user_bitmap 0x8048000 0xc0101000) = 753592"
proof -
  have len: "user_bitmap_len 0x8048000 = 94199" by (simp add: user_bitmap_len_def PG_SIZE_def)
  have "K_HEAP_START \<le> a \<and> \<not> in_window a" if "unat (a - 0xc0101000) < 94199" for a
  proof -
    have e: "a = 0xc0101000 + (a - 0xc0101000)" by simp
    have "unat a = 3222278144 + unat (a - 0xc0101000)" by (subst e, subst unat_add_u32) (use that in simp_all)
    then show ?thesis using that by (auto simp: K_HEAP_START_def word_le_nat_alt in_window_unat unat_pde_idx simp del: drop_bit_eq_div)
  qed
  then show "ubm_ok (user_bitmap 0x8048000 0xc0101000)" "bm_bits (user_bitmap 0x8048000 0xc0101000) = 753592"
    by (simp_all add: ubm_ok_def bm_wf_def bm_bits_def user_bitmap_def len in_bytes_def)
qed

theorem start_process_enters_user_witness:
  "\<exists>s s'. mem_pool_init 0x2000000 procs1 = Inr s \<and> process_starts 0xbffff000 s \<and> start_process 0xbffff000 0x8048000 s = Inr (Returns (), s') \<and>
     cpl s' = 3 \<and> eip s' = 0x8048000 \<and> esp s' = 0xc0000000 \<and> translate s' 0xbffff000 \<noteq> None"
proof -
  let ?v = "0xbffff000 :: u32"
  have run: "running_thread procs1 = 0xc0100000" by (simp add: running_thread_def procs1_simps)
  have fit: "bitmaps_fit 0x2000000 (running_thread procs1)"
    unfolding run by (rule bitmaps_fit_outside) (simp add: lengths_32mb)
  have boot: "boot_tables procs1" using boot_tables_cong [of procs1 "mems0 nodes_ready"] boot_tables0 by (simp add: procs1_pages mems0_simps)
  obtain s where s: "mem_pool_init 0x2000000 procs1 = Inr s" "vm_inv s"
    "kernel_pool s = init_kernel_pool 0x2000000" "user_pool s = init_user_pool 0x2000000"
    "free_idx (bit_of PF_KERNEL s) (mem s) = {..<bm_bits (bit_of PF_KERNEL s)}"
    "free_idx (bit_of PF_USER s) (mem s) = {..<bm_bits (bit_of PF_USER s)}"
    "pmem s = pm0" "cr3 s = 0x100000" "tasks s = tasks procs1" "esp s = 0xc0100ff0" "lock_free user_pool_lock s"
    by (rule mem_pool_init_vm_inv [OF boot, of "0x2000000"]) (use run fit in \<open>simp_all add: procs1_simps(2) procs1_pages\<close>)
  obtain w m where "mem_pool_init 0x2000000 procs1 = Inr ((pool_locks_init procs1)\<lparr>screen := w, mem := m, kernel_pool := init_kernel_pool 0x2000000,
      user_pool := init_user_pool 0x2000000, kernel_vaddr := init_kernel_vaddr 0x2000000\<rparr>)"
    using mem_pool_init_run [OF fit] .
  moreover have "gdt (pool_locks_init procs1) = gdt procs1" "gdtr (pool_locks_init procs1) = gdtr procs1" "seg_cs (pool_locks_init procs1) = seg_cs procs1"
    by (subst pool_locks_init_eq, simp)+
  ultimately have seg: "gdt s = gdt (tss_init segs0)" "gdtr s = gdtr (tss_init segs0)" "seg_cs s = SELECTOR_K_CODE"
    using s(1) by (auto simp: procs1_simps)
  have t: "running_thread s = 0xc0100000" by (simp add: running_thread_def s(10))
  have idx: "didx ?v = 767" "\<not> in_window ?v" "\<not> in_window 0xc0100000" by (simp_all add: unat_pde_idx dir_idx_def in_window_unat)
  then have np: "\<not> present (pm0 (pde_slot 0x100000 ?v))" by (simp add: pde0_present del: drop_bit_numeral_bit0)
  have "user_segs s" using user_segs_cong [OF seg(1,2)] tss_init_user_segs by blast
  moreover have "vm_core s" using s(2) by (simp add: vm_inv_def)
  moreover have "user_idx (tasks s 0xc0100000) ?v = 753591" by (simp add: s(9) procs1_simps process_task_def user_idx_def)
  ultimately have starts: "process_starts ?v s"
    using s(11) idx(2,3) np user_bitmap0 
    by (simp add: process_starts_def Let_def t seg(3) SELECTOR_K_CODE_def s(7-9) procs1_simps(1)) (simp add: process_task_def)
  have free: "free_idx (bit_of PF_USER s) (mem s) \<noteq> {}" "free_idx (bit_of PF_KERNEL s) (mem s) \<noteq> {}"
    using s(5,6) by (simp_all add: bit_of_def mem_pool_def s(3,4) bm_bits_def init_kernel_pool_def init_user_pool_def lengths_32mb lessThan_empty_iff)
  obtain i s' where "start_process ?v 0x8048000 s = Inr (Returns (), s')" "maps_page ?v (pool_frame (user_pool s) i) s s'"
    "cpl s' = 3" "eip s' = 0x8048000" "esp s' = ?v + 4096"
    using start_process_enters_user [OF starts free, of "0x8048000"] by blast
  then show ?thesis using s(1) starts by (intro exI [of _ s] exI [of _ s']) (simp add: maps_page_def)
qed

end
