(* ===== verification/Handler_Types.thy ===== *)
theory Handler_Types
  imports Trap
begin

text \<open>
  The sizes of the arrays that interrupt handlers use, as an invariant: no handler indexes an array out of its bounds, and
  every handler leaves the arrays with their sizes and the positions of the keyboard queue inside its buffer.

  \<open>safe P r\<close> is a judgement on results: \<open>r\<close> is not an access out of bounds, and a state in it satisfies \<open>P\<close>.
\<close>

section \<open>Safe results\<close>

definition safe :: "('a \<Rightarrow> bool) \<Rightarrow> err + 'a \<Rightarrow> bool" where
  "safe P r \<longleftrightarrow> (case r of Inl e \<Rightarrow> (\<forall>x. e \<noteq> Out_Of_Bounds x) | Inr s \<Rightarrow> P s)"

lemma safe_Inr [simp]: "safe P (Inr s) = P s" by (simp add: safe_def)

lemma safe_PANIC [simp]: "safe P (PANIC file line func cond)" by (simp add: safe_def PANIC_def)

lemma safe_ASSERT: "(c \<Longrightarrow> safe P r) \<Longrightarrow> safe P (ASSERT c file line func cond r)"
  by (simp add: ASSERT_def)

lemma safe_bindE: "safe Q r \<Longrightarrow> (\<And>x. Q x \<Longrightarrow> safe P (f x)) \<Longrightarrow> safe P (bindE r f)"
  by (cases r) (simp_all add: safe_def)

lemma safe_if: "(c \<Longrightarrow> safe P r) \<Longrightarrow> (\<not> c \<Longrightarrow> safe P q) \<Longrightarrow> safe P (if c then r else q)"
  by simp

lemma safe_mono: "safe Q r \<Longrightarrow> (\<And>x. Q x \<Longrightarrow> P x) \<Longrightarrow> safe P r"
  by (cases r) (simp_all add: safe_def)

lemmas safe_rules = safe_ASSERT safe_if

section \<open>What the scheduler leaves alone\<close>

text \<open>Everything of the state that is declared after the threads.\<close>

abbreviation (input) same_rest :: "'a threads_scheme \<Rightarrow> 'a threads_scheme \<Rightarrow> bool" where
  "same_rest s s' \<equiv> threads.more s' = threads.more s"

lemma rest_updates [simp]:
  "threads.more (s\<lparr>elems := e\<rparr>) = threads.more s" "threads.more (s\<lparr>eflags := x\<rparr>) = threads.more s" "threads.more (s\<lparr>esp := x\<rparr>) = threads.more s"
  "threads.more (s\<lparr>ebp := x\<rparr>) = threads.more s" "threads.more (s\<lparr>ebx := x\<rparr>) = threads.more s" "threads.more (s\<lparr>edi := x\<rparr>) = threads.more s"
  "threads.more (s\<lparr>esi := x\<rparr>) = threads.more s" "threads.more (s\<lparr>eip := x\<rparr>) = threads.more s"
  "threads.more (s\<lparr>tasks := t\<rparr>) = threads.more s" "threads.more (s\<lparr>stk := m\<rparr>) = threads.more s" "threads.more (s\<lparr>thread_tag := a\<rparr>) = threads.more s"
  by (cases s, simp)+

lemma rest_flags [simp]:
  "threads.more (snd (intr_disable s)) = threads.more s" "threads.more (snd (intr_set_status st s)) = threads.more s"
  by (simp_all add: intr_disable_def intr_set_status_def intr_enable_def sti_def cli_def Let_def split: intr_status.split)

lemma rest_upd_task [simp]: "threads.more (upd_task t f s) = threads.more s"
  by (simp add: upd_task_def)

lemma insert_rest: "safe (same_rest s) (list_insert_before before elem s)"
  unfolding list_insert_before_def
  by (rule safe_ASSERT) (simp add: Let_def case_prod_beta set_prev_def set_next_def)

lemma remove_rest: "safe (same_rest s) (list_remove elem s)"
  unfolding list_remove_def
  by (rule safe_ASSERT) (simp add: Let_def case_prod_beta set_prev_def set_next_def)

lemma pop_rest: "safe (\<lambda>(a, s'). same_rest s s') (list_pop plist s)"
  unfolding list_pop_def Let_def
  by (intro safe_ASSERT safe_bindE [OF remove_rest]) simp

lemma find_safe: "safe (\<lambda>_. True) (elem_find plist elem s)"
  unfolding elem_find_def by (rule safe_ASSERT) (simp add: safe_def returns_def split: option.split)

lemma empty_safe: "safe (\<lambda>_. True) (list_empty plist s)"
  unfolding list_empty_def by (rule safe_ASSERT) simp

lemma switch_rest: "threads.more (call_switch_to cur nxt s) = threads.more s"
  by (simp add: call_switch_to_def switch_to_def push32_def pop32_def Let_def)

lemma schedule_rest: "safe (same_rest s) (schedule s)"
  unfolding schedule_def list_append_def
  apply (rule safe_ASSERT, unfold Let_def)
  apply (rule safe_bindE [where Q = "same_rest s"])
   apply (intro safe_if safe_bindE [OF find_safe] safe_ASSERT safe_bindE [OF insert_rest], simp_all)
  apply (intro safe_bindE [OF empty_safe] safe_ASSERT safe_bindE [OF pop_rest])
  apply (auto simp: switch_rest)
  done

lemma unblock_rest: "safe (same_rest s) (thread_unblock t s)"
  unfolding thread_unblock_def list_push_def
  apply (simp only: Let_def case_prod_beta)
  apply (rule safe_ASSERT)
  apply (rule safe_bindE [where Q = "same_rest s"])
   apply (intro safe_if safe_bindE [OF find_safe] safe_ASSERT safe_bindE [OF insert_rest], simp_all)
  done

section \<open>The arrays of the handlers\<close>

definition kernel_typed :: "'a queues_scheme \<Rightarrow> bool" where
  "kernel_typed s \<longleftrightarrow> length (idt s) = IDT_DESC_CNT \<and> length (idt_table s) = IDT_DESC_CNT \<and> length (intr_name s) = IDT_DESC_CNT \<and>
     (let q = ioqs s kbd_buf in length (buffer q) = 64 \<and> unat (head q) < 64 \<and> unat (tail q) < 64)"

text \<open>\<open>intact s s'\<close>: the tables are the same and the arrays still have their sizes.\<close>

definition intact :: "'a queues_scheme \<Rightarrow> 'a queues_scheme \<Rightarrow> bool" where
  "intact s s' \<longleftrightarrow> kernel_typed s' \<and> idt s' = idt s \<and> idt_table s' = idt_table s"

lemma rest_fields:
  assumes "threads.more s' = threads.more s"
  shows "idt s' = idt (s :: 'a queues_scheme)" "idt_table s' = idt_table s" "intr_name s' = intr_name s" "ioqs s' = ioqs s"
  using assms by (cases s; cases s'; simp)+

lemma intact_rest: "threads.more s' = threads.more s \<Longrightarrow> kernel_typed s \<Longrightarrow> intact s s'"
  using rest_fields [of s' s] by (simp add: intact_def kernel_typed_def)

lemma intact_trans: "intact s t \<Longrightarrow> intact t u \<Longrightarrow> intact s u"
  by (simp add: intact_def)

lemma timer_intact:
  assumes "kernel_typed s"
  shows "safe (intact s) (intr_timer_handler s)"
proof -
  let ?cur = "running_thread s"
  define t where "t = (upd_task ?cur (\<lambda>t. t\<lparr>elapsed_ticks := elapsed_ticks t + 1\<rparr>) s)\<lparr>ticks := ticks s + 1\<rparr>"
  have t: "intact s t" using assms by (simp add: intact_def kernel_typed_def t_def upd_task_def)
  then have typed: "kernel_typed t" by (simp add: intact_def)
  have "safe (intact s) (schedule t)"
    by (rule safe_mono [OF schedule_rest]) (rule intact_trans [OF t intact_rest [OF _ typed]])
  moreover have "intact s (upd_task ?cur f t)" for f by (rule intact_trans [OF t intact_rest [OF _ typed]]) simp
  moreover have "ticks (upd_task ?cur f s) = ticks s" for f by (simp add: upd_task_def)
  ultimately show ?thesis
    unfolding intr_timer_handler_def Let_def by (intro safe_ASSERT safe_if) (simp_all flip: t_def)
qed

lemma next_pos_range: "unat (next_pos p) < 64"
  by (simp add: next_pos_def bufsize_def unat_mod)

lemma offer_intact:
  assumes "kernel_typed s"
  shows "safe (intact s) (offer_char kbd_buf c s)"
proof (cases "intr_get_status s = INTR_OFF \<and> next_pos (tail (ioqs s kbd_buf)) \<noteq> head (ioqs s kbd_buf)")
  case False
  have "intact s s" using assms by (simp add: intact_def)
  then show ?thesis using False by (auto simp: offer_char_def ioq_full_def ASSERT_def PANIC_def safe_def)
next
  case True
  define t where "t = upd_ioq kbd_buf (\<lambda>q. q\<lparr>head := next_pos (head q)\<rparr>) (upd_ioq kbd_buf (\<lambda>q. q\<lparr>buffer := (buffer q)[unat (head q) := c]\<rparr>) s)"
  have t: "intact s t" using assms next_pos_range by (simp add: intact_def kernel_typed_def t_def upd_ioq_def Let_def)
  then have typed: "kernel_typed t" by (simp add: intact_def)
  have "safe (intact t) (wake_waiter Consumer kbd_buf t)"
    unfolding wake_waiter_def wakeup_def
  proof (intro safe_if safe_ASSERT safe_bindE [OF unblock_rest])
    fix u assume "threads.more u = threads.more t"
    from intact_rest [OF this typed] typed show "safe (intact t) (Inr (upd_ioq kbd_buf (set_waiter Consumer NULL) u))"
      by (simp add: intact_def kernel_typed_def upd_ioq_def set_waiter_def Let_def)
  qed (use typed in \<open>simp add: intact_def\<close>)
  then have "safe (\<lambda>(_, u). intact t u) (bindE (wake_waiter Consumer kbd_buf t) (\<lambda>s. Inr (Got () :: unit ioq_result, s)))"
    by (rule safe_bindE) simp
  then have "safe (\<lambda>(r, u). intact t u) (ioq_putchar kbd_buf c s)"
    using True by (simp add: ioq_putchar_def putchar_loop_def ioq_full_def ASSERT_def Let_def t_def)
  then have "safe (intact s) (bindE (ioq_putchar kbd_buf c s) (\<lambda>(r, s). case r of Got _ \<Rightarrow> Inr s | Ioq_Blocked _ \<Rightarrow> Inl (Suspended ''ioq_putchar'')))"
    by (rule safe_bindE) (auto intro: intact_trans [OF t] simp: safe_def split: ioq_result.split)
  then show ?thesis using True by (simp add: offer_char_def ioq_full_def ASSERT_def)
qed

lemma keys_frame:
  "ioqs (key_released m u) = ioqs u" "idt (key_released m u) = idt u" "idt_table (key_released m u) = idt_table u" "intr_name (key_released m u) = intr_name u"
  "ioqs (modifier_pressed m u) = ioqs u" "idt (modifier_pressed m u) = idt u" "idt_table (modifier_pressed m u) = idt_table u"
  "intr_name (modifier_pressed m u) = intr_name u"
  by (simp_all only: key_released_def modifier_pressed_def) (simp_all split: if_split)

lemma put_str_frame:
  "ioqs (put_str str u) = ioqs u" "idt (put_str str u) = idt u" "idt_table (put_str str u) = idt_table u" "intr_name (put_str str u) = intr_name u"
  by (simp_all add: put_str_def)

lemma intact_fields:
  "intact s u \<Longrightarrow> ioqs v = ioqs u \<Longrightarrow> idt v = idt u \<Longrightarrow> idt_table v = idt_table u \<Longrightarrow> intr_name v = intr_name u \<Longrightarrow> intact s v"
  unfolding intact_def kernel_typed_def by (elim conjE) simp

lemma keyboard_intact:
  assumes "kernel_typed s"
  shows "safe (intact s) (intr_keyboard_handler s)"
proof -
  have i: "intact s s" "\<And>s'. ioqs s' = ioqs s \<Longrightarrow> idt s' = idt s \<Longrightarrow> idt_table s' = idt_table s \<Longrightarrow> intr_name s' = intr_name s \<Longrightarrow> intact s s'"
    using assms by (simp_all add: intact_def kernel_typed_def)
  let ?e = "s\<lparr>ext_scancode := False\<rparr>"
  have e: "intact s ?e" by (rule i(2)) simp_all
  then have "kernel_typed ?e" by (simp add: intact_def)
  then have off: "safe (intact s) (offer_char kbd_buf c s)" "safe (intact s) (offer_char kbd_buf c ?e)" for c
    using offer_intact [OF assms] safe_mono [OF offer_intact] intact_trans [OF e] by blast+
  have idx: "unat (sc AND 0x00ff) < length keymap" if c: "sc > 0x00 \<and> sc < 0x3b \<or> sc = alt_r_make \<or> sc = ctrl_r_make" for sc :: u16
  proof -
    consider "sc < 0x3b" | "sc = alt_r_make" | "sc = ctrl_r_make" using c by auto
    then show ?thesis
    proof cases
      case 1
      have "unat (sc AND 0xff) \<le> unat sc" by (simp add: word_and_le2 flip: word_le_nat_alt) 
      then show ?thesis using 1 by (simp add: length_keymap word_less_nat_alt)
    qed (simp_all add: length_keymap alt_r_make_def ctrl_r_make_def)
  qed
  have keys: "intact s (key_released m u)" "intact s (modifier_pressed m u)" "intact s (put_str str u)" if "intact s u" for m u str
    by (rule intact_fields [OF that], simp_all only: keys_frame put_str_frame)+
  define code where "code = (ucast (inb KBD_BUF_PORT s) :: u16)"
  define r where "r = (if ext_scancode s then (0xe000 OR code, ?e) else (code, s))"
  obtain sc u where r: "r = (sc, u)" by fastforce
  have u: "intact s u" "safe (intact s) (offer_char kbd_buf c u)" for c using r i(1) e off by (auto simp: r_def split: if_splits)
  have "intact s (s\<lparr>ext_scancode := True\<rparr>)" by (rule i(2)) simp_all
  then show ?thesis
    unfolding intr_keyboard_handler_def Let_def code_def [symmetric] r_def [symmetric] r prod.case
    using u idx [of sc] by (intro safe_if) (simp_all add: keys)
qed

lemma general_intact:
  assumes "kernel_typed s" "unat vec < IDT_DESC_CNT"
  shows "safe (\<lambda>(_, s'). intact s s') (general_intr_handler vec s)"
proof -
  have n: "idt (put_n_chars n c u) = idt u" "idt_table (put_n_chars n c u) = idt_table u" "intr_name (put_n_chars n c u) = intr_name u"
    "ioqs (put_n_chars n c u) = ioqs u" for n c and u :: "'a queues_scheme"
    unfolding put_n_chars_def by (induction n) (simp_all add: put_char_def)
  show ?thesis
    using assms by (simp add: general_intr_handler_def Let_def n put_str_def put_int_def set_cursor_def intact_def kernel_typed_def)
qed

section \<open>Property\<close>

text \<open>
  C18: Whichever of the 48 interrupts arrives, its handler does not index an array out of bounds, and if it returns, the descriptor and handler
  tables are unchanged and all arrays keep their sizes, with the positions of the keyboard queue inside its buffer.
\<close>

theorem handlers_keep_types:
  assumes "kernel_typed s" "vec < IDT_DESC_CNT"
  shows "(\<forall>x. call_handler vec s \<noteq> Inl (Out_Of_Bounds x)) \<and>
    (\<forall>s'. call_handler vec s = Inr s' \<longrightarrow> kernel_typed s' \<and> idt s' = idt s \<and> idt_table s' = idt_table s)"
proof -
  have "unat (of_nat vec :: u8) < IDT_DESC_CNT" using assms(2) by (simp add: IDT_DESC_CNT_def unsigned_of_nat take_bit_nat_eq_self)
  note g = general_intact [OF assms(1) this]
  have "safe (intact s) (call_handler vec s)"
  proof (cases "idt_table s ! vec")
    case No_Handler
    then show ?thesis using assms by (simp add: call_handler_def kernel_typed_def) (simp add: safe_def)
  next
    case General_Intr_Handler
    have "safe (intact s) (bindE (general_intr_handler (of_nat vec) s) (\<lambda>(returned, s). if returned then Inr s else Inl Hang))"
      by (rule safe_bindE [OF g]) (auto simp: safe_def)
    then show ?thesis using assms General_Intr_Handler by (simp add: call_handler_def kernel_typed_def)
  qed (use assms timer_intact [OF assms(1)] keyboard_intact [OF assms(1)] in \<open>simp_all add: call_handler_def kernel_typed_def\<close>)
  then show ?thesis by (auto simp: safe_def intact_def split: sum.splits)
qed

theorem handlers_keep_types_witness:
  "\<exists>s'. call_handler 0x27 (procs0\<lparr>intr_name := replicate 48 ''''\<rparr>) = Inr s' \<and> kernel_typed s'"
proof -
  let ?s = "procs0\<lparr>intr_name := replicate 48 ''''\<rparr>"
  have q: "ioqs procs0 kbd_buf = \<lparr>producer = 0, consumer = 0, buffer = replicate 64 0, head = 0, tail = 0\<rparr>"
    by (simp add: procs0_def segs.extend_def procs.fields_def tss_init_def Let_def put_str_def ltr_def lgdt_def set_desc_def
        segs0_def kbd.extend_def segs.fields_def kbd0_def queues.extend_def kbd.fields_def queues0_def mems.extend_def queues.fields_def)
  have "kernel_typed ?s" by (simp add: kernel_typed_def IDT_DESC_CNT_def q Let_def)
  moreover have "call_handler 0x27 ?s = Inr ?s" by (simp add: call_handler_def general_intr_handler_def)
  ultimately show ?thesis using handlers_keep_types [of ?s "0x27"] by (simp add: IDT_DESC_CNT_def)
qed

end
