(* ===== verification/Spec2Isabelle.thy ===== *)
theory Spec2Isabelle
  imports Lock_Protocol Loader User_Entry Handler_Types
begin

text \<open>
  Verification library for the x86 kernel under src/osproject.

  \<^bold>\<open>The program.\<close> The boot sector (boot/mbr.S) reads the loader, the loader (boot/loader.S) finds the size of the memory, reads the
  kernel image, builds page tables and copies the segments of the image. \<open>main\<close> (kernel/main.c) calls
  \<open>init_all\<close> (kernel/init.c), which fills the interrupt descriptor table, programs the timer and the interrupt controllers, sets up
  the memory management, makes itself the first thread, and initialises the console, the keyboard and the task state segment. It then
  starts two threads that print what the keyboard handler puts into a queue. The timer interrupt calls a round robin scheduler; threads wait
  for each other on semaphores and locks. userprog/process.c, which is not yet part of the build, creates processes with an address
  space of their own.

  \<^bold>\<open>Theories and sources.\<close> Each theory holds the definitions of its component in the order of the source, then lemmas, then properties.
  \<^item> \<open>Prelude\<close>: words for the C integer types, results, lemmas on words and pages (lib/stdint.h, kernel/debug.h).
  \<^item> \<open>Print\<close>: lib/kernel/print.S at register width. \<open>Machine\<close>: processor registers, byte ports (lib/kernel/io.h), the
    interrupt flag (kernel/interrupt.c) and \<open>panic_spin\<close> (kernel/debug.c). \<open>Port_Words\<close>: the string instructions of io.h.
  \<^item> \<open>Cstring\<close>: lib/string.c. \<open>Bitmap\<close>: lib/kernel/bitmap.c. \<open>Lists\<close>: lib/kernel/list.c.
  \<^item> \<open>Thread\<close>: thread/thread.c and thread/switch.S, without \<open>thread_start\<close>, which is in \<open>Thread_Start\<close>.
    \<open>Interrupt\<close>: the rest of kernel/interrupt.c. \<open>Timer\<close>: device/timer.c and the older kernel/timer.c.
    \<open>Sync\<close>: thread/sync.c. \<open>Lock_Protocol\<close>: interleavings of threads that use one lock.
  \<^item> \<open>Paging\<close>, \<open>Memory\<close>, \<open>Kernel_Pages\<close>, \<open>Memory_Init\<close>, \<open>Single_Page\<close>: kernel/memory.c and the page walk of the
    processor.
  \<^item> \<open>Ioqueue\<close>: device/ioqueue.c. \<open>Keyboard\<close>: device/keyboard.c. \<open>Console\<close>: device/console.c. \<open>Tss\<close>: userprog/tss.c and the
    descriptor constants of kernel/global.h. \<open>Consumers\<close>: the two threads of kernel/main.c. \<open>Start\<close>: kernel/init.c and \<open>main\<close>.
  \<^item> \<open>Trap\<close>: kernel/kernel.S. \<open>Handler_Types\<close>: the arrays that the interrupt handlers index.
  \<^item> \<open>Address_Space\<close>, \<open>Process\<close>, \<open>User_Entry\<close>: userprog/process.c.
  \<^item> \<open>Boot_Paging\<close>: the page tables of boot/loader.S. \<open>Loader\<close>: the rest of boot/loader.S and the disk reads of boot/mbr.S.

  \<^bold>\<open>State.\<close> The state of the kernel is one record that every component extends: \<open>machine\<close>, then \<open>bytemem\<close>, \<open>liststore\<close>,
  \<open>threads\<close>, \<open>intr\<close>, \<open>clock\<close>, \<open>syncs\<close>, \<open>paging\<close>, \<open>mems\<close>, \<open>queues\<close>, \<open>kbd\<close>, \<open>segs\<close>, \<open>procs\<close>. An operation is polymorphic
  in what extends the state that it uses, so operations of different components compose. Memory is split by the type of the
  objects, each store a function of the address: bytes (\<open>mem\<close>), list nodes (\<open>elems\<close>), control blocks (\<open>tasks\<close>),
  words of kernel stacks (\<open>stk\<close>), semaphores and locks, queues, and the words of the physical memory in which the page
  tables lie (\<open>pmem\<close>). A page that is cleared is cleared in every store. Addresses of global variables are
  those of build/kernel.map; the layout of a structure is given by the offsets of its fields, so that the overlap of nodes
  with the control block that contains them is as in the source. Accesses to page tables, and the clearing of new pages,
  go through \<open>translate\<close>, the walk of the processor over \<open>pmem\<close> from \<open>cr3\<close>; the other stores stand for memory that is mapped.
  The one place where objects of different stores can come to lie on each other is the initialisation of the memory: its bitmaps, bytes
  from 0xc009a000 on, reach the page of the main thread at 0xc009e000 if the memory is larger than 343 MB; \<open>clear_bitmap\<close> is an error then.

  \<^bold>\<open>Results.\<close> An operation that may fail returns \<open>err + 'a\<close>: a failed assertion with its file, line, function and condition, a loop
  that does not end, a page fault, an access out of bounds, a rejected segment, a call that would wait where the caller is followed only
  as long as it runs. A function that can block gives a result that says
  where it blocked and holds its locals (\<open>Blocked\<close>, \<open>Waits\<close>, \<open>Ioq_Blocked\<close>, \<open>Round_Blocked\<close>); the state is then that of the
  thread switched to, and the definition with the suffix \<open>_resume\<close> goes on when the thread runs again.
  Loops that count recurse on the count; a loop that searches is a \<open>partial_function (option)\<close> or has a termination proof, and
  a property that a function returns is proved as such. No definition uses fuel.

  \<^bold>\<open>What the lemmas show.\<close>
  \<^item> Start: on the page tables of the loader \<open>main\<close> runs through, and the kernel it leaves satisfies \<open>system_inv\<close>, the invariant that
    ties the two thread lists, the control blocks, the stacks and the memory management together (\<open>Start.main_boots\<close>). The
    bitmaps of the memory have to end before the page of the main thread, as they do up to 343 MB. The
    page tables are those that \<open>setup_page\<close> builds (\<open>Boot_Paging.loader_boot_state\<close>), and \<open>kernel_init\<close> loads every segment of the image.
  \<^item> Threads: \<open>switch_to\<close> restores the registers; the scheduler is round robin, and runs of the threads under the
    timer interrupt refine an abstract round robin with ticks, in which every thread gets its turn (\<open>Timer.slices_are_fair\<close>);
    \<open>thread_start\<close> takes a page and appends the thread to both lists.
  \<^item> Locks: mutual exclusion, no panic and no lost wake-up over all interleavings of threads with timer interrupts, as invariants of an
    inductive step relation. The one panic takes 2^32 steps: the 32-bit count of a lock wraps around.
  \<^item> Memory: \<open>bitmap_scan\<close> is first fit; \<open>vm_inv\<close> (no free frame is mapped, pools and bitmaps are apart, the free part of the heap
    is unmapped, the tables map themselves) holds after \<open>mem_init\<close> and is kept by every allocation;
    \<open>get_kernel_pages\<close>, \<open>get_a_page\<close>, \<open>page_table_add\<close> and \<open>addr_v2p\<close> are specified by the translation of addresses. The
    error paths are stated too: pages and locks that are not given back.
  \<^item> Input: the keyboard handler refines a specification of the key table, the queue behaves exactly as a list with room for one character, and a key
    typed reaches the screen.
  \<^item> Interrupts: entry, handler and exit give the interrupted program its registers back; no handler indexes out of bounds.
  \<^item> Processes: a new process has a directory that shares the kernel part, its control block is in both lists, and its first run
    enters the program at privilege 3 on a fresh stack page.

  The interfaces are locales: \<open>node_queues\<close> (what the scheduler and the semaphores need of lists, interpreted on lib/kernel/list.c
  as \<open>lq\<close>), \<open>bit_table\<close> (what the memory management needs of bitmaps, interpreted on lib/kernel/bitmap.c as \<open>bt\<close>) and
  \<open>bounded_queue\<close> (what keyboard and consumers need of the queue, interpreted on device/ioqueue.c as \<open>ring\<close>).

  \<^bold>\<open>Parameters.\<close> The addresses of the interrupt entry points and of strings; the constants of the missing header process.h
  (USER_VADDR_START, USER_STACK3_VADDR, default_prio) and \<open>block_desc_init\<close>, which is defined nowhere and of which nothing is
  assumed: the properties of \<open>process_execute\<close> say in which state it is called and what follows from any consistent state; the answers of the BIOS; the bytes and words that ports deliver.

  \<^bold>\<open>Not modelled.\<close> The BIOS video calls, the descriptor table of the loader and its switch to protected mode, since no state of the
  kernel depends on their steps. The translation look-aside buffer: the kernel turns only absent entries into present ones.
  Timing, and interrupts between the instructions of a function that runs with interrupts off. Loads and stores of C
  objects outside the page tables are not checked for page faults; the allocation lemmas say that the pages are mapped. The declarations
  of the headers are represented by the types of the definitions.
\<close>

end
